(* ===== verification/Prelude.thy ===== *)
theory Prelude imports Complex_Main "HOL-Library.Char_ord" "HOL-Library.List_Lexorder" "HOL-Library.Product_Lexorder" begin

text \<open>
  Shared vocabulary of the development: outcomes of operations that may raise while they change
  a state, the decimal rendering that Python's f-strings use for integers, insertion-ordered
  dictionaries, and the list facts that the component theories share.  The collection
  \<open>outcome_simps\<close> unfolds the sequencing of fallible operations, \<open>fmt_simps\<close> the text
  formats that ids and versions are built with.
\<close>

named_theorems outcome_simps
named_theorems fmt_simps

section \<open>Outcomes\<close>

text \<open>
  A Python method either raises or returns, and what it wrote before it raised stays written.
  An outcome therefore carries the state in both cases.
\<close>

type_synonym ('e, 'a, 's) outcome = "('e + 'a) \<times> 's"

definition andthen :: "('e, 'a, 's) outcome \<Rightarrow> ('a \<Rightarrow> 's \<Rightarrow> ('e, 'b, 's) outcome) \<Rightarrow> ('e, 'b, 's) outcome" where
  "andthen r k = (case r of (Inl e, s) \<Rightarrow> (Inl e, s) | (Inr a, s) \<Rightarrow> k a s)"

lemma andthen_simps [simp, outcome_simps]:
  "andthen (Inl e, s) k = (Inl e, s)"
  "andthen (Inr a, s) k = k a s"
  by (simp_all add: andthen_def)

lemma andthen_InrE:
  assumes "andthen r k = (Inr b, s')"
  obtains a s where "r = (Inr a, s)" and "k a s = (Inr b, s')"
  using assms by (cases r; cases "fst r") (auto simp: andthen_def)

lemma andthen_InlE:
  assumes "andthen r k = (Inl e, s')"
  obtains "r = (Inl e, s')" | a s where "r = (Inr a, s)" and "k a s = (Inl e, s')"
  using assms by (cases r; cases "fst r") (auto simp: andthen_def)

text \<open>A property of states that the first operation and every continuation keep.\<close>

lemma andthen_keeps:
  assumes "P (snd r)" and "\<And>a s. r = (Inr a, s) \<Longrightarrow> P s \<Longrightarrow> P (snd (k a s))"
  shows "P (snd (andthen r k))"
  using assms by (cases r; cases "fst r") (auto simp: andthen_def)

text \<open>The first failing element of a list stops a traversal.\<close>

fun map_result :: "('a \<Rightarrow> 'e + 'b) \<Rightarrow> 'a list \<Rightarrow> 'e + 'b list" where
  "map_result f [] = Inr []"
| "map_result f (x # xs) =
     (case f x of Inl e \<Rightarrow> Inl e
      | Inr y \<Rightarrow> (case map_result f xs of Inl e \<Rightarrow> Inl e | Inr ys \<Rightarrow> Inr (y # ys)))"

lemma map_result_total:
  "(\<And>x. x \<in> set xs \<Longrightarrow> f x = Inr (g x)) \<Longrightarrow> map_result f xs = Inr (map g xs)"
  by (induction xs) auto

lemma map_result_length: "map_result f xs = Inr ys \<Longrightarrow> length ys = length xs"
  by (induction xs arbitrary: ys) (auto split: sum.splits)

section \<open>Decimal rendering\<close>

fun nat_str :: "nat \<Rightarrow> string" where
  "nat_str n =
     (if n < 10 then [''0123456789'' ! n] else nat_str (n div 10) @ [''0123456789'' ! (n mod 10)])"

declare nat_str.simps [simp del]

definition int_str :: "int \<Rightarrow> string" where
  "int_str i = (if i < 0 then ''-'' @ nat_str (nat (- i)) else nat_str (nat i))"

abbreviation digits :: string where
  "digits \<equiv> ''0123456789''"

lemma digits_nth_mem: "n < 10 \<Longrightarrow> digits ! n \<in> set digits"
  by (rule nth_mem) simp

lemma digits_nth_inj: "m < 10 \<Longrightarrow> n < 10 \<Longrightarrow> digits ! m = digits ! n \<Longrightarrow> m = n"
  by (rule nth_eq_iff_index_eq [THEN iffD1, of digits]) simp_all

lemma nat_str_digits: "set (nat_str n) \<subseteq> set digits"
proof (induction n rule: nat_str.induct)
  case (1 n)
  then show ?case
    using digits_nth_mem [of n] digits_nth_mem [of "n mod 10"]
    by (subst nat_str.simps) (simp del: list.set add: list.set(1) list.set(2) [of "_ ! _"])
qed

lemma nat_str_nonempty [simp]: "nat_str n \<noteq> []" "[] \<noteq> nat_str n"
  by (subst nat_str.simps, simp)+

lemma nat_str_inj: "nat_str m = nat_str n \<Longrightarrow> m = n"
proof (induction m arbitrary: n rule: nat_str.induct)
  case (1 m)
  have split: "nat_str k = (if k < 10 then [] else nat_str (k div 10)) @ [digits ! (k mod 10)]" for k
    by (subst nat_str.simps) simp
  from "1.prems" have last: "digits ! (m mod 10) = digits ! (n mod 10)"
    and front: "(if m < 10 then [] else nat_str (m div 10)) = (if n < 10 then [] else nat_str (n div 10))"
    using split [of m] split [of n] by auto
  from last have "m mod 10 = n mod 10"
    by (intro digits_nth_inj) simp_all
  moreover from front have "m div 10 = n div 10"
    using "1.IH" [of "n div 10"] by (cases "m < 10"; cases "n < 10") auto
  ultimately show ?case
    by (metis div_mult_mod_eq)
qed

lemma nat_str_no_colon [simp]: "CHR '':'' \<notin> set (nat_str n)"
  using nat_str_digits [of n] by auto

lemma nat_str_no_minus: "CHR ''-'' \<notin> set (nat_str n)"
  using nat_str_digits [of n] by auto

lemma int_str_no_colon [simp]: "CHR '':'' \<notin> set (int_str i)"
  by (simp add: int_str_def)

lemma int_str_nonempty [simp]: "int_str i \<noteq> []"
  by (simp add: int_str_def)

lemma last_int_str_digit: "last (int_str i) \<in> set digits"
proof -
  have "last (nat_str n) \<in> set digits" for n
    using nat_str_digits [of n] last_in_set [OF nat_str_nonempty(1) [of n]] by blast
  then show ?thesis
    unfolding int_str_def by (simp del: list.set)
qed

lemma minus_nat_str_neq: "CHR ''-'' # s \<noteq> nat_str n"
  using nat_str_no_minus [of n] by (metis list.set_intros(1))

lemma int_str_inj: "int_str i = int_str j \<Longrightarrow> i = j"
  using minus_nat_str_neq minus_nat_str_neq [symmetric]
  by (auto simp: int_str_def split: if_splits dest!: nat_str_inj)

lemma int_str_eq [simp]: "int_str i = int_str j \<longleftrightarrow> i = j"
  using int_str_inj by blast

text \<open>Reading a decimal rendering back.\<close>

lemma digit_value: "k < 10 \<Longrightarrow> (of_char (digits ! k) :: int) - 48 = int k"
proof -
  assume "k < 10"
  then have "k \<in> {0,1,2,3,4,5,6,7,8,9}" by auto
  then show ?thesis by (elim insertE emptyE) simp_all
qed

lemma parse_nat_str: "foldl (\<lambda>n c. 10 * n + ((of_char c :: int) - 48)) 0 (nat_str k) = int k"
proof (induction k rule: nat_str.induct)
  case (1 k)
  show ?case
  proof (cases "k < 10")
    case True
    then show ?thesis by (subst nat_str.simps) (simp add: digit_value)
  next
    case False
    then show ?thesis
      using 1 digit_value [of "k mod 10"] by (subst nat_str.simps) (simp add: zdiv_int zmod_int)
  qed
qed

section \<open>Separated fields\<close>

text \<open>
  Ids are rendered as fields joined by colons.  A field without a colon can be read back from
  the front, or from the back, of such a text.
\<close>

lemma field_front:
  assumes "c \<notin> set a" and "c \<notin> set a'" and "a @ c # b = a' @ c # b'"
  shows "a = a' \<and> b = b'"
  using assms
proof (induction a arbitrary: a')
  case Nil
  then show ?case by (cases a') auto
next
  case (Cons x a)
  then show ?case by (cases a') auto
qed

lemma field_back:
  assumes "c \<notin> set b" and "c \<notin> set b'" and "a @ c # b = a' @ c # b'"
  shows "a = a' \<and> b = b'"
proof -
  have "rev b @ c # rev a = rev b' @ c # rev a'"
    using arg_cong [OF assms(3), of rev] by simp
  then show ?thesis
    using field_front [of c "rev b" "rev b'" "rev a" "rev a'"] assms(1,2) by simp
qed

section \<open>Insertion-ordered dictionaries\<close>

text \<open>
  Where the iteration order of a Python dictionary matters it is an association list:
  an assignment overwrites in place or appends.
\<close>

fun dict_set :: "'k \<Rightarrow> 'v \<Rightarrow> ('k \<times> 'v) list \<Rightarrow> ('k \<times> 'v) list" where
  "dict_set k v [] = [(k, v)]"
| "dict_set k v ((k', v') # d) = (if k' = k then (k, v) # d else (k', v') # dict_set k v d)"

definition dict_of :: "('k \<times> 'v) list \<Rightarrow> ('k \<times> 'v) list" where
  "dict_of kvs = fold (\<lambda>(k, v). dict_set k v) kvs []"

lemma map_of_dict_set [simp]: "map_of (dict_set k v d) = (map_of d)(k \<mapsto> v)"
  by (induction k v d rule: dict_set.induct) (auto simp: fun_eq_iff)

lemma keys_dict_set: "fst ` set (dict_set k v d) = insert k (fst ` set d)"
  by (induction k v d rule: dict_set.induct) auto

lemma distinct_dict_set [simp]: "distinct (map fst d) \<Longrightarrow> distinct (map fst (dict_set k v d))"
proof (induction k v d rule: dict_set.induct)
  case (2 k v k' v' d)
  then show ?case
    using keys_dict_set [of k v d] by (auto simp: image_iff)
qed simp

lemma dict_set_fresh: "k \<notin> fst ` set d \<Longrightarrow> dict_set k v d = d @ [(k, v)]"
  by (induction k v d rule: dict_set.induct) auto

lemma fold_dict_set_distinct:
  "distinct (map fst d) \<Longrightarrow> distinct (map fst (fold (\<lambda>(k, v). dict_set k v) kvs d))"
  by (induction kvs arbitrary: d) auto

lemma distinct_dict_of [simp]: "distinct (map fst (dict_of kvs))"
  by (simp add: dict_of_def fold_dict_set_distinct)

lemma fold_dict_set_fresh:
  "distinct (map fst kvs) \<Longrightarrow> fst ` set kvs \<inter> fst ` set d = {} \<Longrightarrow>
   fold (\<lambda>(k, v). dict_set k v) kvs d = d @ kvs"
proof (induction kvs arbitrary: d)
  case (Cons kv kvs)
  then show ?case
    by (cases kv) (auto simp: dict_set_fresh)
qed simp

lemma dict_of_distinct: "distinct (map fst kvs) \<Longrightarrow> dict_of kvs = kvs"
  by (simp add: dict_of_def fold_dict_set_fresh)

lemma fold_dict_set_map_of: "map_of (fold (\<lambda>(k, v). dict_set k v) kvs d) = map_of d ++ map_of (rev kvs)"
  by (induction kvs arbitrary: d) (auto simp: map_add_def fun_eq_iff split: option.splits)

lemma map_of_dict_of: "map_of (dict_of kvs) = map_of (rev kvs)"
  by (simp add: dict_of_def fold_dict_set_map_of)

section \<open>Sublists\<close>

text \<open>Deleting a span, as \<^verbatim>\<open>del xs[start:end]\<close> does.\<close>

definition del_span :: "nat \<Rightarrow> nat \<Rightarrow> 'a list \<Rightarrow> 'a list" where
  "del_span i j xs = take i xs @ drop j xs"

lemma length_del_span: "i < j \<Longrightarrow> j \<le> length xs \<Longrightarrow> length (del_span i j xs) < length xs"
  by (simp add: del_span_def)

lemma length_del_span_le: "i \<le> j \<Longrightarrow> length (del_span i j xs) \<le> length xs"
  by (simp add: del_span_def)

lemma set_del_span: "set (del_span i j xs) \<subseteq> set xs"
  by (auto simp: del_span_def dest: in_set_takeD in_set_dropD)

end
