(* ===== verification/Exceptions.thy ===== *)
theory Exceptions imports Prelude begin

text \<open>
  The exception hierarchy of \<^verbatim>\<open>exceptions.py\<close>, together with the built-in and asyncio classes that
  the runtime's \<^verbatim>\<open>except\<close> clauses distinguish.  An exception is its class, its message and the
  exception it was raised \<^verbatim>\<open>from\<close>; \<open>isinstance_exn\<close> is Python's test along the class's ancestors.
\<close>

datatype exn_class =
    AgentRuntimeError
  | ProtocolError
  | CompletionProtocolError
  | RecordingError
  | IdempotencyError
  | MessageNotFoundError
  | ReceiptMismatchError
  | BudgetExhaustedError
  | AdapterError
  | CapabilityError
  | SchemaValidationError
  | ContextBudgetError
  | VersionConflictError
  | CleanupTimeoutError
  | CancelledRunError
  | BaseException
  | Exception
  | AsyncioCancelledError
  | GeneratorExit
  | TimeoutError
  | RuntimeError
  | TypeError
  | ValueError
  | KeyError
  | AssertionError
  | ExceptionGroup

text \<open>The class followed by its ancestors, nearest first (\<^verbatim>\<open>object\<close> left out).\<close>

fun mro :: "exn_class \<Rightarrow> exn_class list" where
  "mro BaseException = [BaseException]"
| "mro Exception = [Exception, BaseException]"
| "mro AsyncioCancelledError = [AsyncioCancelledError, BaseException]"
| "mro GeneratorExit = [GeneratorExit, BaseException]"
| "mro AgentRuntimeError = [AgentRuntimeError, Exception, BaseException]"
| "mro ProtocolError = [ProtocolError, AgentRuntimeError, Exception, BaseException]"
| "mro CompletionProtocolError =
     [CompletionProtocolError, ProtocolError, AgentRuntimeError, Exception, BaseException]"
| "mro RecordingError = [RecordingError, AgentRuntimeError, Exception, BaseException]"
| "mro IdempotencyError = [IdempotencyError, RecordingError, AgentRuntimeError, Exception, BaseException]"
| "mro MessageNotFoundError =
     [MessageNotFoundError, RecordingError, AgentRuntimeError, Exception, BaseException]"
| "mro ReceiptMismatchError =
     [ReceiptMismatchError, RecordingError, AgentRuntimeError, Exception, BaseException]"
| "mro BudgetExhaustedError = [BudgetExhaustedError, AgentRuntimeError, Exception, BaseException]"
| "mro AdapterError = [AdapterError, AgentRuntimeError, Exception, BaseException]"
| "mro CapabilityError = [CapabilityError, AgentRuntimeError, Exception, BaseException]"
| "mro SchemaValidationError = [SchemaValidationError, AgentRuntimeError, Exception, BaseException]"
| "mro ContextBudgetError = [ContextBudgetError, AgentRuntimeError, Exception, BaseException]"
| "mro VersionConflictError = [VersionConflictError, AgentRuntimeError, Exception, BaseException]"
| "mro CleanupTimeoutError = [CleanupTimeoutError, AgentRuntimeError, Exception, BaseException]"
| "mro CancelledRunError = [CancelledRunError, AgentRuntimeError, Exception, BaseException]"
| "mro TimeoutError = [TimeoutError, Exception, BaseException]"
| "mro RuntimeError = [RuntimeError, Exception, BaseException]"
| "mro TypeError = [TypeError, Exception, BaseException]"
| "mro ValueError = [ValueError, Exception, BaseException]"
| "mro KeyError = [KeyError, Exception, BaseException]"
| "mro AssertionError = [AssertionError, Exception, BaseException]"
| "mro ExceptionGroup = [ExceptionGroup, Exception, BaseException]"

datatype exn = Exn (exn_kind: exn_class) (exn_message: string) (exn_cause: "exn option")

abbreviation raised :: "exn_class \<Rightarrow> string \<Rightarrow> exn" where
  "raised c m \<equiv> Exn c m None"

abbreviation raised_from :: "exn_class \<Rightarrow> string \<Rightarrow> exn \<Rightarrow> exn" where
  "raised_from c m e \<equiv> Exn c m (Some e)"

definition isinstance_exn :: "exn \<Rightarrow> exn_class \<Rightarrow> bool" where
  "isinstance_exn e c \<longleftrightarrow> c \<in> set (mro (exn_kind e))"

lemma isinstance_Exn [simp]: "isinstance_exn (Exn k m f) c \<longleftrightarrow> c \<in> set (mro k)"
  by (simp add: isinstance_exn_def)

lemma mro_self [simp]: "c \<in> set (mro c)"
  by (cases c) simp_all

lemma isinstance_trans:
  "isinstance_exn e c \<Longrightarrow> d \<in> set (mro c) \<Longrightarrow> isinstance_exn e d"
  by (cases e, rename_tac k m f, case_tac k) (auto simp: isinstance_exn_def)

text \<open>\<^verbatim>\<open>type(exc).__name__\<close>, as it is reported by a failed run.\<close>

fun class_name :: "exn_class \<Rightarrow> string" where
  "class_name AgentRuntimeError = ''AgentRuntimeError''"
| "class_name ProtocolError = ''ProtocolError''"
| "class_name CompletionProtocolError = ''CompletionProtocolError''"
| "class_name RecordingError = ''RecordingError''"
| "class_name IdempotencyError = ''IdempotencyError''"
| "class_name MessageNotFoundError = ''MessageNotFoundError''"
| "class_name ReceiptMismatchError = ''ReceiptMismatchError''"
| "class_name BudgetExhaustedError = ''BudgetExhaustedError''"
| "class_name AdapterError = ''AdapterError''"
| "class_name CapabilityError = ''CapabilityError''"
| "class_name SchemaValidationError = ''SchemaValidationError''"
| "class_name ContextBudgetError = ''ContextBudgetError''"
| "class_name VersionConflictError = ''VersionConflictError''"
| "class_name CleanupTimeoutError = ''CleanupTimeoutError''"
| "class_name CancelledRunError = ''CancelledRunError''"
| "class_name BaseException = ''BaseException''"
| "class_name Exception = ''Exception''"
| "class_name AsyncioCancelledError = ''CancelledError''"
| "class_name GeneratorExit = ''GeneratorExit''"
| "class_name TimeoutError = ''TimeoutError''"
| "class_name RuntimeError = ''RuntimeError''"
| "class_name TypeError = ''TypeError''"
| "class_name ValueError = ''ValueError''"
| "class_name KeyError = ''KeyError''"
| "class_name AssertionError = ''AssertionError''"
| "class_name ExceptionGroup = ''ExceptionGroup''"

end
