(* ===== verification/Jsonutil.thy ===== *)
theory Jsonutil imports Exceptions begin

text \<open>
  \<^verbatim>\<open>jsonutil.py\<close>: \<open>pyobj\<close> is what a caller may hand in (mutable dicts and lists included),
  \<open>jvalue\<close> what a frozen contract object holds: mapping proxies and tuples all the way down.
  Frozen values contain no reference to the caller's containers, so the deep copy of the source
  is the translation between the two types.  Floats are exact rationals (NaN and the infinities
  are not in the model); a mapping key is a string, an integer, a bool or None.
\<close>

datatype jvalue =
    JNone
  | JStr string
  | JInt int
  | JFloat rat
  | JBool bool
  | JArr "jvalue list"
  | JObj "(string \<times> jvalue) list"

type_synonym jobj = "(string \<times> jvalue) list"

datatype mkey = MkStr string | MkInt int | MkBool bool | MkNone

datatype pyobj =
    PyNone
  | PyStr string
  | PyInt int
  | PyFloat rat
  | PyBool bool
  | PyDict "(mkey \<times> pyobj) list"
  | PyProxy "(mkey \<times> pyobj) list"
  | PyList "pyobj list"
  | PyTuple "pyobj list"
  | PyOther string

text \<open>\<^verbatim>\<open>str(key)\<close>.\<close>

fun str_key :: "mkey \<Rightarrow> string" where
  "str_key (MkStr s) = s"
| "str_key (MkInt i) = int_str i"
| "str_key (MkBool b) = (if b then ''True'' else ''False'')"
| "str_key MkNone = ''None''"

lemma map_result_cong [fundef_cong]:
  "xs = ys \<Longrightarrow> (\<And>x. x \<in> set ys \<Longrightarrow> f x = g x) \<Longrightarrow> map_result f xs = map_result g ys"
  by (induction xs arbitrary: ys) (auto split: sum.splits)

text \<open>
  \<open>PyOther t\<close> is any value that is neither a JSON primitive, a mapping nor a list or tuple
  (bytes and bytearray included), of type \<open>t\<close>.
\<close>

fun freeze_json :: "pyobj \<Rightarrow> exn + jvalue" where
  "freeze_json PyNone = Inr JNone"
| "freeze_json (PyStr s) = Inr (JStr s)"
| "freeze_json (PyInt i) = Inr (JInt i)"
| "freeze_json (PyFloat r) = Inr (JFloat r)"
| "freeze_json (PyBool b) = Inr (JBool b)"
| "freeze_json (PyDict kvs) =
     (case map_result (\<lambda>kv. freeze_json (snd kv)) kvs of
        Inl e \<Rightarrow> Inl e
      | Inr vs \<Rightarrow> Inr (JObj (dict_of (zip (map (str_key \<circ> fst) kvs) vs))))"
| "freeze_json (PyProxy kvs) =
     (case map_result (\<lambda>kv. freeze_json (snd kv)) kvs of
        Inl e \<Rightarrow> Inl e
      | Inr vs \<Rightarrow> Inr (JObj (dict_of (zip (map (str_key \<circ> fst) kvs) vs))))"
| "freeze_json (PyList xs) =
     (case map_result freeze_json xs of Inl e \<Rightarrow> Inl e | Inr vs \<Rightarrow> Inr (JArr vs))"
| "freeze_json (PyTuple xs) =
     (case map_result freeze_json xs of Inl e \<Rightarrow> Inl e | Inr vs \<Rightarrow> Inr (JArr vs))"
| "freeze_json (PyOther t) =
     Inl (raised TypeError (''unsupported JSON value type: <class '' @ [CHR 0x27] @ t @ [CHR 0x27] @ ''>''))"

text \<open>The Python object that a frozen value is: a mapping proxy or a tuple at every level.\<close>

fun held_json :: "jvalue \<Rightarrow> pyobj" where
  "held_json JNone = PyNone"
| "held_json (JStr s) = PyStr s"
| "held_json (JInt i) = PyInt i"
| "held_json (JFloat r) = PyFloat r"
| "held_json (JBool b) = PyBool b"
| "held_json (JObj kvs) = PyProxy (map (\<lambda>kv. (MkStr (fst kv), held_json (snd kv))) kvs)"
| "held_json (JArr xs) = PyTuple (map held_json xs)"

fun thaw_json :: "jvalue \<Rightarrow> pyobj" where
  "thaw_json JNone = PyNone"
| "thaw_json (JStr s) = PyStr s"
| "thaw_json (JInt i) = PyInt i"
| "thaw_json (JFloat r) = PyFloat r"
| "thaw_json (JBool b) = PyBool b"
| "thaw_json (JObj kvs) = PyDict (map (\<lambda>kv. (MkStr (fst kv), thaw_json (snd kv))) kvs)"
| "thaw_json (JArr xs) = PyList (map thaw_json xs)"

text \<open>\<^verbatim>\<open>freeze_mapping\<close>: the argument is \<^verbatim>\<open>None\<close> or a mapping, copied by \<^verbatim>\<open>dict(value)\<close>.\<close>

definition freeze_mapping :: "(mkey \<times> pyobj) list option \<Rightarrow> exn + jobj" where
  "freeze_mapping value =
     (case freeze_json (case value of None \<Rightarrow> PyDict [] | Some kvs \<Rightarrow> PyDict kvs) of
        Inl e \<Rightarrow> Inl e
      | Inr (JObj kvs) \<Rightarrow> Inr kvs
      | Inr _ \<Rightarrow> Inl (raised TypeError ''expected a JSON object''))"

text \<open>\<^verbatim>\<open>freeze_object_map\<close>, \<^verbatim>\<open>copy_json\<close> and \<^verbatim>\<open>sequence_to_tuple\<close> of \<^verbatim>\<open>contracts.py\<close>.\<close>

definition freeze_object_map :: "(mkey \<times> pyobj) list option \<Rightarrow> exn + jobj" where
  "freeze_object_map value = freeze_mapping value"

definition copy_json :: "pyobj \<Rightarrow> exn + jvalue" where
  "copy_json value = freeze_json value"

definition sequence_to_tuple :: "'a list option \<Rightarrow> 'a list" where
  "sequence_to_tuple items = (case items of None \<Rightarrow> [] | Some xs \<Rightarrow> xs)"

section \<open>Properties\<close>

text \<open>Frozen objects have one entry per key at every level.\<close>

fun jwf :: "jvalue \<Rightarrow> bool" where
  "jwf (JObj kvs) \<longleftrightarrow> distinct (map fst kvs) \<and> (\<forall>kv \<in> set kvs. jwf (snd kv))"
| "jwf (JArr xs) \<longleftrightarrow> (\<forall>x \<in> set xs. jwf x)"
| "jwf _ \<longleftrightarrow> True"

text \<open>The values \<open>freeze_json\<close> accepts: no foreign object at any depth.\<close>

fun json_like :: "pyobj \<Rightarrow> bool" where
  "json_like (PyDict kvs) \<longleftrightarrow> (\<forall>kv \<in> set kvs. json_like (snd kv))"
| "json_like (PyProxy kvs) \<longleftrightarrow> (\<forall>kv \<in> set kvs. json_like (snd kv))"
| "json_like (PyList xs) \<longleftrightarrow> (\<forall>x \<in> set xs. json_like x)"
| "json_like (PyTuple xs) \<longleftrightarrow> (\<forall>x \<in> set xs. json_like x)"
| "json_like (PyOther t) \<longleftrightarrow> False"
| "json_like _ \<longleftrightarrow> True"

lemma map_result_Inr_iff:
  "(\<exists>ys. map_result f xs = Inr ys) \<longleftrightarrow> (\<forall>x \<in> set xs. \<exists>y. f x = Inr y)"
  by (induction xs) (force split: sum.splits)+

lemma map_result_set:
  "map_result f xs = Inr ys \<Longrightarrow> y \<in> set ys \<Longrightarrow> \<exists>x \<in> set xs. f x = Inr y"
  by (induction xs arbitrary: ys) (auto split: sum.splits)

lemma freeze_json_accepts: "(\<exists>v. freeze_json x = Inr v) \<longleftrightarrow> json_like x"
proof (induction x rule: json_like.induct)
  case (1 kvs)
  then show ?case
    using map_result_Inr_iff [of "\<lambda>kv. freeze_json (snd kv)" kvs] by (force split: sum.splits)
next
  case (2 kvs)
  then show ?case
    using map_result_Inr_iff [of "\<lambda>kv. freeze_json (snd kv)" kvs] by (force split: sum.splits)
next
  case (3 xs)
  then show ?case
    using map_result_Inr_iff [of freeze_json xs] by (force split: sum.splits)
next
  case (4 xs)
  then show ?case
    using map_result_Inr_iff [of freeze_json xs] by (force split: sum.splits)
qed auto

lemma set_fold_dict_set: "set (fold (\<lambda>(k, v). dict_set k v) kvs d) \<subseteq> set d \<union> set kvs"
proof (induction kvs arbitrary: d)
  case (Cons kv kvs)
  have "set (dict_set k v d) \<subseteq> insert (k, v) (set d)" for k v
    by (induction k v d rule: dict_set.induct) auto
  from this [of "fst kv" "snd kv"] Cons.IH [of "dict_set (fst kv) (snd kv) d"] show ?case
    by (simp add: case_prod_beta) blast
qed simp

lemma set_dict_of: "set (dict_of kvs) \<subseteq> set kvs"
  using set_fold_dict_set [of kvs "[]"] by (simp add: dict_of_def)

lemma jwf_dict_of: "(\<And>v. v \<in> set vs \<Longrightarrow> jwf v) \<Longrightarrow> jwf (JObj (dict_of (zip ks vs)))"
  using set_dict_of [of "zip ks vs"] by (fastforce dest: set_zip_rightD)

lemma freeze_pairs_jwf:
  assumes "map_result (\<lambda>kv. freeze_json (snd kv)) kvs = Inr vs"
    and "\<And>kv v. kv \<in> set kvs \<Longrightarrow> freeze_json (snd kv) = Inr v \<Longrightarrow> jwf v"
  shows "jwf (JObj (dict_of (zip ks vs)))"
  using map_result_set [OF assms(1)] assms(2) by (intro jwf_dict_of) blast

lemma freeze_json_jwf: "freeze_json x = Inr v \<Longrightarrow> jwf v"
proof (induction x arbitrary: v rule: freeze_json.induct)
  case (6 kvs)
  then show ?case by (auto simp del: jwf.simps split: sum.splits intro!: freeze_pairs_jwf)
next
  case (7 kvs)
  then show ?case by (auto simp del: jwf.simps split: sum.splits intro!: freeze_pairs_jwf)
next
  case (8 xs)
  then show ?case
    by (fastforce split: sum.splits dest: map_result_set)
next
  case (9 xs)
  then show ?case
    by (fastforce split: sum.splits dest: map_result_set)
qed auto

lemma freeze_held: "jwf v \<Longrightarrow> freeze_json (held_json v) = Inr v"
proof (induction v rule: jwf.induct)
  case (1 kvs)
  have "map_result (\<lambda>kv. freeze_json (snd kv)) (map (\<lambda>kv. (MkStr (fst kv), held_json (snd kv))) kvs)
      = Inr (map snd kvs)"
    using 1 by (induction kvs) auto
  with 1 show ?case
    by (simp add: o_def zip_map_fst_snd dict_of_distinct)
next
  case (2 xs)
  have "map_result freeze_json (map held_json xs) = Inr xs"
    using 2 by (induction xs) auto
  then show ?case by simp
qed auto

lemma freeze_thaw: "jwf v \<Longrightarrow> freeze_json (thaw_json v) = Inr v"
proof (induction v rule: jwf.induct)
  case (1 kvs)
  have "map_result (\<lambda>kv. freeze_json (snd kv)) (map (\<lambda>kv. (MkStr (fst kv), thaw_json (snd kv))) kvs)
      = Inr (map snd kvs)"
    using 1 by (induction kvs) auto
  with 1 show ?case
    by (simp add: o_def zip_map_fst_snd dict_of_distinct)
next
  case (2 xs)
  have "map_result freeze_json (map thaw_json xs) = Inr xs"
    using 2 by (induction xs) auto
  then show ?case by simp
qed auto

lemma freeze_mapping_Inr: "freeze_mapping m = Inr kvs \<Longrightarrow> jwf (JObj kvs)"
  unfolding freeze_mapping_def
  by (auto split: sum.splits option.splits jvalue.splits simp del: jwf.simps freeze_json.simps
      dest!: freeze_json_jwf)

lemma freeze_mapping_thaw:
  assumes "jwf (JObj kvs)"
  shows "freeze_mapping (Some (map (\<lambda>kv. (MkStr (fst kv), thaw_json (snd kv))) kvs)) = Inr kvs"
  using freeze_thaw [OF assms] by (simp add: freeze_mapping_def del: freeze_json.simps)


end
