(* ===== verification/Contracts.thy ===== *)
theory Contracts imports Jsonutil begin

text \<open>
  The value objects, execution entries and events of \<^verbatim>\<open>contracts.py\<close>.  A frozen dataclass is a
  record whose fields carry a short prefix of the class name, an enumeration is a datatype with
  the source's members, a tuple is a list, and a union of event classes is one datatype with a
  constructor per class.  Python integers are \<^typ>\<open>int\<close>, strings are \<^typ>\<open>string\<close> and durations
  in seconds are \<^typ>\<open>rat\<close>.
\<close>

section \<open>Enumerations\<close>

datatype flow = CONTINUE | FINISH | WAIT

datatype role = SYSTEM | USER | ASSISTANT | TOOL

fun role_value :: "role \<Rightarrow> string" where
  "role_value SYSTEM = ''system''"
| "role_value USER = ''user''"
| "role_value ASSISTANT = ''assistant''"
| "role_value TOOL = ''tool''"

datatype stop_reason = USER_STOP | HOST_CANCEL | CONSUMER_CLOSED | DEADLINE | IDLE_TIMEOUT

fun stop_reason_value :: "stop_reason \<Rightarrow> string" where
  "stop_reason_value USER_STOP = ''user_stop''"
| "stop_reason_value HOST_CANCEL = ''host_cancel''"
| "stop_reason_value CONSUMER_CLOSED = ''consumer_closed''"
| "stop_reason_value DEADLINE = ''deadline''"
| "stop_reason_value IDLE_TIMEOUT = ''idle_timeout''"

datatype tool_choice_mode = AUTO | NONE | REQUIRED | NAMED

datatype usage_source = PROVIDER | ESTIMATED | MISSING

datatype match_kind = MATCHED | NO_MATCH | DEGRADED | REJECTED | CONFIG_ERROR

fun match_kind_value :: "match_kind \<Rightarrow> string" where
  "match_kind_value MATCHED = ''matched''"
| "match_kind_value NO_MATCH = ''no_match''"
| "match_kind_value DEGRADED = ''degraded''"
| "match_kind_value REJECTED = ''rejected''"
| "match_kind_value CONFIG_ERROR = ''config_error''"

datatype logical_op_kind = INPUT | TEXT_DELTA | TEXT_FINAL | TOOL_CALLS | TOOL_RESULTS | RUN_FINAL

datatype run_status = RUNNING | SUCCEEDED | FAILED | CANCELLED | WAITING

fun run_status_value :: "run_status \<Rightarrow> string" where
  "run_status_value RUNNING = ''running''"
| "run_status_value SUCCEEDED = ''succeeded''"
| "run_status_value FAILED = ''failed''"
| "run_status_value CANCELLED = ''cancelled''"
| "run_status_value WAITING = ''waiting''"

datatype partial_output_policy = ISOLATE_ATTEMPTS

datatype ordinary_tool_error_policy = MODEL_VISIBLE

definition FLOW_PRIORITY :: "flow list" where
  "FLOW_PRIORITY = [WAIT, FINISH, CONTINUE]"

definition DEFAULT_PARTIAL_OUTPUT_POLICY :: partial_output_policy where
  "DEFAULT_PARTIAL_OUTPUT_POLICY = ISOLATE_ATTEMPTS"

definition DEFAULT_ORDINARY_TOOL_ERROR_POLICY :: ordinary_tool_error_policy where
  "DEFAULT_ORDINARY_TOOL_ERROR_POLICY = MODEL_VISIBLE"

section \<open>Identity, budget, targets\<close>

record actor_identity =
  ai_actor_id :: string
  ai_attributes :: "(string \<times> string) list"

record record_target =
  rt_value :: string

record step_identity =
  si_run_id :: string
  si_step_no :: int
  si_model_round :: int

record recovery_budget =
  rb_max_attempts :: int
  rb_remaining_attempts :: int
  rb_backoff_seconds :: "rat list"
  rb_retry_partial_output :: bool

definition default_recovery_budget :: recovery_budget where
  "default_recovery_budget =
     \<lparr>rb_max_attempts = 3, rb_remaining_attempts = 3, rb_backoff_seconds = [0, 1/4, 1/2],
      rb_retry_partial_output = False\<rparr>"

definition recovery_budget_consume :: "recovery_budget \<Rightarrow> recovery_budget" where
  "recovery_budget_consume b =
     (let remaining = max 0 (rb_remaining_attempts b - 1) in
      \<lparr>rb_max_attempts = rb_max_attempts b, rb_remaining_attempts = remaining,
       rb_backoff_seconds = rb_backoff_seconds b,
       rb_retry_partial_output = rb_retry_partial_output b\<rparr>)"

record consumed_budget =
  cb_model_rounds :: int
  cb_steps :: int
  cb_estimated_tokens :: int

record execution_limits =
  el_max_model_rounds :: "int option"
  el_max_steps :: "int option"
  el_max_estimated_tokens :: "int option"
  el_deadline_seconds :: "rat option"
  el_recovery :: recovery_budget

definition default_execution_limits :: execution_limits where
  "default_execution_limits =
     \<lparr>el_max_model_rounds = Some 16, el_max_steps = Some 32, el_max_estimated_tokens = None,
      el_deadline_seconds = None, el_recovery = default_recovery_budget\<rparr>"

record binding_set_ref =
  bs_version :: string

record capability_policy_ref =
  cp_version :: string

record context_version =
  cv_history_version :: string
  cv_capability_version :: string
  cv_application_version :: string
  cv_target :: record_target

section \<open>Tools, messages, model input and output\<close>

record tool_spec =
  ts_name :: string
  ts_description :: string
  ts_parameters :: jobj

record tool_call =
  tc_call_id :: string
  tc_name :: string
  tc_arguments :: jobj

record tool_result =
  tr_call_id :: string
  tr_name :: string
  tr_output :: string
  tr_is_error :: bool

record external_work_ref =
  ew_call_id :: string
  ew_tool_name :: string
  ew_handle :: string
  ew_cancellable :: bool
  ew_detail :: "string option"

record pending_ref =
  pr_value :: string
  pr_completed_call_ids :: "string list"

record flow_decision =
  fd_flow :: flow
  fd_reason :: "string option"
  fd_pending_ref :: "pending_ref option"

record context_contribution =
  cc_source :: string
  cc_content :: string
  cc_scope :: string
  cc_priority :: int
  cc_dedupe_key :: string

record invocation_outcome =
  io_result :: tool_result
  io_flow_hint :: "flow_decision option"
  io_next_record_target :: "record_target option"
  io_activate_tools :: "tool_spec list"
  io_contributions :: "context_contribution list"
  io_state_payload :: "jobj option"

record message =
  m_role :: role
  m_content :: "string option"
  m_tool_calls :: "tool_call list"
  m_tool_call_id :: "string option"
  m_name :: "string option"
  m_reasoning :: "string option"
  m_message_id :: "string option"

text \<open>\<^verbatim>\<open>Message(role=role, content=content)\<close>.\<close>

definition plain_message :: "role \<Rightarrow> string option \<Rightarrow> message" where
  "plain_message r c =
     \<lparr>m_role = r, m_content = c, m_tool_calls = [], m_tool_call_id = None, m_name = None,
      m_reasoning = None, m_message_id = None\<rparr>"

lemma plain_message_simps [simp]:
  "m_role (plain_message r c) = r" "m_content (plain_message r c) = c"
  "m_tool_calls (plain_message r c) = []" "m_tool_call_id (plain_message r c) = None"
  "m_name (plain_message r c) = None" "m_reasoning (plain_message r c) = None"
  "m_message_id (plain_message r c) = None"
  by (simp_all add: plain_message_def)

record tool_choice =
  tch_mode :: tool_choice_mode
  tch_name :: "string option"

record model_config =
  mc_model :: string
  mc_temperature :: "rat option"
  mc_extra :: "(string \<times> string) list"

record token_usage =
  tu_input_tokens :: "int option"
  tu_output_tokens :: "int option"
  tu_total_tokens :: "int option"
  tu_source :: usage_source

record model_request =
  mr_messages :: "message list"
  mr_tools :: "tool_spec list"
  mr_model :: model_config
  mr_tool_choice :: tool_choice
  mr_recovery :: recovery_budget
  mr_deadline_monotonic :: "rat option"

record model_result =
  mres_text :: "string option"
  mres_reasoning :: "string option"
  mres_tool_calls :: "tool_call list"
  mres_usage :: token_usage
  mres_finish_reason :: "string option"
  mres_attempt :: int

text \<open>
  \<^verbatim>\<open>str.isspace\<close> on the characters of the model (code points below 256): the ASCII blanks and
  separators, NEL and the no-break space.
\<close>

definition py_isspace :: "char \<Rightarrow> bool" where
  "py_isspace c \<longleftrightarrow>
     (let n = of_char c :: nat in (9 \<le> n \<and> n \<le> 13) \<or> (28 \<le> n \<and> n \<le> 32) \<or> n = 133 \<or> n = 160)"

text \<open>\<^verbatim>\<open>str.strip()\<close>.\<close>

definition py_strip :: "string \<Rightarrow> string" where
  "py_strip s = rev (dropWhile py_isspace (rev (dropWhile py_isspace s)))"

definition is_effective :: "model_result \<Rightarrow> bool" where
  "is_effective r =
     (let has_text = (case mres_text r of None \<Rightarrow> False | Some t \<Rightarrow> t \<noteq> [] \<and> py_strip t \<noteq> [])
      in has_text \<or> mres_tool_calls r \<noteq> [])"

section \<open>Snapshots and receipts\<close>

record capability_snapshot =
  cs_version :: string
  cs_tools :: "tool_spec list"
  cs_binding_ref :: binding_set_ref
  cs_contributions :: "context_contribution list"
  cs_policy_ref :: capability_policy_ref

fun find_tool :: "tool_spec list \<Rightarrow> string \<Rightarrow> tool_spec option" where
  "find_tool [] name = None"
| "find_tool (spec # specs) name = (if ts_name spec = name then Some spec else find_tool specs name)"

definition capability_tool :: "capability_snapshot \<Rightarrow> string \<Rightarrow> tool_spec option" where
  "capability_tool s name = find_tool (cs_tools s) name"

record prepared_context =
  px_messages :: "message list"
  px_contributions :: "context_contribution list"
  px_estimated_tokens :: int
  px_compressed :: bool

record summary_projection =
  sp_key :: string
  sp_messages :: "message list"

record prepared_step =
  ps_identity :: step_identity
  ps_record_target :: record_target
  ps_request :: model_request
  ps_capabilities :: capability_snapshot
  ps_context_version :: context_version
  ps_estimated_tokens :: int
  ps_context :: "prepared_context option"

record message_receipt =
  rc_message_id :: string
  rc_run_id :: string
  rc_step_no :: "int option"
  rc_record_target :: record_target
  rc_logical_op_id :: string
  rc_created :: bool

record call_record =
  cr_call_id :: string
  cr_name :: string
  cr_message_id :: string

record batch_receipt =
  br_run_id :: string
  br_step_no :: int
  br_record_target :: record_target
  br_logical_op_id :: string
  br_calls :: "call_record list"
  br_assistant_message_id :: "string option"
  br_recording_required :: bool
  br_created :: bool

record transcript_snapshot =
  tsn_version :: string
  tsn_record_target :: record_target
  tsn_messages :: "message list"

record application_snapshot =
  as_version :: string
  as_record_target :: record_target
  as_payload :: jobj

record tool_batch_command =
  tb_identity :: step_identity
  tb_record_target :: record_target
  tb_calls :: "tool_call list"
  tb_capabilities :: capability_snapshot
  tb_assistant_text :: "string option"
  tb_reasoning :: "string option"
  tb_previous_receipt :: "batch_receipt option"
  tb_attempt :: int

record completion_command =
  cm_step :: prepared_step
  cm_result :: model_result

record resolution =
  res_kind :: match_kind
  res_snapshot :: "capability_snapshot option"
  res_reason :: "string option"

section \<open>Execution entries, requests, events\<close>

datatype execution_entry =
    ModelEntry
  | ToolBatchEntry
      (te_calls: "tool_call list")
      (te_assistant_text: "string option")
      (te_reasoning: "string option")
      (te_previous_receipt: "batch_receipt option")
      (te_continue_after: bool)
  | CompletedEntry

record run_request =
  rq_run_id :: string
  rq_input_items :: "message list"
  rq_record_target :: record_target
  rq_entry :: execution_entry
  rq_limits :: execution_limits
  rq_identity :: "actor_identity option"
  rq_model :: model_config
  rq_consumed :: consumed_budget
  rq_tool_choice :: tool_choice

datatype runtime_event =
    TextDeltaEvent step_identity string int "message_receipt option"
  | ReasoningDeltaEvent step_identity string int
  | ModelCompleted step_identity model_result "message_receipt option"
  | ToolCallRecordedEvent step_identity batch_receipt
  | ToolProgressEvent step_identity string jobj
  | ExternalWorkDeclared step_identity external_work_ref
  | ToolResultEvent step_identity tool_result "message_receipt option"
  | ToolBatchCompleted step_identity flow_decision "tool_result list" "batch_receipt option"
  | CompletionCompleted step_identity flow_decision "message_receipt option"
  | RunStarted string record_target
  | StepStarted step_identity string
  | RunSucceeded string
  | RunFailed string string string
  | RunCancelled string stop_reason "external_work_ref list"
  | RunWaiting string pending_ref flow_decision

text \<open>The four terminal events of a run.\<close>

fun is_terminal :: "runtime_event \<Rightarrow> bool" where
  "is_terminal (RunSucceeded _) = True"
| "is_terminal (RunFailed _ _ _) = True"
| "is_terminal (RunCancelled _ _ _) = True"
| "is_terminal (RunWaiting _ _ _) = True"
| "is_terminal _ = False"

section \<open>Properties\<close>

lemma recovery_budget_consume_bounds:
  "0 \<le> rb_remaining_attempts (recovery_budget_consume b)"
  "0 < rb_remaining_attempts b \<Longrightarrow>
   rb_remaining_attempts (recovery_budget_consume b) = rb_remaining_attempts b - 1"
  by (simp_all add: recovery_budget_consume_def)

lemma find_tool_Some: "find_tool specs name = Some spec \<Longrightarrow> spec \<in> set specs \<and> ts_name spec = name"
  by (induction specs) (auto split: if_splits)

lemma find_tool_None: "find_tool specs name = None \<longleftrightarrow> name \<notin> ts_name ` set specs"
  by (induction specs) auto

lemma dropWhile_isspace_Nil: "dropWhile py_isspace s = [] \<longleftrightarrow> (\<forall>c \<in> set s. py_isspace c)"
  by (induction s) auto

lemma py_strip_empty: "py_strip s = [] \<longleftrightarrow> (\<forall>c \<in> set s. py_isspace c)"
proof -
  have "(\<forall>c \<in> set (dropWhile py_isspace s). py_isspace c) \<longleftrightarrow> (\<forall>c \<in> set s. py_isspace c)"
    by (induction s) auto
  then show ?thesis
    by (simp add: py_strip_def dropWhile_isspace_Nil)
qed

text \<open>A result counts when it calls a tool or has text with a non-blank character.\<close>

lemma is_effective_iff:
  "is_effective r \<longleftrightarrow>
     mres_tool_calls r \<noteq> [] \<or> (\<exists>t. mres_text r = Some t \<and> (\<exists>c \<in> set t. \<not> py_isspace c))"
  by (auto simp: is_effective_def Let_def py_strip_empty split: option.splits)

end
