(* ===== verification/Recording.thy ===== *)
theory Recording imports Contracts begin

text \<open>
  \<^verbatim>\<open>recording.py\<close>: the in-memory transcript.  \<open>transcript\<close> is the state of \<^verbatim>\<open>MemoryTranscript\<close>; each
  \<^verbatim>\<open>record_*\<close> method is a function to an outcome, with every exception of the source as a branch
  and the state as it stands when the exception leaves the method.  The asyncio lock makes each
  method atomic, so a concurrent history of calls is a sequence of these functions.
\<close>

section \<open>Payload keys\<close>

text \<open>
  Python's \<^verbatim>\<open>==\<close> on payload keys ignores the order of dictionary entries and does not tell the
  integers 0 and 1, the equal floats and the two booleans apart.  A key is therefore represented
  in a normal form: numbers as rationals, dictionaries sorted by key.
\<close>

datatype pykey =
    KNone
  | KStr string
  | KNum rat
  | KRole role
  | KTuple "pykey list"
  | KDict "(string \<times> pykey) list"

fun opt_key :: "string option \<Rightarrow> pykey" where
  "opt_key None = KNone"
| "opt_key (Some s) = KStr s"

definition bool_key :: "bool \<Rightarrow> pykey" where
  "bool_key b = KNum (if b then 1 else 0)"

fun json_key :: "jvalue \<Rightarrow> pykey" where
  "json_key JNone = KNone"
| "json_key (JStr s) = KStr s"
| "json_key (JInt i) = KNum (of_int i)"
| "json_key (JFloat r) = KNum r"
| "json_key (JBool b) = bool_key b"
| "json_key (JArr xs) = KTuple (map json_key xs)"
| "json_key (JObj kvs) = KDict (sort_key fst (map (\<lambda>kv. (fst kv, json_key (snd kv))) kvs))"

definition call_key :: "tool_call \<Rightarrow> pykey" where
  "call_key c = KTuple [KStr (tc_call_id c), KStr (tc_name c), json_key (JObj (tc_arguments c))]"

definition message_key :: "message \<Rightarrow> pykey" where
  "message_key m =
     KTuple [KRole (m_role m), opt_key (m_content m), KTuple (map call_key (m_tool_calls m)),
             opt_key (m_tool_call_id m), opt_key (m_name m), opt_key (m_reasoning m)]"

definition result_key :: "tool_result \<Rightarrow> pykey" where
  "result_key r =
     KTuple [KStr (tr_call_id r), KStr (tr_name r), KStr (tr_output r), bool_key (tr_is_error r)]"

definition delta_payload :: "string \<Rightarrow> int \<Rightarrow> pykey" where
  "delta_payload text attempt = KTuple [KStr text, KNum (of_int attempt)]"

definition final_payload :: "string option \<Rightarrow> string option \<Rightarrow> tool_call list \<Rightarrow> int \<Rightarrow> pykey" where
  "final_payload text reasoning calls attempt =
     KTuple [opt_key text, opt_key reasoning, KTuple (map call_key calls), KNum (of_int attempt)]"

definition calls_payload :: "tool_call list \<Rightarrow> string option \<Rightarrow> string option \<Rightarrow> pykey" where
  "calls_payload calls text reasoning =
     KTuple [KTuple (map call_key calls), opt_key text, opt_key reasoning]"

definition results_payload :: "tool_result list \<Rightarrow> pykey" where
  "results_payload results = KTuple (map result_key results)"

section \<open>Receipts and committed operations\<close>

datatype any_receipt = OfMessage message_receipt | OfBatch batch_receipt

datatype receipt_ident =
    RI_None
  | RI_Batch string int record_target string "call_record list" "string option" bool
  | RI_Message string string "int option" record_target string

fun receipt_identity :: "any_receipt option \<Rightarrow> receipt_ident" where
  "receipt_identity None = RI_None"
| "receipt_identity (Some (OfBatch r)) =
     RI_Batch (br_run_id r) (br_step_no r) (br_record_target r) (br_logical_op_id r) (br_calls r)
       (br_assistant_message_id r) (br_recording_required r)"
| "receipt_identity (Some (OfMessage r)) =
     RI_Message (rc_message_id r) (rc_run_id r) (rc_step_no r) (rc_record_target r) (rc_logical_op_id r)"

record committed_op =
  co_kind :: logical_op_kind
  co_payload :: pykey
  co_run_id :: "string option"
  co_step_no :: "int option"
  co_record_target :: "record_target option"
  co_logical_op_id :: "string option"
  co_previous_receipt :: "any_receipt option"
  co_message_receipt :: "message_receipt option"
  co_message_receipts :: "message_receipt list"
  co_batch_receipt :: "batch_receipt option"

type_synonym text_key = "string \<times> int \<times> string \<times> int"

record transcript =
  mt_unrecorded_tools :: "string set"
  mt_messages :: "string \<rightharpoonup> message"
  mt_order :: "string \<rightharpoonup> string list"
  mt_ops :: "string \<rightharpoonup> committed_op"
  mt_text_ids :: "text_key \<rightharpoonup> string"
  mt_fail_ops :: "string set"
  mt_version :: int
  mt_run_status :: "string \<rightharpoonup> run_status"
  mt_seq :: int

definition new_transcript :: "string list \<Rightarrow> transcript" where
  "new_transcript unrecorded_tools =
     \<lparr>mt_unrecorded_tools = set unrecorded_tools, mt_messages = Map.empty, mt_order = Map.empty,
      mt_ops = Map.empty, mt_text_ids = Map.empty, mt_fail_ops = {}, mt_version = 0,
      mt_run_status = Map.empty, mt_seq = 0\<rparr>"

section \<open>The private operations\<close>

definition inject_write_failure :: "string \<Rightarrow> transcript \<Rightarrow> transcript" where
  "inject_write_failure op t = t\<lparr>mt_fail_ops := insert op (mt_fail_ops t)\<rparr>"

definition msg_id :: "string \<Rightarrow> string \<Rightarrow> int \<Rightarrow> string" where
  "msg_id prefix run_id n = prefix @ '':'' @ run_id @ '':'' @ int_str n"

definition next_id :: "string \<Rightarrow> string \<Rightarrow> transcript \<Rightarrow> string \<times> transcript" where
  "next_id prefix run_id t =
     (let t = t\<lparr>mt_seq := mt_seq t + 1\<rparr> in (msg_id prefix run_id (mt_seq t), t))"

definition unrecorded :: "tool_call list \<Rightarrow> transcript \<Rightarrow> exn + bool" where
  "unrecorded calls t =
     (if mt_unrecorded_tools t = {} then Inr False
      else let skipped = map (\<lambda>c. tc_name c \<in> mt_unrecorded_tools t) calls in
        if (\<exists>b \<in> set skipped. b) \<and> \<not> (\<forall>b \<in> set skipped. b)
        then Inl (raised RecordingError ''a batch cannot mix recorded and unrecorded tools'')
        else Inr (skipped \<noteq> [] \<and> (\<forall>b \<in> set skipped. b)))"

definition check_fail :: "string \<Rightarrow> transcript \<Rightarrow> (exn, unit, transcript) outcome" where
  "check_fail op t =
     (if op \<in> mt_fail_ops t
      then (Inl (raised RecordingError (''injected write failure for '' @ op)),
            t\<lparr>mt_fail_ops := mt_fail_ops t - {op}\<rparr>)
      else (Inr (), t))"

definition replay :: "string \<Rightarrow> logical_op_kind \<Rightarrow> pykey \<Rightarrow> string \<Rightarrow> int option \<Rightarrow> record_target option \<Rightarrow>
    any_receipt option \<Rightarrow> transcript \<Rightarrow> exn + committed_op" where
  "replay op kind payload run_id step_no target previous t =
     (case mt_ops t op of
        None \<Rightarrow> Inl (raised KeyError op)
      | Some existing \<Rightarrow>
          if co_kind existing \<noteq> kind \<or> co_payload existing \<noteq> payload
          then Inl (raised IdempotencyError (''logical op '' @ op @ '' reused with a different payload''))
          else if co_run_id existing \<noteq> Some run_id \<or> co_step_no existing \<noteq> step_no
                  \<or> co_record_target existing \<noteq> target
          then Inl (raised IdempotencyError (''logical op '' @ op @ '' reused with a different identity''))
          else if previous \<noteq> None
                  \<and> receipt_identity (co_previous_receipt existing) \<noteq> receipt_identity previous
          then Inl (raised ReceiptMismatchError ''previous_receipt does not match the committed operation'')
          else Inr existing)"

definition store_op :: "string \<Rightarrow> logical_op_kind \<Rightarrow> pykey \<Rightarrow> string \<Rightarrow> int option \<Rightarrow> record_target option \<Rightarrow>
    any_receipt option \<Rightarrow> message_receipt option \<Rightarrow> message_receipt list \<Rightarrow> batch_receipt option \<Rightarrow>
    transcript \<Rightarrow> transcript" where
  "store_op op kind payload run_id step_no target previous receipt receipts batch t =
     (let rs = (if receipts \<noteq> [] then receipts
                else case receipt of None \<Rightarrow> [] | Some r \<Rightarrow> [r]);
          committed =
            \<lparr>co_kind = kind, co_payload = payload, co_run_id = Some run_id, co_step_no = step_no,
             co_record_target = target, co_logical_op_id = Some op, co_previous_receipt = previous,
             co_message_receipt = (case rs of [] \<Rightarrow> receipt | r # _ \<Rightarrow> Some r),
             co_message_receipts = rs, co_batch_receipt = batch\<rparr>
      in t\<lparr>mt_ops := (mt_ops t)(op \<mapsto> committed)\<rparr>)"

definition order_of :: "transcript \<Rightarrow> string \<Rightarrow> string list" where
  "order_of t v = (case mt_order t v of None \<Rightarrow> [] | Some ids \<Rightarrow> ids)"

text \<open>\<^verbatim>\<open>_append\<close> and \<^verbatim>\<open>_replace\<close> after their assertion that the message has an id.\<close>

definition put_new :: "record_target \<Rightarrow> string \<Rightarrow> message \<Rightarrow> transcript \<Rightarrow> transcript" where
  "put_new target i m t =
     t\<lparr>mt_messages := (mt_messages t)(i \<mapsto> m),
       mt_order := (mt_order t)(rt_value target \<mapsto> order_of t (rt_value target) @ [i]),
       mt_version := mt_version t + 1\<rparr>"

definition put_old :: "string \<Rightarrow> message \<Rightarrow> transcript \<Rightarrow> transcript" where
  "put_old i m t = t\<lparr>mt_messages := (mt_messages t)(i \<mapsto> m), mt_version := mt_version t + 1\<rparr>"

definition append_message :: "record_target \<Rightarrow> message \<Rightarrow> transcript \<Rightarrow> (exn, unit, transcript) outcome" where
  "append_message target m t =
     (case m_message_id m of
        None \<Rightarrow> (Inl (raised AssertionError ''''), t)
      | Some i \<Rightarrow> (Inr (), put_new target i m t))"

definition replace_message :: "message \<Rightarrow> transcript \<Rightarrow> (exn, unit, transcript) outcome" where
  "replace_message m t =
     (case m_message_id m of
        None \<Rightarrow> (Inl (raised AssertionError ''''), t)
      | Some i \<Rightarrow>
          if mt_messages t i = None then (Inl (raised MessageNotFoundError i), t)
          else (Inr (), put_old i m t))"

definition run_status_of :: "string \<Rightarrow> transcript \<Rightarrow> run_status option" where
  "run_status_of run_id t = mt_run_status t run_id"

text \<open>\<^verbatim>\<open>snapshot\<close>: a listed id without a message would be a \<^verbatim>\<open>KeyError\<close>.\<close>

definition snapshot_version :: "int \<Rightarrow> record_target \<Rightarrow> string" where
  "snapshot_version n target = ''v'' @ int_str n @ '':'' @ rt_value target"

definition snapshot :: "record_target \<Rightarrow> transcript \<Rightarrow> exn + transcript_snapshot" where
  "snapshot target t =
     (case map_result (\<lambda>i. case mt_messages t i of None \<Rightarrow> Inl (raised KeyError i) | Some m \<Rightarrow> Inr m)
             (order_of t (rt_value target)) of
        Inl e \<Rightarrow> Inl e
      | Inr ms \<Rightarrow>
          Inr \<lparr>tsn_version = snapshot_version (mt_version t) target, tsn_record_target = target,
               tsn_messages = ms\<rparr>)"

text \<open>The receipt a repeated operation returns: the committed one, marked as not created.\<close>

definition again_message :: "exn + committed_op \<Rightarrow> transcript \<Rightarrow> (exn, message_receipt, transcript) outcome" where
  "again_message r t =
     (case r of
        Inl e \<Rightarrow> (Inl e, t)
      | Inr existing \<Rightarrow>
          (case co_message_receipt existing of
             None \<Rightarrow> (Inl (raised AssertionError ''''), t)
           | Some rc \<Rightarrow> (Inr (rc\<lparr>rc_created := False\<rparr>), t)))"

section \<open>The recording operations\<close>

definition message_receipt_of :: "string \<Rightarrow> string \<Rightarrow> int option \<Rightarrow> record_target \<Rightarrow> string \<Rightarrow> bool \<Rightarrow> message_receipt" where
  "message_receipt_of message_id run_id step_no target op created =
     \<lparr>rc_message_id = message_id, rc_run_id = run_id, rc_step_no = step_no, rc_record_target = target,
      rc_logical_op_id = op, rc_created = created\<rparr>"

definition record_input :: "string \<Rightarrow> record_target \<Rightarrow> message \<Rightarrow> string \<Rightarrow> transcript \<Rightarrow>
    (exn, message_receipt, transcript) outcome" where
  "record_input run_id target message op t =
     andthen (check_fail op t) (\<lambda>_ t.
       if mt_ops t op \<noteq> None
       then again_message (replay op INPUT (message_key message) run_id None (Some target) None t) t
       else
         let (message_id, t) = next_id ''msg'' run_id t;
             stored = message\<lparr>m_message_id := Some message_id\<rparr>
         in andthen (append_message target stored t) (\<lambda>_ t.
           let receipt = message_receipt_of message_id run_id None target op True
           in (Inr receipt,
               store_op op INPUT (message_key message) run_id None (Some target) None (Some receipt) [] None t)))"

text \<open>
  The three text operations look up the message of (run, step, target, attempt) in the same way:
  without one they create an assistant message under a new id, otherwise they overwrite the
  stored message.  \<open>fresh\<close> is the new message before it has an id, \<open>revise\<close> the overwrite.
\<close>

definition upsert_text :: "text_key \<Rightarrow> record_target \<Rightarrow> message \<Rightarrow> (message \<Rightarrow> message) \<Rightarrow> transcript \<Rightarrow>
    (exn, string \<times> bool, transcript) outcome" where
  "upsert_text key target fresh revise t =
     (case mt_text_ids t key of
        None \<Rightarrow>
          let (message_id, t) = next_id ''msg'' (fst key) t;
              t = t\<lparr>mt_text_ids := (mt_text_ids t)(key \<mapsto> message_id)\<rparr>
          in andthen (append_message target (fresh\<lparr>m_message_id := Some message_id\<rparr>) t)
               (\<lambda>_ t. (Inr (message_id, True), t))
      | Some message_id \<Rightarrow>
          (case mt_messages t message_id of
             None \<Rightarrow> (Inl (raised MessageNotFoundError message_id), t)
           | Some current \<Rightarrow>
               andthen (replace_message (revise current) t) (\<lambda>_ t. (Inr (message_id, False), t))))"

definition append_content :: "string \<Rightarrow> message \<Rightarrow> message" where
  "append_content text current =
     current\<lparr>m_content := Some ((case m_content current of None \<Rightarrow> [] | Some c \<Rightarrow> c) @ text)\<rparr>"

definition record_text_delta :: "string \<Rightarrow> int \<Rightarrow> record_target \<Rightarrow> string \<Rightarrow> string \<Rightarrow> int \<Rightarrow>
    message_receipt option \<Rightarrow> transcript \<Rightarrow> (exn, message_receipt, transcript) outcome" where
  "record_text_delta run_id step_no target text op attempt previous t =
     andthen (check_fail op t) (\<lambda>_ t.
       let payload = delta_payload text attempt; prev = map_option OfMessage previous in
       if mt_ops t op \<noteq> None
       then again_message (replay op TEXT_DELTA payload run_id (Some step_no) (Some target) prev t) t
       else
         andthen
           (case previous of
              None \<Rightarrow> (Inr (), t)
            | Some p \<Rightarrow>
                if mt_messages t (rc_message_id p) = None
                then (Inl (raised MessageNotFoundError (rc_message_id p)), t) else (Inr (), t))
           (\<lambda>_ t.
         andthen
           (upsert_text (run_id, step_no, rt_value target, attempt) target
              (plain_message ASSISTANT (Some text)) (append_content text) t)
           (\<lambda>(message_id, created) t.
             let receipt = message_receipt_of message_id run_id (Some step_no) target op created
             in (Inr receipt,
                 store_op op TEXT_DELTA payload run_id (Some step_no) (Some target) prev (Some receipt) [] None t))))"

definition final_content :: "string option \<Rightarrow> string option \<Rightarrow> tool_call list \<Rightarrow> message \<Rightarrow> message" where
  "final_content text reasoning calls current =
     current\<lparr>m_content := (if text \<noteq> None then text else m_content current),
             m_reasoning := (if reasoning \<noteq> None then reasoning else m_reasoning current),
             m_tool_calls := (if calls \<noteq> [] then calls else m_tool_calls current)\<rparr>"

definition assistant_message :: "string option \<Rightarrow> string option \<Rightarrow> tool_call list \<Rightarrow> message" where
  "assistant_message text reasoning calls =
     (plain_message ASSISTANT text)\<lparr>m_reasoning := reasoning, m_tool_calls := calls\<rparr>"

definition record_text_final :: "string \<Rightarrow> int \<Rightarrow> record_target \<Rightarrow> string option \<Rightarrow> string option \<Rightarrow>
    tool_call list \<Rightarrow> string \<Rightarrow> int \<Rightarrow> message_receipt option \<Rightarrow> transcript \<Rightarrow>
    (exn, message_receipt, transcript) outcome" where
  "record_text_final run_id step_no target text reasoning calls op attempt previous t =
     andthen (check_fail op t) (\<lambda>_ t.
       let payload = final_payload text reasoning calls attempt; prev = map_option OfMessage previous in
       if mt_ops t op \<noteq> None
       then again_message (replay op TEXT_FINAL payload run_id (Some step_no) (Some target) prev t) t
       else
         andthen
           (case previous of
              None \<Rightarrow> (Inr (), t)
            | Some p \<Rightarrow>
                if mt_ops t (rc_logical_op_id p) = None
                then (Inl (raised ReceiptMismatchError ''previous_receipt is not a committed operation''), t)
                else if mt_messages t (rc_message_id p) = None
                then (Inl (raised MessageNotFoundError (rc_message_id p)), t) else (Inr (), t))
           (\<lambda>_ t.
         andthen
           (upsert_text (run_id, step_no, rt_value target, attempt) target
              (assistant_message text reasoning calls) (final_content text reasoning calls) t)
           (\<lambda>(message_id, created) t.
             let receipt = message_receipt_of message_id run_id (Some step_no) target op created
             in (Inr receipt,
                 store_op op TEXT_FINAL payload run_id (Some step_no) (Some target) prev (Some receipt) [] None t))))"

definition calls_content :: "string option \<Rightarrow> string option \<Rightarrow> tool_call list \<Rightarrow> message \<Rightarrow> message" where
  "calls_content text reasoning calls current =
     current\<lparr>m_content := (if text \<noteq> None then text else m_content current),
             m_reasoning := (if reasoning \<noteq> None then reasoning else m_reasoning current),
             m_tool_calls := calls\<rparr>"

definition again_batch :: "exn + committed_op \<Rightarrow> transcript \<Rightarrow> (exn, batch_receipt, transcript) outcome" where
  "again_batch r t =
     (case r of
        Inl e \<Rightarrow> (Inl e, t)
      | Inr existing \<Rightarrow>
          (case co_batch_receipt existing of
             None \<Rightarrow> (Inl (raised AssertionError ''''), t)
           | Some rc \<Rightarrow> (Inr (rc\<lparr>br_created := False\<rparr>), t)))"

definition unrecorded_receipt :: "string \<Rightarrow> int \<Rightarrow> record_target \<Rightarrow> string \<Rightarrow> batch_receipt" where
  "unrecorded_receipt run_id step_no target op =
     \<lparr>br_run_id = run_id, br_step_no = step_no, br_record_target = target, br_logical_op_id = op,
      br_calls = [], br_assistant_message_id = None, br_recording_required = False, br_created = True\<rparr>"

definition recorded_receipt :: "string \<Rightarrow> int \<Rightarrow> record_target \<Rightarrow> string \<Rightarrow> tool_call list \<Rightarrow> string \<Rightarrow> batch_receipt" where
  "recorded_receipt run_id step_no target op calls message_id =
     \<lparr>br_run_id = run_id, br_step_no = step_no, br_record_target = target, br_logical_op_id = op,
      br_calls = map (\<lambda>c. \<lparr>cr_call_id = tc_call_id c, cr_name = tc_name c, cr_message_id = message_id\<rparr>) calls,
      br_assistant_message_id = Some message_id, br_recording_required = True, br_created = True\<rparr>"

definition record_tool_calls :: "string \<Rightarrow> int \<Rightarrow> record_target \<Rightarrow> tool_call list \<Rightarrow> string option \<Rightarrow>
    string option \<Rightarrow> string \<Rightarrow> batch_receipt option \<Rightarrow> int \<Rightarrow> transcript \<Rightarrow>
    (exn, batch_receipt, transcript) outcome" where
  "record_tool_calls run_id step_no target calls text reasoning op previous attempt t =
     andthen (check_fail op t) (\<lambda>_ t.
       let payload = calls_payload calls text reasoning; prev = map_option OfBatch previous in
       if mt_ops t op \<noteq> None
       then again_batch (replay op TOOL_CALLS payload run_id (Some step_no) (Some target) prev t) t
       else
         andthen
           (case previous of
              None \<Rightarrow> (Inr (), t)
            | Some p \<Rightarrow>
                (case mt_ops t (br_logical_op_id p) of
                   None \<Rightarrow> (Inl (raised ReceiptMismatchError ''previous_receipt does not match a committed batch''), t)
                 | Some committed \<Rightarrow>
                     if receipt_identity (map_option OfBatch (co_batch_receipt committed))
                          \<noteq> receipt_identity (Some (OfBatch p))
                     then (Inl (raised ReceiptMismatchError ''previous_receipt does not match a committed batch''), t)
                     else (Inr (), t)))
           (\<lambda>_ t.
         (case unrecorded calls t of
            Inl e \<Rightarrow> (Inl e, t)
          | Inr skip \<Rightarrow>
              if skip
              then
                let receipt = unrecorded_receipt run_id step_no target op
                in (Inr receipt,
                    store_op op TOOL_CALLS payload run_id (Some step_no) (Some target) prev None [] (Some receipt) t)
              else
                andthen
                  (upsert_text (run_id, step_no, rt_value target, attempt) target
                     (assistant_message text reasoning calls) (calls_content text reasoning calls) t)
                  (\<lambda>(message_id, _) t.
                    let receipt = recorded_receipt run_id step_no target op calls message_id
                    in (Inr receipt,
                        store_op op TOOL_CALLS payload run_id (Some step_no) (Some target) prev None []
                          (Some receipt) t)))))"

text \<open>The loop that prepares one tool message and one receipt per result.\<close>

definition tool_message :: "tool_result \<Rightarrow> string \<Rightarrow> message" where
  "tool_message r message_id =
     \<lparr>m_role = TOOL, m_content = Some (tr_output r), m_tool_calls = [], m_tool_call_id = Some (tr_call_id r),
      m_name = Some (tr_name r), m_reasoning = None, m_message_id = Some message_id\<rparr>"

fun pair_results :: "string \<Rightarrow> int \<Rightarrow> record_target \<Rightarrow> string \<Rightarrow> (string \<rightharpoonup> call_record) \<Rightarrow> tool_result list \<Rightarrow>
    transcript \<Rightarrow> (exn, (message \<times> message_receipt) list, transcript) outcome" where
  "pair_results run_id step_no target op known [] t = (Inr [], t)"
| "pair_results run_id step_no target op known (r # rs) t =
     (case known (tr_call_id r) of
        None \<Rightarrow>
          (Inl (raised ReceiptMismatchError (''result '' @ tr_call_id r @ '' is not in the committed batch'')), t)
      | Some record \<Rightarrow>
          if mt_messages t (cr_message_id record) = None
          then (Inl (raised MessageNotFoundError (cr_message_id record)), t)
          else
            let (message_id, t) = next_id ''msg'' run_id t in
            andthen (pair_results run_id step_no target op known rs t) (\<lambda>pairs t.
              (Inr ((tool_message r message_id,
                     message_receipt_of message_id run_id (Some step_no) target op True) # pairs), t)))"

fun append_all :: "record_target \<Rightarrow> message list \<Rightarrow> transcript \<Rightarrow> (exn, unit, transcript) outcome" where
  "append_all target [] t = (Inr (), t)"
| "append_all target (m # ms) t = andthen (append_message target m t) (\<lambda>_ t. append_all target ms t)"

definition known_calls :: "batch_receipt \<Rightarrow> string \<rightharpoonup> call_record" where
  "known_calls stored = map_of (rev (map (\<lambda>c. (cr_call_id c, c)) (br_calls stored)))"

definition record_tool_results :: "string \<Rightarrow> int \<Rightarrow> record_target \<Rightarrow> tool_result list \<Rightarrow> string \<Rightarrow>
    batch_receipt \<Rightarrow> transcript \<Rightarrow> (exn, message_receipt list, transcript) outcome" where
  "record_tool_results run_id step_no target results op previous t =
     andthen (check_fail op t) (\<lambda>_ t.
       let payload = results_payload results; prev = Some (OfBatch previous) in
       if mt_ops t op \<noteq> None
       then (case replay op TOOL_RESULTS payload run_id (Some step_no) (Some target) prev t of
               Inl e \<Rightarrow> (Inl e, t)
             | Inr existing \<Rightarrow> (Inr (map (\<lambda>rc. rc\<lparr>rc_created := False\<rparr>) (co_message_receipts existing)), t))
       else
         (case Option.bind (mt_ops t (br_logical_op_id previous)) co_batch_receipt of
            None \<Rightarrow> (Inl (raised ReceiptMismatchError ''previous_receipt is not a committed tool-call batch''), t)
          | Some stored \<Rightarrow>
              if receipt_identity (Some (OfBatch stored)) \<noteq> receipt_identity (Some (OfBatch previous))
              then (Inl (raised ReceiptMismatchError ''previous_receipt does not match committed batch identity''), t)
              else if br_run_id stored \<noteq> run_id \<or> br_step_no stored \<noteq> step_no \<or> br_record_target stored \<noteq> target
              then (Inl (raised ReceiptMismatchError
                          ''previous_receipt is bound to a different run, step, or target''), t)
              else if \<not> br_recording_required stored then (Inr [], t)
              else
                andthen (pair_results run_id step_no target op (known_calls stored) results t) (\<lambda>pairs t.
                andthen (append_all target (map fst pairs) t) (\<lambda>_ t.
                  (Inr (map snd pairs),
                   store_op op TOOL_RESULTS payload run_id (Some step_no) (Some target) prev None
                     (map snd pairs) None t)))))"

definition finalize_op :: "string \<Rightarrow> run_status \<Rightarrow> string" where
  "finalize_op run_id status = run_id @ '':finalize:'' @ run_status_value status"

definition finalize_run :: "string \<Rightarrow> run_status \<Rightarrow> transcript \<Rightarrow> (exn, unit, transcript) outcome" where
  "finalize_run run_id status t =
     (let op = finalize_op run_id status; payload = KStr (run_status_value status) in
      andthen (check_fail op t) (\<lambda>_ t.
        if mt_ops t op \<noteq> None
        then (case replay op RUN_FINAL payload run_id None None None t of
                Inl e \<Rightarrow> (Inl e, t) | Inr _ \<Rightarrow> (Inr (), t))
        else
          let t = t\<lparr>mt_run_status := (mt_run_status t)(run_id \<mapsto> status)\<rparr>
          in (Inr (), store_op op RUN_FINAL payload run_id None None None None [] None t)))"

text \<open>The public mutating methods as one type of commands.\<close>

datatype transcript_op =
    OpInput string record_target message string
  | OpTextDelta string int record_target string string int "message_receipt option"
  | OpTextFinal string int record_target "string option" "string option" "tool_call list" string int
      "message_receipt option"
  | OpToolCalls string int record_target "tool_call list" "string option" "string option" string
      "batch_receipt option" int
  | OpToolResults string int record_target "tool_result list" string batch_receipt
  | OpFinalize string run_status
  | OpInjectFailure string

datatype op_result =
    ReMessage message_receipt | ReBatch batch_receipt | ReResults "message_receipt list" | ReUnit

definition lift_result :: "('a \<Rightarrow> op_result) \<Rightarrow> (exn, 'a, transcript) outcome \<Rightarrow>
    (exn, op_result, transcript) outcome" where
  "lift_result f r = (case r of (Inl e, t) \<Rightarrow> (Inl e, t) | (Inr a, t) \<Rightarrow> (Inr (f a), t))"

fun apply_op :: "transcript_op \<Rightarrow> transcript \<Rightarrow> (exn, op_result, transcript) outcome" where
  "apply_op (OpInput run tgt m op) t = lift_result ReMessage (record_input run tgt m op t)"
| "apply_op (OpTextDelta run step tgt text op att prev) t =
     lift_result ReMessage (record_text_delta run step tgt text op att prev t)"
| "apply_op (OpTextFinal run step tgt text reas calls op att prev) t =
     lift_result ReMessage (record_text_final run step tgt text reas calls op att prev t)"
| "apply_op (OpToolCalls run step tgt calls text reas op prev att) t =
     lift_result ReBatch (record_tool_calls run step tgt calls text reas op prev att t)"
| "apply_op (OpToolResults run step tgt results op prev) t =
     lift_result ReResults (record_tool_results run step tgt results op prev t)"
| "apply_op (OpFinalize run status) t = lift_result (\<lambda>_. ReUnit) (finalize_run run status t)"
| "apply_op (OpInjectFailure op) t = (Inr ReUnit, inject_write_failure op t)"

text \<open>A history of calls; a call that raises leaves its state to the next one.\<close>

fun run_ops :: "transcript_op list \<Rightarrow> transcript \<Rightarrow> transcript" where
  "run_ops [] t = t"
| "run_ops (c # cs) t = run_ops cs (snd (apply_op c t))"

end
