(* ===== verification/Recording_Steps.thy ===== *)
theory Recording_Steps imports Recording begin

text \<open>
  Every public method of the transcript as one step of a relation: it faults without touching the
  committed facts, replays a committed operation, or commits one operation.  The invariants of
  the transcript are proved on this relation, one rule at a time.
\<close>

section \<open>Effects of the private operations\<close>

text \<open>The states differ in the pending injected failures and in the id counter only.\<close>

definition faulted :: "transcript \<Rightarrow> transcript \<Rightarrow> bool" where
  "faulted t t' \<longleftrightarrow>
     t' = t\<lparr>mt_fail_ops := mt_fail_ops t', mt_seq := mt_seq t'\<rparr> \<and>
     mt_fail_ops t' \<subseteq> mt_fail_ops t \<and> mt_seq t \<le> mt_seq t'"

lemma faulted_refl [simp]: "faulted t t"
  by (simp add: faulted_def)

lemma faulted_fields:
  assumes "faulted t t'"
  shows "mt_messages t' = mt_messages t" "mt_order t' = mt_order t" "mt_ops t' = mt_ops t"
    "mt_text_ids t' = mt_text_ids t" "mt_version t' = mt_version t"
    "mt_run_status t' = mt_run_status t" "mt_unrecorded_tools t' = mt_unrecorded_tools t"
    "mt_seq t \<le> mt_seq t'" "mt_fail_ops t' \<subseteq> mt_fail_ops t" "order_of t' v = order_of t v"
proof -
  from assms have eq: "t' = t\<lparr>mt_fail_ops := mt_fail_ops t', mt_seq := mt_seq t'\<rparr>"
    by (simp add: faulted_def)
  show "mt_messages t' = mt_messages t" "mt_order t' = mt_order t" "mt_ops t' = mt_ops t"
    "mt_text_ids t' = mt_text_ids t" "mt_version t' = mt_version t"
    "mt_run_status t' = mt_run_status t" "mt_unrecorded_tools t' = mt_unrecorded_tools t"
    "order_of t' v = order_of t v"
    by (subst eq, simp add: order_of_def)+
  show "mt_seq t \<le> mt_seq t'" "mt_fail_ops t' \<subseteq> mt_fail_ops t"
    using assms by (simp_all add: faulted_def)
qed

lemma check_fail_Inl:
  "check_fail op t = (Inl e, t') \<Longrightarrow>
   isinstance_exn e RecordingError \<and> faulted t t' \<and> op \<in> mt_fail_ops t"
  by (auto simp: check_fail_def faulted_def split: if_splits)

lemma check_fail_Inr: "check_fail op t = (Inr u, t') \<longleftrightarrow> t' = t \<and> op \<notin> mt_fail_ops t"
  by (auto simp: check_fail_def)

lemma replay_errors:
  "replay op kind payload run step tgt prev t = Inl e \<Longrightarrow> mt_ops t op = Some c \<Longrightarrow>
   isinstance_exn e RecordingError"
  by (auto simp: replay_def split: option.splits if_splits)

lemma replay_Inr:
  "replay op kind payload run step tgt prev t = Inr c \<longleftrightarrow>
   mt_ops t op = Some c \<and> co_kind c = kind \<and> co_payload c = payload \<and> co_run_id c = Some run \<and>
   co_step_no c = step \<and> co_record_target c = tgt \<and>
   (prev = None \<or> receipt_identity (co_previous_receipt c) = receipt_identity prev)"
  by (auto simp: replay_def split: option.splits)

lemma put_new_simps [simp]:
  "mt_messages (put_new tgt i m t) = (mt_messages t)(i \<mapsto> m)"
  "order_of (put_new tgt i m t) v = (if v = rt_value tgt then order_of t v @ [i] else order_of t v)"
  "mt_ops (put_new tgt i m t) = mt_ops t"
  "mt_text_ids (put_new tgt i m t) = mt_text_ids t"
  "mt_seq (put_new tgt i m t) = mt_seq t"
  "mt_version (put_new tgt i m t) = mt_version t + 1"
  "mt_run_status (put_new tgt i m t) = mt_run_status t"
  "mt_fail_ops (put_new tgt i m t) = mt_fail_ops t"
  "mt_unrecorded_tools (put_new tgt i m t) = mt_unrecorded_tools t"
  by (simp_all add: put_new_def order_of_def)

lemma put_old_simps [simp]:
  "mt_messages (put_old i m t) = (mt_messages t)(i \<mapsto> m)"
  "order_of (put_old i m t) v = order_of t v"
  "mt_ops (put_old i m t) = mt_ops t"
  "mt_text_ids (put_old i m t) = mt_text_ids t"
  "mt_seq (put_old i m t) = mt_seq t"
  "mt_version (put_old i m t) = mt_version t + 1"
  "mt_run_status (put_old i m t) = mt_run_status t"
  "mt_fail_ops (put_old i m t) = mt_fail_ops t"
  "mt_unrecorded_tools (put_old i m t) = mt_unrecorded_tools t"
  by (simp_all add: put_old_def order_of_def)

lemma store_op_simps [simp]:
  "mt_messages (store_op op k pl run st tg prev rc rcs b t) = mt_messages t"
  "order_of (store_op op k pl run st tg prev rc rcs b t) v = order_of t v"
  "mt_text_ids (store_op op k pl run st tg prev rc rcs b t) = mt_text_ids t"
  "mt_seq (store_op op k pl run st tg prev rc rcs b t) = mt_seq t"
  "mt_version (store_op op k pl run st tg prev rc rcs b t) = mt_version t"
  "mt_run_status (store_op op k pl run st tg prev rc rcs b t) = mt_run_status t"
  "mt_fail_ops (store_op op k pl run st tg prev rc rcs b t) = mt_fail_ops t"
  "mt_unrecorded_tools (store_op op k pl run st tg prev rc rcs b t) = mt_unrecorded_tools t"
  by (simp_all add: store_op_def Let_def order_of_def)

definition op_entry :: "string \<Rightarrow> logical_op_kind \<Rightarrow> pykey \<Rightarrow> string \<Rightarrow> int option \<Rightarrow> record_target option \<Rightarrow>
    any_receipt option \<Rightarrow> message_receipt list \<Rightarrow> batch_receipt option \<Rightarrow> committed_op" where
  "op_entry op kind payload run step tgt prev rs batch =
     \<lparr>co_kind = kind, co_payload = payload, co_run_id = Some run, co_step_no = step,
      co_record_target = tgt, co_logical_op_id = Some op, co_previous_receipt = prev,
      co_message_receipt = (case rs of [] \<Rightarrow> None | r # _ \<Rightarrow> Some r), co_message_receipts = rs,
      co_batch_receipt = batch\<rparr>"

lemma op_entry_simps [simp]:
  "co_kind (op_entry op k pl run st tg prev rs b) = k"
  "co_payload (op_entry op k pl run st tg prev rs b) = pl"
  "co_run_id (op_entry op k pl run st tg prev rs b) = Some run"
  "co_step_no (op_entry op k pl run st tg prev rs b) = st"
  "co_record_target (op_entry op k pl run st tg prev rs b) = tg"
  "co_logical_op_id (op_entry op k pl run st tg prev rs b) = Some op"
  "co_previous_receipt (op_entry op k pl run st tg prev rs b) = prev"
  "co_message_receipt (op_entry op k pl run st tg prev rs b) = (case rs of [] \<Rightarrow> None | r # _ \<Rightarrow> Some r)"
  "co_message_receipts (op_entry op k pl run st tg prev rs b) = rs"
  "co_batch_receipt (op_entry op k pl run st tg prev rs b) = b"
  by (simp_all add: op_entry_def)

lemma store_op_ops [simp]:
  "mt_ops (store_op op k pl run st tg prev rc rcs b t) =
   (mt_ops t)(op \<mapsto> op_entry op k pl run st tg prev
      (if rcs \<noteq> [] then rcs else case rc of None \<Rightarrow> [] | Some r \<Rightarrow> [r]) b)"
  by (auto simp: store_op_def Let_def op_entry_def split: option.splits list.splits)

text \<open>An id-keeping revision of an assistant message.\<close>

definition keeps_identity :: "(message \<Rightarrow> message) \<Rightarrow> bool" where
  "keeps_identity f \<longleftrightarrow> (\<forall>m. m_message_id (f m) = m_message_id m \<and> m_role (f m) = m_role m)"

lemma keeps_identity_revisions [simp]:
  "keeps_identity (append_content text)" "keeps_identity (final_content c r ts)"
  "keeps_identity (calls_content c r ts)"
  by (simp_all add: keeps_identity_def append_content_def final_content_def calls_content_def)

lemma upsert_text_Inl: "upsert_text key tgt fresh revise t = (Inl e, t') \<Longrightarrow> t' = t"
  by (auto simp: upsert_text_def append_message_def replace_message_def next_id_def Let_def
      split: option.splits if_splits)

definition text_created :: "text_key \<Rightarrow> record_target \<Rightarrow> message \<Rightarrow> string \<Rightarrow> transcript \<Rightarrow> transcript" where
  "text_created key tgt fresh i t =
     put_new tgt i (fresh\<lparr>m_message_id := Some i\<rparr>)
       (t\<lparr>mt_seq := mt_seq t + 1, mt_text_ids := (mt_text_ids t)(key \<mapsto> i)\<rparr>)"

lemma upsert_text_Inr:
  assumes "upsert_text key tgt fresh revise t = (Inr (i, created), t')"
  obtains (create) "mt_text_ids t key = None" "created" "i = msg_id ''msg'' (fst key) (mt_seq t + 1)"
      "t' = text_created key tgt fresh i t"
    | (revise) current j where "mt_text_ids t key = Some i" "\<not> created" "mt_messages t i = Some current"
      "m_message_id (revise current) = Some j" "mt_messages t j \<noteq> None" "t' = put_old j (revise current) t"
  using assms
  by (auto simp: upsert_text_def append_message_def replace_message_def next_id_def Let_def text_created_def
      split: option.splits if_splits)

definition fresh_ids :: "string \<Rightarrow> int \<Rightarrow> nat \<Rightarrow> string list" where
  "fresh_ids run n k = map (\<lambda>j. msg_id ''msg'' run (n + 1 + int j)) [0..<k]"

lemma fresh_ids_simps [simp]:
  "fresh_ids run n 0 = []"
  "fresh_ids run n (Suc k) = msg_id ''msg'' run (n + 1) # fresh_ids run (n + 1) k"
  by (simp_all add: fresh_ids_def upt_conv_Cons map_Suc_upt [symmetric] add.assoc del: upt_Suc)

lemma length_fresh_ids [simp]: "length (fresh_ids run n k) = k"
  by (simp add: fresh_ids_def)

lemma pair_results_Inl:
  "pair_results run step tgt op known rs t = (Inl e, t') \<Longrightarrow>
   isinstance_exn e RecordingError \<and> faulted t t'"
proof (induction rs arbitrary: t)
  case (Cons r rs)
  have "faulted t t'" if "faulted (t\<lparr>mt_seq := mt_seq t + 1\<rparr>) t'"
    using that by (auto simp: faulted_def)
  then show ?case
    using Cons by (auto simp: next_id_def Let_def split: option.splits if_splits elim!: andthen_InlE)
qed simp

lemma pair_results_Inr:
  "pair_results run step tgt op known rs t = (Inr pairs, t') \<Longrightarrow>
   t' = t\<lparr>mt_seq := mt_seq t + int (length rs)\<rparr> \<and>
   pairs = map2 (\<lambda>r i. (tool_message r i, message_receipt_of i run (Some step) tgt op True)) rs
             (fresh_ids run (mt_seq t) (length rs)) \<and>
   (\<forall>r \<in> set rs. \<exists>c. known (tr_call_id r) = Some c \<and> mt_messages t (cr_message_id c) \<noteq> None)"
proof (induction rs arbitrary: t t' pairs)
  case (Cons r rs)
  from Cons.prems obtain c qs where c: "known (tr_call_id r) = Some c" "mt_messages t (cr_message_id c) \<noteq> None"
    and rest: "pair_results run step tgt op known rs (t\<lparr>mt_seq := mt_seq t + 1\<rparr>) = (Inr qs, t')"
    and pairs: "pairs = (tool_message r (msg_id ''msg'' run (mt_seq t + 1)),
      message_receipt_of (msg_id ''msg'' run (mt_seq t + 1)) run (Some step) tgt op True) # qs"
    by (auto simp: next_id_def Let_def split: option.splits if_splits elim!: andthen_InrE)
  show ?case
    using Cons.IH [OF rest] c pairs by auto
qed simp

lemma tool_message_id [simp]: "m_message_id (tool_message r i) = Some i" "m_role (tool_message r i) = TOOL"
  by (simp_all add: tool_message_def)

definition put_all :: "record_target \<Rightarrow> (string \<times> message) list \<Rightarrow> transcript \<Rightarrow> transcript" where
  "put_all tgt ims = fold (\<lambda>(i, m). put_new tgt i m) ims"

lemma put_all_simps [simp]:
  "put_all tgt [] t = t" "put_all tgt ((i, m) # ims) t = put_all tgt ims (put_new tgt i m t)"
  by (simp_all add: put_all_def)

lemma append_all_tool_messages:
  "length is = length rs \<Longrightarrow>
   append_all tgt (map2 tool_message rs is) t = (Inr (), put_all tgt (zip is (map2 tool_message rs is)) t)"
proof (induction "is" rs arbitrary: t rule: list_induct2)
  case (Cons i "is" r rs)
  then show ?case by (simp add: append_message_def)
qed simp

section \<open>The step relation\<close>

inductive transcript_step :: "transcript \<Rightarrow> transcript \<Rightarrow> bool" where
  step_fault: "faulted t t' \<Longrightarrow> transcript_step t t'"
| step_inject: "transcript_step t (inject_write_failure op t)"
| step_input:
    "mt_ops t op = None \<Longrightarrow> i = msg_id ''msg'' run (mt_seq t + 1) \<Longrightarrow>
     transcript_step t
       (store_op op INPUT payload run None (Some tgt) None
          (Some (message_receipt_of i run None tgt op True)) [] None
          (put_new tgt i (m\<lparr>m_message_id := Some i\<rparr>) (t\<lparr>mt_seq := mt_seq t + 1\<rparr>)))"
| step_text:
    "mt_ops t op = None \<Longrightarrow> kind = TEXT_DELTA \<or> kind = TEXT_FINAL \<Longrightarrow>
     upsert_text (run, step, rt_value tgt, attempt) tgt fresh revise t = (Inr (i, created), t') \<Longrightarrow>
     m_role fresh = ASSISTANT \<Longrightarrow> keeps_identity revise \<Longrightarrow>
     transcript_step t
       (store_op op kind payload run (Some step) (Some tgt) prev
          (Some (message_receipt_of i run (Some step) tgt op created)) [] None t')"
| step_calls:
    "mt_ops t op = None \<Longrightarrow>
     upsert_text (run, step, rt_value tgt, attempt) tgt fresh revise t = (Inr (i, created), t') \<Longrightarrow>
     m_role fresh = ASSISTANT \<Longrightarrow> keeps_identity revise \<Longrightarrow>
     transcript_step t
       (store_op op TOOL_CALLS payload run (Some step) (Some tgt) prev None []
          (Some (recorded_receipt run step tgt op calls i)) t')"
| step_unrecorded:
    "mt_ops t op = None \<Longrightarrow>
     transcript_step t
       (store_op op TOOL_CALLS payload run (Some step) (Some tgt) prev None []
          (Some (unrecorded_receipt run step tgt op)) t)"
| step_results:
    "mt_ops t op = None \<Longrightarrow> is = fresh_ids run (mt_seq t) (length rs) \<Longrightarrow>
     transcript_step t
       (store_op op TOOL_RESULTS payload run (Some step) (Some tgt) prev None
          (map (\<lambda>i. message_receipt_of i run (Some step) tgt op True) is) None
          (put_all tgt (zip is (map2 tool_message rs is)) (t\<lparr>mt_seq := mt_seq t + int (length rs)\<rparr>)))"
| step_final:
    "mt_ops t op = None \<Longrightarrow>
     transcript_step t
       (store_op op RUN_FINAL payload run None None None None [] None
          (t\<lparr>mt_run_status := (mt_run_status t)(run \<mapsto> status)\<rparr>))"

section \<open>Well-formed transcripts\<close>

text \<open>
  Ids are generated from the counter and never reused; every listed id names a stored message
  that carries this id, and belongs to one target; a text slot names an assistant message of its
  target; receipts of committed operations name stored messages.
\<close>

definition ids_wf :: "transcript \<Rightarrow> bool" where
  "ids_wf t \<longleftrightarrow> 0 \<le> mt_seq t \<and>
     (\<forall>i m. mt_messages t i = Some m \<longrightarrow>
        m_message_id m = Some i \<and> (\<exists>v. i \<in> set (order_of t v)) \<and>
        (\<exists>run n. i = msg_id ''msg'' run n \<and> 1 \<le> n \<and> n \<le> mt_seq t))"

definition order_wf :: "transcript \<Rightarrow> bool" where
  "order_wf t \<longleftrightarrow>
     (\<forall>v. distinct (order_of t v)) \<and>
     (\<forall>v i. i \<in> set (order_of t v) \<longrightarrow> mt_messages t i \<noteq> None) \<and>
     (\<forall>v v' i. i \<in> set (order_of t v) \<and> i \<in> set (order_of t v') \<longrightarrow> v = v')"

definition text_wf :: "transcript \<Rightarrow> bool" where
  "text_wf t \<longleftrightarrow>
     (\<forall>run step v a i. mt_text_ids t (run, step, v, a) = Some i \<longrightarrow>
        i \<in> set (order_of t v) \<and> (\<exists>m. mt_messages t i = Some m \<and> m_role m = ASSISTANT)) \<and>
     (\<forall>k k' i. mt_text_ids t k = Some i \<and> mt_text_ids t k' = Some i \<longrightarrow> k = k')"

definition receipt_ok :: "transcript \<Rightarrow> string \<Rightarrow> message_receipt \<Rightarrow> bool" where
  "receipt_ok t op rc \<longleftrightarrow>
     rc_logical_op_id rc = op \<and> rc_message_id rc \<in> set (order_of t (rt_value (rc_record_target rc)))"

definition batch_ok :: "transcript \<Rightarrow> string \<Rightarrow> batch_receipt \<Rightarrow> bool" where
  "batch_ok t op b \<longleftrightarrow>
     br_logical_op_id b = op \<and>
     (br_recording_required b \<longrightarrow>
        (\<exists>i. br_assistant_message_id b = Some i \<and> i \<in> set (order_of t (rt_value (br_record_target b))) \<and>
             (\<forall>c \<in> set (br_calls b). cr_message_id c = i)))"

definition entry_ok :: "transcript \<Rightarrow> string \<Rightarrow> committed_op \<Rightarrow> bool" where
  "entry_ok t op c \<longleftrightarrow>
     (co_kind c \<in> {INPUT, TEXT_DELTA, TEXT_FINAL} \<longrightarrow> co_message_receipt c \<noteq> None) \<and>
     (\<forall>rc. co_message_receipt c = Some rc \<longrightarrow> rc \<in> set (co_message_receipts c)) \<and>
     (\<forall>rc \<in> set (co_message_receipts c). receipt_ok t op rc) \<and>
     (co_kind c = TOOL_CALLS \<longleftrightarrow> co_batch_receipt c \<noteq> None) \<and>
     (\<forall>b. co_batch_receipt c = Some b \<longrightarrow> batch_ok t op b)"

definition ops_wf :: "transcript \<Rightarrow> bool" where
  "ops_wf t \<longleftrightarrow> (\<forall>op c. mt_ops t op = Some c \<longrightarrow> entry_ok t op c)"

definition transcript_wf :: "transcript \<Rightarrow> bool" where
  "transcript_wf t \<longleftrightarrow> ids_wf t \<and> order_wf t \<and> text_wf t \<and> ops_wf t"

section \<open>Every method is a step\<close>

lemma guarded_cases:
  assumes "andthen (check_fail op t) (\<lambda>_ t. if mt_ops t op \<noteq> None then A t else B t) = (r, t')"
  obtains (injected) e where "r = Inl e" "faulted t t'" "isinstance_exn e RecordingError" "op \<in> mt_fail_ops t"
    | (known) "op \<notin> mt_fail_ops t" "mt_ops t op \<noteq> None" "A t = (r, t')"
    | (fresh) "op \<notin> mt_fail_ops t" "mt_ops t op = None" "B t = (r, t')"
proof (cases "check_fail op t")
  case (Pair ru s)
  show ?thesis
  proof (cases ru)
    case (Inl e)
    with Pair assms check_fail_Inl [of op t e s] show ?thesis
      by (intro injected [of e]) auto
  next
    case (Inr u)
    with Pair have "s = t" "op \<notin> mt_fail_ops t" by (simp_all add: check_fail_Inr)
    with assms Pair Inr show ?thesis
      by (cases "mt_ops t op = None") (auto intro: known fresh)
  qed
qed

text \<open>A failing or repeated method leaves every committed fact alone.\<close>

definition recording_failure :: "transcript \<Rightarrow> exn \<Rightarrow> bool" where
  "recording_failure t e \<longleftrightarrow> (transcript_wf t \<longrightarrow> isinstance_exn e RecordingError)"

lemma again_message_state: "again_message r t = (x, t') \<Longrightarrow> t' = t"
  by (auto simp: again_message_def split: sum.splits option.splits)

lemma again_batch_state: "again_batch r t = (x, t') \<Longrightarrow> t' = t"
  by (auto simp: again_batch_def split: sum.splits option.splits)

lemma wf_entry: "transcript_wf t \<Longrightarrow> mt_ops t op = Some c \<Longrightarrow> entry_ok t op c"
  by (simp add: transcript_wf_def ops_wf_def)

lemma again_message_Inl:
  assumes "again_message (replay op kind payload run step tgt prev t) t = (Inl e, t')"
    and "mt_ops t op \<noteq> None" and "kind \<in> {INPUT, TEXT_DELTA, TEXT_FINAL}"
  shows "recording_failure t e"
proof (cases "replay op kind payload run step tgt prev t")
  case (Inl f)
  with assms show ?thesis
    by (auto simp: recording_failure_def again_message_def dest: replay_errors)
next
  case (Inr c)
  then have "mt_ops t op = Some c" "co_kind c = kind"
    by (simp_all add: replay_Inr)
  then have "transcript_wf t \<Longrightarrow> co_message_receipt c \<noteq> None"
    using wf_entry assms(3) unfolding entry_ok_def by blast
  with assms(1) Inr show ?thesis
    by (auto simp: recording_failure_def again_message_def)
qed

lemma again_batch_Inl:
  assumes "again_batch (replay op TOOL_CALLS payload run step tgt prev t) t = (Inl e, t')"
    and "mt_ops t op \<noteq> None"
  shows "recording_failure t e"
proof (cases "replay op TOOL_CALLS payload run step tgt prev t")
  case (Inl f)
  with assms show ?thesis
    by (auto simp: recording_failure_def again_batch_def dest: replay_errors)
next
  case (Inr c)
  then have "mt_ops t op = Some c" "co_kind c = TOOL_CALLS"
    by (simp_all add: replay_Inr)
  then have "transcript_wf t \<Longrightarrow> co_batch_receipt c \<noteq> None"
    using wf_entry unfolding entry_ok_def by blast
  with assms(1) Inr show ?thesis
    by (auto simp: recording_failure_def again_batch_def)
qed

lemma again_message_step:
  assumes "again_message (replay op kind payload run step tgt prev t) t = (r, t')"
    and "mt_ops t op \<noteq> None" and "kind \<in> {INPUT, TEXT_DELTA, TEXT_FINAL}"
  shows "transcript_step t t' \<and> (\<forall>e. r = Inl e \<longrightarrow> faulted t t' \<and> recording_failure t e)"
  using again_message_state [OF assms(1)] again_message_Inl [OF _ assms(2,3)] assms(1)
  by (auto intro: step_fault)

lemma again_batch_step:
  assumes "again_batch (replay op TOOL_CALLS payload run step tgt prev t) t = (r, t')"
    and "mt_ops t op \<noteq> None"
  shows "transcript_step t t' \<and> (\<forall>e. r = Inl e \<longrightarrow> faulted t t' \<and> recording_failure t e)"
  using again_batch_state [OF assms(1)] again_batch_Inl [OF _ assms(2)] assms(1)
  by (auto intro: step_fault)

lemma upsert_text_failure:
  assumes "upsert_text key tgt fresh revise t = (Inl e, t')" and "keeps_identity revise"
  shows "t' = t \<and> recording_failure t e"
proof
  show "t' = t" using assms(1) by (rule upsert_text_Inl)
  show "recording_failure t e"
    using assms
    by (auto simp: recording_failure_def upsert_text_def append_message_def replace_message_def next_id_def
        Let_def keeps_identity_def transcript_wf_def ids_wf_def split: option.splits if_splits)
qed

lemma recording_failureI: "isinstance_exn e RecordingError \<Longrightarrow> recording_failure t e"
  by (simp add: recording_failure_def)

lemma record_input_step:
  assumes "record_input run tgt m op t = (r, t')"
  shows "transcript_step t t' \<and> (\<forall>e. r = Inl e \<longrightarrow> faulted t t' \<and> recording_failure t e)"
  using assms unfolding record_input_def
proof (cases rule: guarded_cases)
  case known
  then show ?thesis
    using again_message_step [OF known(3,2)] by simp
next
  case fresh
  then show ?thesis
    by (auto simp: next_id_def Let_def append_message_def intro: step_input)
qed (auto intro: step_fault recording_failureI)

lemma record_text_delta_step:
  assumes "record_text_delta run step tgt text op attempt previous t = (r, t')"
  shows "transcript_step t t' \<and> (\<forall>e. r = Inl e \<longrightarrow> faulted t t' \<and> recording_failure t e)"
  using assms unfolding record_text_delta_def Let_def
proof (cases rule: guarded_cases)
  case known
  then show ?thesis
    using again_message_step [OF known(3,2)] by simp
next
  case fresh
  show ?thesis
  proof (cases "upsert_text (run, step, rt_value tgt, attempt) tgt (plain_message ASSISTANT (Some text))
      (append_content text) t")
    case (Pair u s)
    with fresh show ?thesis
      by (cases u) (auto split: option.splits if_splits intro: step_text step_fault recording_failureI
          dest!: upsert_text_failure)
  qed
qed (auto intro: step_fault recording_failureI)

lemma record_text_final_step:
  assumes "record_text_final run step tgt text reasoning calls op attempt previous t = (r, t')"
  shows "transcript_step t t' \<and> (\<forall>e. r = Inl e \<longrightarrow> faulted t t' \<and> recording_failure t e)"
  using assms unfolding record_text_final_def Let_def
proof (cases rule: guarded_cases)
  case known
  then show ?thesis
    using again_message_step [OF known(3,2)] by simp
next
  case fresh
  show ?thesis
  proof (cases "upsert_text (run, step, rt_value tgt, attempt) tgt (assistant_message text reasoning calls)
      (final_content text reasoning calls) t")
    case (Pair u s)
    with fresh show ?thesis
      by (cases u) (auto simp: assistant_message_def split: option.splits if_splits
          intro: step_text step_fault recording_failureI dest!: upsert_text_failure)
  qed
qed (auto intro: step_fault recording_failureI)

lemma unrecorded_Inl: "unrecorded calls t = Inl e \<Longrightarrow> isinstance_exn e RecordingError"
  by (auto simp: unrecorded_def Let_def split: if_splits)

lemma record_tool_calls_step:
  assumes "record_tool_calls run step tgt calls text reasoning op previous attempt t = (r, t')"
  shows "transcript_step t t' \<and> (\<forall>e. r = Inl e \<longrightarrow> faulted t t' \<and> recording_failure t e)"
  using assms unfolding record_tool_calls_def Let_def
proof (cases rule: guarded_cases)
  case known
  then show ?thesis
    using again_batch_step [OF known(3,2)] by simp
next
  case fresh
  show ?thesis
  proof (cases "upsert_text (run, step, rt_value tgt, attempt) tgt (assistant_message text reasoning calls)
      (calls_content text reasoning calls) t")
    case (Pair u s)
    with fresh show ?thesis
      by (cases u) (auto simp: assistant_message_def split: option.splits if_splits sum.splits
          intro: step_calls step_unrecorded step_fault recording_failureI
          dest!: upsert_text_failure unrecorded_Inl)
  qed
qed (auto intro: step_fault recording_failureI)

lemma andthen_only_Inl:
  "andthen res k = (r, t') \<Longrightarrow> \<forall>a s. res \<noteq> (Inr a, s) \<Longrightarrow> \<exists>e. r = Inl e \<and> res = (Inl e, t')"
  by (cases res; cases "fst res") auto

lemma map_fst_map2: "map fst (map2 (\<lambda>r i. (f r i, g i)) rs is) = map2 f rs is"
  by (simp add: case_prod_beta o_def)

lemma map_snd_map2: "length is = length rs \<Longrightarrow> map snd (map2 (\<lambda>r i. (f r i, g i)) rs is) = map g is"
  by (induction "is" rs rule: list_induct2) auto

lemma record_tool_results_step:
  assumes "record_tool_results run step tgt results op previous t = (r, t')"
  shows "transcript_step t t' \<and> (\<forall>e. r = Inl e \<longrightarrow> faulted t t' \<and> recording_failure t e)"
  using assms unfolding record_tool_results_def Let_def
proof (cases rule: guarded_cases)
  case known
  then show ?thesis
    by (auto split: sum.splits intro: step_fault recording_failureI dest: replay_errors)
next
  case fresh
  show ?thesis
  proof (cases "\<exists>stored pairs s. Option.bind (mt_ops t (br_logical_op_id previous)) co_batch_receipt = Some stored
      \<and> br_recording_required stored
      \<and> pair_results run step tgt op (known_calls stored) results t = (Inr pairs, s)
      \<and> receipt_identity (Some (OfBatch stored)) = receipt_identity (Some (OfBatch previous))
      \<and> br_run_id stored = run \<and> br_step_no stored = step \<and> br_record_target stored = tgt")
    case True
    then obtain stored pairs s where stored: "Option.bind (mt_ops t (br_logical_op_id previous)) co_batch_receipt = Some stored"
      and req: "br_recording_required stored"
      and ps: "pair_results run step tgt op (known_calls stored) results t = (Inr pairs, s)"
      and ident: "receipt_identity (Some (OfBatch stored)) = receipt_identity (Some (OfBatch previous))"
      and same: "br_run_id stored = run" "br_step_no stored = step" "br_record_target stored = tgt"
      by blast
    let ?is = "fresh_ids run (mt_seq t) (length results)"
    from pair_results_Inr [OF ps] have s: "s = t\<lparr>mt_seq := mt_seq t + int (length results)\<rparr>"
      and fst: "map fst pairs = map2 tool_message results ?is"
      and snd: "map snd pairs = map (\<lambda>i. message_receipt_of i run (Some step) tgt op True) ?is"
      by (simp_all only: map_fst_map2 map_snd_map2 length_fresh_ids)
    have "append_all tgt (map fst pairs) s = (Inr (), put_all tgt (zip ?is (map2 tool_message results ?is)) s)"
      unfolding fst by (rule append_all_tool_messages) simp
    with fresh(3) stored req ps ident same have "r = Inr (map snd pairs)"
      "t' = store_op op TOOL_RESULTS (results_payload results) run (Some step) (Some tgt) (Some (OfBatch previous))
         None (map snd pairs) None (put_all tgt (zip ?is (map2 tool_message results ?is)) s)"
      by simp_all
    then show ?thesis
      unfolding snd s using fresh(2) by (auto intro: step_results)
  next
    case False
    then have no_pairs: "\<And>stored. Option.bind (mt_ops t (br_logical_op_id previous)) co_batch_receipt = Some stored
      \<Longrightarrow> br_recording_required stored
      \<Longrightarrow> receipt_identity (Some (OfBatch stored)) = receipt_identity (Some (OfBatch previous))
      \<Longrightarrow> br_run_id stored = run \<Longrightarrow> br_step_no stored = step \<Longrightarrow> br_record_target stored = tgt
      \<Longrightarrow> \<forall>pairs s. pair_results run step tgt op (known_calls stored) results t \<noteq> (Inr pairs, s)"
      by blast
    with fresh(3) show ?thesis
      by (cases "Option.bind (mt_ops t (br_logical_op_id previous)) co_batch_receipt")
        (auto split: if_splits intro: step_fault recording_failureI dest!: andthen_only_Inl pair_results_Inl)
  qed
qed (auto intro: step_fault recording_failureI)

lemma finalize_run_step:
  assumes "finalize_run run status t = (r, t')"
  shows "transcript_step t t' \<and> (\<forall>e. r = Inl e \<longrightarrow> faulted t t' \<and> recording_failure t e)"
  using assms unfolding finalize_run_def Let_def
proof (cases rule: guarded_cases)
  case known
  then show ?thesis
    by (auto split: sum.splits intro: step_fault recording_failureI dest: replay_errors)
next
  case fresh
  then show ?thesis
    by (auto intro: step_final)
qed (auto intro: step_fault recording_failureI)

lemma lift_result_step:
  assumes "lift_result f res = (r, t')"
    and "\<And>y. res = (y, t') \<Longrightarrow> transcript_step t t' \<and> (\<forall>e. y = Inl e \<longrightarrow> F e)"
  shows "transcript_step t t' \<and> (\<forall>e. r = Inl e \<longrightarrow> F e)"
  using assms by (cases res; cases "fst res") (auto simp: lift_result_def)

lemma apply_op_step:
  assumes "apply_op c t = (r, t')"
  shows "transcript_step t t' \<and> (\<forall>e. r = Inl e \<longrightarrow> faulted t t' \<and> recording_failure t e)"
proof (cases c)
  case (OpInput run tgt m op)
  with assms show ?thesis by (auto elim!: lift_result_step intro!: record_input_step)
next
  case (OpTextDelta run step tgt body op att prev)
  with assms show ?thesis by (auto elim!: lift_result_step intro!: record_text_delta_step)
next
  case (OpTextFinal run step tgt body reas calls op att prev)
  with assms show ?thesis by (auto elim!: lift_result_step intro!: record_text_final_step)
next
  case (OpToolCalls run step tgt calls body reas op prev att)
  with assms show ?thesis by (auto elim!: lift_result_step intro!: record_tool_calls_step)
next
  case (OpToolResults run step tgt results op prev)
  with assms show ?thesis by (auto elim!: lift_result_step intro!: record_tool_results_step)
next
  case (OpFinalize run status)
  with assms show ?thesis by (auto elim!: lift_result_step intro!: finalize_run_step)
next
  case (OpInjectFailure op)
  with assms show ?thesis by (auto intro: step_inject)
qed

end
