(* ===== verification/Recording_Facts.thy ===== *)
theory Recording_Facts imports Recording_Steps begin

text \<open>
  The facts of the transcript: well-formedness is an invariant, histories only grow, committed
  operations and messages that are not assistant drafts never change, and the version tells apart
  any two contents.  They are proved for one step and carried to every history of calls.
\<close>

section \<open>Growth\<close>

definition grows :: "transcript \<Rightarrow> transcript \<Rightarrow> bool" where
  "grows t t' \<longleftrightarrow>
     mt_seq t \<le> mt_seq t' \<and> mt_version t \<le> mt_version t' \<and>
     (\<forall>v. \<exists>xs. order_of t' v = order_of t v @ xs) \<and>
     mt_ops t \<subseteq>\<^sub>m mt_ops t' \<and> mt_text_ids t \<subseteq>\<^sub>m mt_text_ids t' \<and>
     (\<forall>i m. mt_messages t i = Some m \<longrightarrow>
        (\<exists>m'. mt_messages t' i = Some m' \<and> m_role m' = m_role m \<and> m_message_id m' = m_message_id m \<and>
              (m_role m \<noteq> ASSISTANT \<longrightarrow> m' = m))) \<and>
     (mt_version t' = mt_version t \<longrightarrow>
        mt_messages t' = mt_messages t \<and> (\<forall>v. order_of t' v = order_of t v))"

lemma grows_refl [simp]: "grows t t"
  by (auto simp: grows_def)

lemma growsD:
  assumes "grows t t'"
  shows "mt_seq t \<le> mt_seq t'" "mt_version t \<le> mt_version t'" "\<exists>xs. order_of t' v = order_of t v @ xs"
    "mt_ops t \<subseteq>\<^sub>m mt_ops t'" "mt_text_ids t \<subseteq>\<^sub>m mt_text_ids t'"
    "mt_messages t i = Some m \<Longrightarrow>
       \<exists>m'. mt_messages t' i = Some m' \<and> m_role m' = m_role m \<and> m_message_id m' = m_message_id m \<and>
            (m_role m \<noteq> ASSISTANT \<longrightarrow> m' = m)"
    "mt_version t' = mt_version t \<Longrightarrow> mt_messages t' = mt_messages t \<and> order_of t' v = order_of t v"
  using assms by (simp_all add: grows_def)

lemma grows_trans [trans]:
  assumes "grows t t'" and "grows t' t''"
  shows "grows t t''"
  unfolding grows_def
proof (intro conjI allI impI)
  show "mt_seq t \<le> mt_seq t''" "mt_version t \<le> mt_version t''"
    using growsD(1,2) [OF assms(1)] growsD(1,2) [OF assms(2)] by auto
  show "\<exists>xs. order_of t'' v = order_of t v @ xs" for v
    using growsD(3) [OF assms(1), of v] growsD(3) [OF assms(2), of v] by auto
  show "mt_ops t \<subseteq>\<^sub>m mt_ops t''" "mt_text_ids t \<subseteq>\<^sub>m mt_text_ids t''"
    using growsD(4,5) [OF assms(1)] growsD(4,5) [OF assms(2)] by (blast intro: map_le_trans)+
  show "\<exists>m''. mt_messages t'' i = Some m'' \<and> m_role m'' = m_role m \<and> m_message_id m'' = m_message_id m \<and>
            (m_role m \<noteq> ASSISTANT \<longrightarrow> m'' = m)" if "mt_messages t i = Some m" for i m
  proof -
    from growsD(6) [OF assms(1) that] obtain m' where m': "mt_messages t' i = Some m'" "m_role m' = m_role m"
      "m_message_id m' = m_message_id m" "m_role m \<noteq> ASSISTANT \<Longrightarrow> m' = m" by blast
    from growsD(6) [OF assms(2) m'(1)] m'(2-4) show ?thesis by metis
  qed
  assume "mt_version t'' = mt_version t"
  with growsD(2) [OF assms(1)] growsD(2) [OF assms(2)]
  have "mt_version t' = mt_version t" "mt_version t'' = mt_version t'" by simp_all
  then show "mt_messages t'' = mt_messages t" "order_of t'' v = order_of t v" for v
    using growsD(7) [OF assms(1)] growsD(7) [OF assms(2)] by simp_all
qed

text \<open>The invariant apart from the committed operations.\<close>

definition store_wf :: "transcript \<Rightarrow> bool" where
  "store_wf t \<longleftrightarrow> ids_wf t \<and> order_wf t \<and> text_wf t"

lemma transcript_wf_iff: "transcript_wf t \<longleftrightarrow> store_wf t \<and> ops_wf t"
  by (auto simp: transcript_wf_def store_wf_def)

lemma msg_id_inj: "msg_id ''msg'' r n = msg_id ''msg'' r' n' \<longleftrightarrow> r = r' \<and> n = n'"
proof
  assume "msg_id ''msg'' r n = msg_id ''msg'' r' n'"
  then have "r @ CHR '':'' # int_str n = r' @ CHR '':'' # int_str n'"
    by (simp add: msg_id_def)
  from field_back [OF _ _ this] show "r = r' \<and> n = n'" by simp
qed simp

lemma ids_wfD:
  assumes "ids_wf t" and "mt_messages t i = Some m"
  shows "m_message_id m = Some i" "\<exists>v. i \<in> set (order_of t v)"
    "\<exists>run n. i = msg_id ''msg'' run n \<and> 1 \<le> n \<and> n \<le> mt_seq t"
  using assms unfolding ids_wf_def by blast+

lemma order_wfD:
  assumes "order_wf t"
  shows "distinct (order_of t v)" "i \<in> set (order_of t v) \<Longrightarrow> mt_messages t i \<noteq> None"
    "i \<in> set (order_of t v) \<Longrightarrow> i \<in> set (order_of t v') \<Longrightarrow> v = v'"
  using assms unfolding order_wf_def by blast+

lemma text_wfD:
  assumes "text_wf t" and "mt_text_ids t (run, step, v, a) = Some i"
  shows "i \<in> set (order_of t v)" "\<exists>m. mt_messages t i = Some m \<and> m_role m = ASSISTANT"
    "mt_text_ids t k = Some i \<Longrightarrow> k = (run, step, v, a)"
  using assms unfolding text_wf_def by blast+

lemma text_wfI:
  assumes "\<And>run step v a i. mt_text_ids t (run, step, v, a) = Some i \<Longrightarrow> i \<in> set (order_of t v)"
    and "\<And>run step v a i. mt_text_ids t (run, step, v, a) = Some i \<Longrightarrow>
          \<exists>m. mt_messages t i = Some m \<and> m_role m = ASSISTANT"
    and "\<And>run step v a k i. mt_text_ids t (run, step, v, a) = Some i \<Longrightarrow> mt_text_ids t k = Some i \<Longrightarrow>
          k = (run, step, v, a)"
  shows "text_wf t"
  using assms unfolding text_wf_def by (metis prod_cases4)

lemma fresh_id: "ids_wf t \<Longrightarrow> mt_seq t < n \<Longrightarrow> mt_messages t (msg_id ''msg'' run n) = None"
  using ids_wfD(3) [of t "msg_id ''msg'' run n"] by (force simp: msg_id_inj)

lemma unlisted: "order_wf t \<Longrightarrow> mt_messages t i = None \<Longrightarrow> i \<notin> set (order_of t v)"
  using order_wfD(2) by blast

section \<open>Elementary writes\<close>

lemma order_of_seq [simp]: "order_of (t\<lparr>mt_seq := n\<rparr>) v = order_of t v"
  "order_of (t\<lparr>mt_text_ids := x\<rparr>) v = order_of t v" "order_of (t\<lparr>mt_run_status := y\<rparr>) v = order_of t v"
  "order_of (t\<lparr>mt_fail_ops := z\<rparr>) v = order_of t v"
  by (simp_all add: order_of_def)

lemma bump_seq: 
  assumes "store_wf t" and "0 \<le> k"
  shows "store_wf (t\<lparr>mt_seq := mt_seq t + k\<rparr>)"
proof -
  have "ids_wf (t\<lparr>mt_seq := mt_seq t + k\<rparr>)"
    unfolding ids_wf_def
  proof (intro conjI allI impI)
    show "0 \<le> mt_seq (t\<lparr>mt_seq := mt_seq t + k\<rparr>)"
      using assms by (simp add: store_wf_def ids_wf_def)
    fix i m assume "mt_messages (t\<lparr>mt_seq := mt_seq t + k\<rparr>) i = Some m"
    with assms ids_wfD [of t i m]
    show "m_message_id m = Some i" "\<exists>v. i \<in> set (order_of (t\<lparr>mt_seq := mt_seq t + k\<rparr>) v)"
      "\<exists>run n. i = msg_id ''msg'' run n \<and> 1 \<le> n \<and> n \<le> mt_seq (t\<lparr>mt_seq := mt_seq t + k\<rparr>)"
      by (force simp: store_wf_def)+
  qed
  then show ?thesis
    using assms by (simp add: store_wf_def order_wf_def text_wf_def)
qed

lemma bump_seq_grows: "0 \<le> k \<Longrightarrow> grows t (t\<lparr>mt_seq := mt_seq t + k\<rparr>)"
  by (auto simp: grows_def order_of_def)

lemma put_new_wf:
  assumes wf: "store_wf t" and new: "mt_messages t i = None" and i: "i = msg_id ''msg'' run n" "1 \<le> n" "n \<le> mt_seq t"
    and m: "m_message_id m = Some i"
  shows "store_wf (put_new tgt i m t)"
proof -
  from wf have ids: "ids_wf t" and order: "order_wf t" and texts: "text_wf t"
    by (simp_all add: store_wf_def)
  have "ids_wf (put_new tgt i m t)"
    unfolding ids_wf_def
  proof (intro conjI allI impI)
    show "0 \<le> mt_seq (put_new tgt i m t)"
      using ids by (simp add: ids_wf_def)
    fix j m' assume j: "mt_messages (put_new tgt i m t) j = Some m'"
    show "m_message_id m' = Some j"
      using j m ids_wfD(1) [OF ids] by (auto split: if_splits)
    show "\<exists>v. j \<in> set (order_of (put_new tgt i m t) v)"
      using j ids_wfD(2) [OF ids, of j] by (cases "j = i") (auto split: if_splits, metis)
    show "\<exists>run n. j = msg_id ''msg'' run n \<and> 1 \<le> n \<and> n \<le> mt_seq (put_new tgt i m t)"
      using j i ids_wfD(3) [OF ids, of j] by (cases "j = i") auto
  qed
  moreover have "order_wf (put_new tgt i m t)"
    unfolding order_wf_def
    using order_wfD [OF order] unlisted [OF order new] by (auto split: if_splits)
  moreover have "text_wf (put_new tgt i m t)"
    using text_wfD [OF texts] new by (intro text_wfI) fastforce+
  ultimately show ?thesis by (simp add: store_wf_def)
qed

lemma put_new_grows: "mt_messages t i = None \<Longrightarrow> grows t (put_new tgt i m t)"
  by (auto simp: grows_def)

lemma put_old_wf:
  assumes wf: "store_wf t" and old: "mt_messages t i = Some m" and m': "m_message_id m' = Some i" "m_role m' = m_role m"
  shows "store_wf (put_old i m' t)"
proof -
  from wf have ids: "ids_wf t" and order: "order_wf t" and texts: "text_wf t"
    by (simp_all add: store_wf_def)
  have "ids_wf (put_old i m' t)"
    unfolding ids_wf_def
  proof (intro conjI allI impI)
    show "0 \<le> mt_seq (put_old i m' t)"
      using ids by (simp add: ids_wf_def)
    fix j x assume "mt_messages (put_old i m' t) j = Some x"
    then obtain y where "mt_messages t j = Some y" and "m_message_id x = Some j \<or> x = y"
      using old m' by (auto split: if_splits)
    with ids_wfD [OF ids, of j]
    show "m_message_id x = Some j" "\<exists>v. j \<in> set (order_of (put_old i m' t) v)"
      "\<exists>run n. j = msg_id ''msg'' run n \<and> 1 \<le> n \<and> n \<le> mt_seq (put_old i m' t)"
      by auto
  qed
  moreover have "order_wf (put_old i m' t)"
    unfolding order_wf_def using order_wfD [OF order] by auto
  moreover have "text_wf (put_old i m' t)"
    using text_wfD [OF texts] old m' by (intro text_wfI) fastforce+
  ultimately show ?thesis by (simp add: store_wf_def)
qed

lemma put_old_grows:
  "mt_messages t i = Some m \<Longrightarrow> m_role m = ASSISTANT \<Longrightarrow> m_role m' = m_role m \<Longrightarrow>
   m_message_id m' = m_message_id m \<Longrightarrow> grows t (put_old i m' t)"
  by (auto simp: grows_def)

lemma store_op_wf: "store_wf (store_op op k pl run st tg prev rc rcs b t) \<longleftrightarrow> store_wf t"
  by (simp add: store_wf_def ids_wf_def order_wf_def text_wf_def)

lemma store_op_grows: "mt_ops t op = None \<Longrightarrow> grows t (store_op op k pl run st tg prev rc rcs b t)"
  by (auto simp: grows_def map_le_def)

lemma receipt_ok_mono:
  "receipt_ok t op rc \<Longrightarrow> (\<And>v. set (order_of t v) \<subseteq> set (order_of t' v)) \<Longrightarrow> receipt_ok t' op rc"
  by (auto simp: receipt_ok_def)

lemma batch_ok_mono:
  assumes "batch_ok t op b" and "\<And>v. set (order_of t v) \<subseteq> set (order_of t' v)"
  shows "batch_ok t' op b"
  unfolding batch_ok_def
proof (intro conjI impI)
  show "br_logical_op_id b = op" using assms(1) by (simp add: batch_ok_def)
  assume "br_recording_required b"
  with assms(1) obtain i where "br_assistant_message_id b = Some i"
    "i \<in> set (order_of t (rt_value (br_record_target b)))" "\<forall>c \<in> set (br_calls b). cr_message_id c = i"
    by (auto simp: batch_ok_def)
  with assms(2) show "\<exists>i. br_assistant_message_id b = Some i \<and>
      i \<in> set (order_of t' (rt_value (br_record_target b))) \<and> (\<forall>c \<in> set (br_calls b). cr_message_id c = i)"
    by blast
qed

lemma entry_ok_mono:
  assumes "entry_ok t op c" and "\<And>v. set (order_of t v) \<subseteq> set (order_of t' v)"
  shows "entry_ok t' op c"
  using assms receipt_ok_mono [OF _ assms(2)] batch_ok_mono [OF _ assms(2)] unfolding entry_ok_def by blast

lemma ops_wf_grows:
  assumes "ops_wf t" and "mt_ops t' = mt_ops t" and "grows t t'"
  shows "ops_wf t'"
proof -
  have "set (order_of t v) \<subseteq> set (order_of t' v)" for v
    using growsD(3) [OF assms(3), of v] by auto
  then show ?thesis
    using assms(1,2) entry_ok_mono unfolding ops_wf_def by metis
qed

lemma store_op_ops_wf:
  assumes "ops_wf t"
    and "entry_ok t op (op_entry op k pl run st tg prev
           (if rcs \<noteq> [] then rcs else case rc of None \<Rightarrow> [] | Some r \<Rightarrow> [r]) b)"
  shows "ops_wf (store_op op k pl run st tg prev rc rcs b t)"
  using assms by (auto simp: ops_wf_def entry_ok_def receipt_ok_def batch_ok_def)

section \<open>One step keeps the invariant and grows the transcript\<close>

lemma faulted_wf_grows:
  assumes "faulted t t'" and "transcript_wf t"
  shows "transcript_wf t' \<and> grows t t'"
proof
  note eqs = faulted_fields [OF assms(1)]
  show "grows t t'"
    using eqs(8) by (auto simp: grows_def eqs)
  have "ids_wf t'"
    unfolding ids_wf_def
  proof (intro conjI allI impI)
    show "0 \<le> mt_seq t'"
      using assms(2) eqs(8) by (simp add: transcript_wf_def ids_wf_def)
    fix i m assume "mt_messages t' i = Some m"
    then have m: "mt_messages t i = Some m" by (simp add: eqs)
    from assms(2) have ids: "ids_wf t" by (simp add: transcript_wf_def)
    show "m_message_id m = Some i" "\<exists>v. i \<in> set (order_of t' v)"
      using ids_wfD(1,2) [OF ids m] by (simp_all add: eqs)
    show "\<exists>run n. i = msg_id ''msg'' run n \<and> 1 \<le> n \<and> n \<le> mt_seq t'"
      using ids_wfD(3) [OF ids m] eqs(8) by (metis order_trans)
  qed
  then show "transcript_wf t'"
    using assms(2)
    by (simp add: transcript_wf_def order_wf_def text_wf_def ops_wf_def entry_ok_def receipt_ok_def batch_ok_def eqs)
qed

lemma wf_text_ids:
  "ids_wf (t\<lparr>mt_text_ids := x\<rparr>) \<longleftrightarrow> ids_wf t" "order_wf (t\<lparr>mt_text_ids := x\<rparr>) \<longleftrightarrow> order_wf t"
  by (simp_all add: ids_wf_def order_wf_def)

lemma text_created_eq:
  "text_created k tgt fresh i t =
   (put_new tgt i (fresh\<lparr>m_message_id := Some i\<rparr>) (t\<lparr>mt_seq := mt_seq t + 1\<rparr>))
     \<lparr>mt_text_ids := (mt_text_ids t)(k \<mapsto> i)\<rparr>"
  by (simp add: text_created_def put_new_def order_of_def)

lemma text_created_wf:
  assumes wf: "store_wf t" and none: "mt_text_ids t (run, step, rt_value tgt, a) = None"
    and i: "i = msg_id ''msg'' run (mt_seq t + 1)" and role: "m_role fresh = ASSISTANT"
  shows "store_wf (text_created (run, step, rt_value tgt, a) tgt fresh i t) \<and>
    grows t (text_created (run, step, rt_value tgt, a) tgt fresh i t)"
proof
  let ?k = "(run, step, rt_value tgt, a)" and ?m = "fresh\<lparr>m_message_id := Some i\<rparr>"
  let ?s = "t\<lparr>mt_seq := mt_seq t + 1\<rparr>"
  from wf have ids: "ids_wf t" by (simp add: store_wf_def)
  have new: "mt_messages t i = None"
    using fresh_id [OF ids, of "mt_seq t + 1" run] i by simp
  have put: "store_wf (put_new tgt i ?m ?s)"
    using put_new_wf [OF bump_seq [OF wf, of 1], of i run "mt_seq t + 1" ?m tgt] new i wf
    by (simp add: store_wf_def ids_wf_def)
  have texts: "text_wf t" using wf by (simp add: store_wf_def)
  have "text_wf (text_created ?k tgt fresh i t)"
  proof (intro text_wfI)
    fix r s v b j assume j: "mt_text_ids (text_created ?k tgt fresh i t) (r, s, v, b) = Some j"
    show "j \<in> set (order_of (text_created ?k tgt fresh i t) v)"
      using j text_wfD(1) [OF texts, of r s v b j] by (auto simp: text_created_def split: if_splits)
    show "\<exists>m. mt_messages (text_created ?k tgt fresh i t) j = Some m \<and> m_role m = ASSISTANT"
      using j text_wfD(2) [OF texts, of r s v b j] role by (auto simp: text_created_def split: if_splits)
  next
    fix r s v b k j
    assume j: "mt_text_ids (text_created ?k tgt fresh i t) (r, s, v, b) = Some j"
      and k: "mt_text_ids (text_created ?k tgt fresh i t) k = Some j"
    have no: "mt_text_ids t k' \<noteq> Some i" for k'
      using text_wfD(2) [OF texts] new by (cases k') fastforce
    show "k = (r, s, v, b)"
    proof (cases "j = i")
      case True
      then show ?thesis using j k no by (simp add: text_created_def split: if_splits)
    next
      case False
      then show ?thesis
        using j k text_wfD(3) [OF texts, of r s v b j k] by (simp add: text_created_def split: if_splits)
    qed
  qed
  then show "store_wf (text_created ?k tgt fresh i t)"
    using put by (simp only: store_wf_def wf_text_ids text_created_eq)
  show "grows t (text_created ?k tgt fresh i t)"
    unfolding grows_def
  proof (intro conjI allI impI)
    show "mt_text_ids t \<subseteq>\<^sub>m mt_text_ids (text_created ?k tgt fresh i t)"
      using none by (auto simp: text_created_def map_le_def)
    show "\<exists>m'. mt_messages (text_created ?k tgt fresh i t) j = Some m' \<and> m_role m' = m_role m \<and>
        m_message_id m' = m_message_id m \<and> (m_role m \<noteq> ASSISTANT \<longrightarrow> m' = m)"
      if "mt_messages t j = Some m" for j m
      using that new by (auto simp: text_created_def)
  qed (simp_all add: text_created_def)
qed

text \<open>What a successful lookup-or-create of the assistant message establishes.\<close>

lemma upsert_text_grows:
  assumes wf: "transcript_wf t" and up: "upsert_text (run, step, rt_value tgt, a) tgt fresh revise t = (Inr (i, created), t')"
    and role: "m_role fresh = ASSISTANT" and keep: "keeps_identity revise"
  shows "store_wf t'" and "grows t t'" and "mt_ops t' = mt_ops t" and "i \<in> set (order_of t' (rt_value tgt))"
    and "mt_text_ids t' (run, step, rt_value tgt, a) = Some i" and "mt_version t' = mt_version t + 1"
proof -
  from wf have swf: "store_wf t" and texts: "text_wf t" and ids: "ids_wf t"
    by (simp_all add: transcript_wf_iff store_wf_def)
  have "store_wf t' \<and> grows t t' \<and> mt_ops t' = mt_ops t \<and> i \<in> set (order_of t' (rt_value tgt)) \<and>
    mt_text_ids t' (run, step, rt_value tgt, a) = Some i \<and> mt_version t' = mt_version t + 1"
  proof (rule upsert_text_Inr [OF up])
    assume "mt_text_ids t (run, step, rt_value tgt, a) = None" and i: "i = msg_id ''msg'' (fst (run, step, rt_value tgt, a)) (mt_seq t + 1)"
      and t': "t' = text_created (run, step, rt_value tgt, a) tgt fresh i t"
    with text_created_wf [OF swf _ _ role] show ?thesis
      by (simp add: text_created_def)
  next
    fix current j
    assume key: "mt_text_ids t (run, step, rt_value tgt, a) = Some i" and cur: "mt_messages t i = Some current"
      and j: "m_message_id (revise current) = Some j" and t': "t' = put_old j (revise current) t"
    from j keep ids_wfD(1) [OF ids cur] have "j = i" by (simp add: keeps_identity_def)
    moreover from keep have "m_role (revise current) = m_role current"
      "m_message_id (revise current) = m_message_id current" by (simp_all add: keeps_identity_def)
    moreover have "m_role current = ASSISTANT" using text_wfD(2) [OF texts key] cur by simp
    ultimately show ?thesis
      using put_old_wf [OF swf cur] put_old_grows [OF cur] text_wfD(1) [OF texts key] key t' j by simp
  qed
  then show "store_wf t'" "grows t t'" "mt_ops t' = mt_ops t" "i \<in> set (order_of t' (rt_value tgt))"
    "mt_text_ids t' (run, step, rt_value tgt, a) = Some i" "mt_version t' = mt_version t + 1" by simp_all
qed

lemma put_all_ops [simp]: "mt_ops (put_all tgt ims t) = mt_ops t"
  by (induction ims arbitrary: t) auto

lemma put_all_order:
  "order_of (put_all tgt ims t) v = (if v = rt_value tgt then order_of t v @ map fst ims else order_of t v)"
  by (induction ims arbitrary: t) auto

lemma put_all_version: "mt_version (put_all tgt ims t) = mt_version t + int (length ims)"
  by (induction ims arbitrary: t) auto

lemma put_all_wf:
  assumes "store_wf t" and "distinct (map fst ims)"
    and "\<And>i m. (i, m) \<in> set ims \<Longrightarrow> mt_messages t i = None \<and> m_message_id m = Some i \<and>
          (\<exists>n. i = msg_id ''msg'' run n \<and> 1 \<le> n \<and> n \<le> mt_seq t)"
  shows "store_wf (put_all tgt ims t) \<and> grows t (put_all tgt ims t)"
  using assms
proof (induction ims arbitrary: t)
  case (Cons im ims)
  obtain i m where im: "im = (i, m)" by (cases im)
  from Cons.prems(3) [of i m] im obtain n where n: "mt_messages t i = None" "m_message_id m = Some i"
    "i = msg_id ''msg'' run n" "1 \<le> n" "n \<le> mt_seq t" by auto
  have "store_wf (put_new tgt i m t)"
    using put_new_wf [OF Cons.prems(1) n(1,3,4,5,2)] .
  moreover have "mt_messages (put_new tgt i m t) j = None \<and> m_message_id x = Some j \<and>
      (\<exists>n. j = msg_id ''msg'' run n \<and> 1 \<le> n \<and> n \<le> mt_seq (put_new tgt i m t))"
    if "(j, x) \<in> set ims" for j x
    using Cons.prems(2) Cons.prems(3) [of j x] that im by (auto simp: image_iff)
  ultimately have "store_wf (put_all tgt ims (put_new tgt i m t)) \<and>
      grows (put_new tgt i m t) (put_all tgt ims (put_new tgt i m t))"
    using Cons.prems(2) by (intro Cons.IH) auto
  then show ?case
    using grows_trans [OF put_new_grows [OF n(1), of tgt m]] im by (metis put_all_simps(2))
qed simp

lemma distinct_fresh_ids [simp]: "distinct (fresh_ids run n k)"
  by (auto simp: fresh_ids_def distinct_map inj_on_def msg_id_inj)

lemma set_fresh_ids: "i \<in> set (fresh_ids run n k) \<Longrightarrow> \<exists>j. i = msg_id ''msg'' run j \<and> n < j \<and> j \<le> n + int k"
  by (auto simp: fresh_ids_def msg_id_inj)

lemma tool_messages_wf:
  fixes results :: "tool_result list" and run :: string and n :: int
  defines "is \<equiv> fresh_ids run n (length results)"
  assumes wf: "store_wf t" and n: "n = mt_seq t"
  shows "store_wf (put_all tgt (zip is (map2 tool_message results is)) (t\<lparr>mt_seq := mt_seq t + int (length results)\<rparr>)) \<and>
    grows t (put_all tgt (zip is (map2 tool_message results is)) (t\<lparr>mt_seq := mt_seq t + int (length results)\<rparr>))"
proof -
  let ?s = "t\<lparr>mt_seq := mt_seq t + int (length results)\<rparr>"
  from wf have ids: "ids_wf t" by (simp add: store_wf_def)
  have "store_wf (put_all tgt (zip is (map2 tool_message results is)) ?s) \<and>
      grows ?s (put_all tgt (zip is (map2 tool_message results is)) ?s)"
  proof (rule put_all_wf [of _ _ run])
    show "store_wf ?s" using bump_seq [OF wf] by simp
    show "distinct (map fst (zip is (map2 tool_message results is)))"
      by (simp add: is_def)
    fix i m assume "(i, m) \<in> set (zip is (map2 tool_message results is))"
    then have "m_message_id m = Some i" and "i \<in> set is"
      by (auto simp: set_zip)
    moreover from this(2) obtain j where "i = msg_id ''msg'' run j" "n < j" "j \<le> n + int (length results)"
      unfolding is_def by (auto dest: set_fresh_ids)
    ultimately show "mt_messages ?s i = None \<and> m_message_id m = Some i \<and>
        (\<exists>n. i = msg_id ''msg'' run n \<and> 1 \<le> n \<and> n \<le> mt_seq ?s)"
      using fresh_id [OF ids] n ids by (auto simp: ids_wf_def)
  qed
  then show ?thesis
    using grows_trans [OF bump_seq_grows [of "int (length results)" t]] by (metis of_nat_0_le_iff)
qed

lemma run_status_facts:
  "store_wf (t\<lparr>mt_run_status := x\<rparr>) \<longleftrightarrow> store_wf t" "ops_wf (t\<lparr>mt_run_status := x\<rparr>) \<longleftrightarrow> ops_wf t"
  "grows t (t\<lparr>mt_run_status := x\<rparr>)"
  by (auto simp: store_wf_def ids_wf_def order_wf_def text_wf_def ops_wf_def entry_ok_def receipt_ok_def
      batch_ok_def grows_def)

lemma inject_wf_grows:
  "transcript_wf t \<Longrightarrow> transcript_wf (inject_write_failure op t) \<and> grows t (inject_write_failure op t)"
  by (auto simp: inject_write_failure_def transcript_wf_def ids_wf_def order_wf_def text_wf_def ops_wf_def
      entry_ok_def receipt_ok_def batch_ok_def grows_def)

lemma transcript_step_wf_grows:
  assumes "transcript_step t t'" and wf: "transcript_wf t"
  shows "transcript_wf t' \<and> grows t t'"
  using assms(1)
proof cases
  case step_fault
  then show ?thesis using faulted_wf_grows wf by blast
next
  case (step_inject op)
  then show ?thesis using inject_wf_grows wf by simp
next
  case (step_input op i run payload tgt m)
  from wf have swf: "store_wf t" and ids: "ids_wf t" by (simp_all add: transcript_wf_iff store_wf_def)
  let ?s = "t\<lparr>mt_seq := mt_seq t + 1\<rparr>" and ?m = "m\<lparr>m_message_id := Some i\<rparr>"
  have new: "mt_messages ?s i = None"
    using fresh_id [OF ids, of "mt_seq t + 1" run] step_input by simp
  have g: "grows t (put_new tgt i ?m ?s)"
    using grows_trans [OF bump_seq_grows [of 1] put_new_grows [OF new]] by simp
  moreover have "store_wf (put_new tgt i ?m ?s)"
    using put_new_wf [OF bump_seq [OF swf, of 1] new _ _ _, of run "mt_seq t + 1" ?m] step_input ids
    by (simp add: ids_wf_def)
  moreover have "ops_wf (put_new tgt i ?m ?s)"
    using ops_wf_grows [OF _ _ g] wf by (simp add: transcript_wf_iff)
  ultimately show ?thesis
    using step_input grows_trans [OF g store_op_grows]
    by (simp add: transcript_wf_iff store_op_wf store_op_ops_wf entry_ok_def receipt_ok_def message_receipt_of_def)
next
  case (step_text op kind run step tgt attempt fresh revise i created s payload prev)
  note up = upsert_text_grows [OF wf step_text(4,5,6)]
  have "ops_wf s" using ops_wf_grows [OF _ up(3,2)] wf by (simp add: transcript_wf_iff)
  then show ?thesis
    using step_text up(1,3,4) grows_trans [OF up(2) store_op_grows]
    by (auto simp: transcript_wf_iff store_op_wf entry_ok_def receipt_ok_def message_receipt_of_def
        intro!: store_op_ops_wf)
next
  case (step_calls op run step tgt attempt fresh revise i created s payload prev calls)
  note up = upsert_text_grows [OF wf step_calls(3,4,5)]
  have "ops_wf s" using ops_wf_grows [OF _ up(3,2)] wf by (simp add: transcript_wf_iff)
  then show ?thesis
    using step_calls up(1,3,4) grows_trans [OF up(2) store_op_grows]
    by (auto simp: transcript_wf_iff store_op_wf entry_ok_def batch_ok_def recorded_receipt_def
        intro!: store_op_ops_wf)
next
  case (step_unrecorded op payload run step tgt prev)
  then show ?thesis
    using wf store_op_grows
    by (auto simp: transcript_wf_iff store_op_wf entry_ok_def batch_ok_def unrecorded_receipt_def
        intro!: store_op_ops_wf)
next
  case (step_results op "is" run results payload step tgt prev)
  let ?s = "put_all tgt (zip is (map2 tool_message results is)) (t\<lparr>mt_seq := mt_seq t + int (length results)\<rparr>)"
  have s: "store_wf ?s" "grows t ?s"
    using tool_messages_wf [of t "mt_seq t" tgt run results] wf step_results by (auto simp: transcript_wf_iff)
  have "ops_wf ?s" using ops_wf_grows [OF _ _ s(2)] wf by (simp add: transcript_wf_iff)
  then show ?thesis
    using step_results s(1) grows_trans [OF s(2) store_op_grows]
    by (auto simp: transcript_wf_iff store_op_wf entry_ok_def receipt_ok_def message_receipt_of_def put_all_order
        split: list.splits intro!: store_op_ops_wf)
next
  case (step_final op payload run status)
  then show ?thesis
    using wf run_status_facts grows_trans [OF run_status_facts(3) store_op_grows]
    by (auto simp: transcript_wf_iff store_op_wf entry_ok_def intro!: store_op_ops_wf)
qed

lemma new_transcript_wf [simp]: "transcript_wf (new_transcript tools)"
  by (simp add: new_transcript_def transcript_wf_def ids_wf_def order_wf_def text_wf_def ops_wf_def order_of_def)

lemma apply_op_wf_grows:
  assumes "transcript_wf t"
  shows "transcript_wf (snd (apply_op c t))" and "grows t (snd (apply_op c t))"
  using transcript_step_wf_grows [OF _ assms] apply_op_step [of c t] by (metis surjective_pairing)+

lemma run_ops_wf_grows: "transcript_wf t \<Longrightarrow> transcript_wf (run_ops cs t) \<and> grows t (run_ops cs t)"
proof (induction cs arbitrary: t)
  case (Cons c cs)
  from Cons.IH [OF apply_op_wf_grows(1) [OF Cons.prems]] grows_trans [OF apply_op_wf_grows(2) [OF Cons.prems]]
  show ?case by (metis run_ops.simps(2))
qed simp

lemma run_ops_append [simp]: "run_ops (cs @ ds) t = run_ops ds (run_ops cs t)"
  by (induction cs arbitrary: t) auto

section \<open>Committed operations and their repetition\<close>

text \<open>The logical operation id of a command, and what \<^verbatim>\<open>_replay\<close> compares a repetition with.\<close>

fun op_id :: "transcript_op \<Rightarrow> string option" where
  "op_id (OpInput run tgt m op) = Some op"
| "op_id (OpTextDelta run step tgt text op att prev) = Some op"
| "op_id (OpTextFinal run step tgt text reas calls op att prev) = Some op"
| "op_id (OpToolCalls run step tgt calls text reas op prev att) = Some op"
| "op_id (OpToolResults run step tgt results op prev) = Some op"
| "op_id (OpFinalize run status) = Some (finalize_op run status)"
| "op_id (OpInjectFailure op) = None"

type_synonym op_key = "logical_op_kind \<times> pykey \<times> string option \<times> int option \<times> record_target option"

fun op_key :: "transcript_op \<Rightarrow> op_key" where
  "op_key (OpInput run tgt m op) = (INPUT, message_key m, Some run, None, Some tgt)"
| "op_key (OpTextDelta run step tgt text op att prev) =
     (TEXT_DELTA, delta_payload text att, Some run, Some step, Some tgt)"
| "op_key (OpTextFinal run step tgt text reas calls op att prev) =
     (TEXT_FINAL, final_payload text reas calls att, Some run, Some step, Some tgt)"
| "op_key (OpToolCalls run step tgt calls text reas op prev att) =
     (TOOL_CALLS, calls_payload calls text reas, Some run, Some step, Some tgt)"
| "op_key (OpToolResults run step tgt results op prev) =
     (TOOL_RESULTS, results_payload results, Some run, Some step, Some tgt)"
| "op_key (OpFinalize run status) = (RUN_FINAL, KStr (run_status_value status), Some run, None, None)"
| "op_key (OpInjectFailure op) = (RUN_FINAL, KNone, None, None, None)"

fun op_previous :: "transcript_op \<Rightarrow> any_receipt option" where
  "op_previous (OpTextDelta run step tgt text op att prev) = map_option OfMessage prev"
| "op_previous (OpTextFinal run step tgt text reas calls op att prev) = map_option OfMessage prev"
| "op_previous (OpToolCalls run step tgt calls text reas op prev att) = map_option OfBatch prev"
| "op_previous (OpToolResults run step tgt results op prev) = Some (OfBatch prev)"
| "op_previous _ = None"

definition entry_key :: "committed_op \<Rightarrow> op_key" where
  "entry_key c = (co_kind c, co_payload c, co_run_id c, co_step_no c, co_record_target c)"

text \<open>The answer a committed operation gives to its repetition.\<close>

definition entry_answer :: "committed_op \<Rightarrow> op_result" where
  "entry_answer c =
     (case co_kind c of
        TOOL_CALLS \<Rightarrow> ReBatch ((the (co_batch_receipt c))\<lparr>br_created := False\<rparr>)
      | TOOL_RESULTS \<Rightarrow> ReResults (map (\<lambda>rc. rc\<lparr>rc_created := False\<rparr>) (co_message_receipts c))
      | RUN_FINAL \<Rightarrow> ReUnit
      | _ \<Rightarrow> ReMessage ((the (co_message_receipt c))\<lparr>rc_created := False\<rparr>))"

fun not_created :: "op_result \<Rightarrow> op_result" where
  "not_created (ReMessage rc) = ReMessage (rc\<lparr>rc_created := False\<rparr>)"
| "not_created (ReBatch rc) = ReBatch (rc\<lparr>br_created := False\<rparr>)"
| "not_created (ReResults rcs) = ReResults (map (\<lambda>rc. rc\<lparr>rc_created := False\<rparr>) rcs)"
| "not_created ReUnit = ReUnit"

text \<open>What a command does once its operation id is committed, in one equation.\<close>

definition repeat_op :: "transcript_op \<Rightarrow> committed_op \<Rightarrow> transcript \<Rightarrow> (exn, op_result, transcript) outcome" where
  "repeat_op c e t =
     (case replay (the (op_id c)) (fst (op_key c)) (fst (snd (op_key c))) (the (fst (snd (snd (op_key c)))))
             (fst (snd (snd (snd (op_key c))))) (snd (snd (snd (snd (op_key c))))) (op_previous c) t of
        Inl x \<Rightarrow> (Inl x, t) | Inr _ \<Rightarrow> (Inr (entry_answer e), t))"

lemma again_message_answer:
  assumes "entry_ok t op e" and "mt_ops t op = Some e" and "kind \<in> {INPUT, TEXT_DELTA, TEXT_FINAL}"
  shows "lift_result ReMessage (again_message (replay op kind pl run st tg prev t) t) =
    (case replay op kind pl run st tg prev t of Inl x \<Rightarrow> (Inl x, t) | Inr _ \<Rightarrow> (Inr (entry_answer e), t))"
proof (cases "replay op kind pl run st tg prev t")
  case (Inr c)
  then have "c = e" "co_kind e = kind" using assms(2) by (simp_all add: replay_Inr)
  with Inr assms show ?thesis
    by (auto simp: again_message_def lift_result_def entry_answer_def entry_ok_def)
qed (simp add: again_message_def lift_result_def)

lemma again_batch_answer:
  assumes "entry_ok t op e" and "mt_ops t op = Some e"
  shows "lift_result ReBatch (again_batch (replay op TOOL_CALLS pl run st tg prev t) t) =
    (case replay op TOOL_CALLS pl run st tg prev t of Inl x \<Rightarrow> (Inl x, t) | Inr _ \<Rightarrow> (Inr (entry_answer e), t))"
proof (cases "replay op TOOL_CALLS pl run st tg prev t")
  case (Inr c)
  then have "c = e" "co_kind e = TOOL_CALLS" using assms(2) by (simp_all add: replay_Inr)
  with Inr assms show ?thesis
    by (auto simp: again_batch_def lift_result_def entry_answer_def entry_ok_def)
qed (simp add: again_batch_def lift_result_def)

lemma replay_known:
  "replay op kind pl run st tg prev t = Inr b \<Longrightarrow> mt_ops t op = Some e \<Longrightarrow> b = e \<and> co_kind e = kind"
  by (simp add: replay_Inr)

lemma apply_op_known:
  assumes wf: "transcript_wf t" and op: "op_id c = Some op" and e: "mt_ops t op = Some e"
    and ok: "op \<notin> mt_fail_ops t"
  shows "apply_op c t = repeat_op c e t"
proof -
  have fail: "check_fail op t = (Inr (), t)" using ok by (simp add: check_fail_Inr)
  note ent = again_message_answer [OF wf_entry [OF wf e] e] again_batch_answer [OF wf_entry [OF wf e] e]
  show ?thesis
  proof (cases c)
    case (OpInput run tgt m op')
    with op e fail show ?thesis by (simp add: repeat_op_def record_input_def ent)
  next
    case (OpTextDelta run step tgt body op' att prev)
    with op e fail show ?thesis by (simp add: repeat_op_def record_text_delta_def ent Let_def)
  next
    case (OpTextFinal run step tgt body reas calls op' att prev)
    with op e fail show ?thesis by (simp add: repeat_op_def record_text_final_def ent Let_def)
  next
    case (OpToolCalls run step tgt calls body reas op' prev att)
    with op e fail show ?thesis by (simp add: repeat_op_def record_tool_calls_def ent Let_def)
  next
    case (OpToolResults run step tgt results op' prev)
    with op have op': "op' = op" by simp
    show ?thesis
    proof (cases "replay op TOOL_RESULTS (results_payload results) run (Some step) (Some tgt) (Some (OfBatch prev)) t")
      case (Inr b)
      from replay_known [OF Inr e] have "b = e" "co_kind e = TOOL_RESULTS" by simp_all
      with Inr e fail OpToolResults op' show ?thesis
        by (simp add: repeat_op_def record_tool_results_def lift_result_def entry_answer_def)
    next
      case (Inl x)
      with e fail OpToolResults op' show ?thesis
        by (simp add: repeat_op_def record_tool_results_def lift_result_def)
    qed
  next
    case (OpFinalize run status)
    with op have op': "finalize_op run status = op" by simp
    show ?thesis
    proof (cases "replay op RUN_FINAL (KStr (run_status_value status)) run None None None t")
      case (Inr b)
      from replay_known [OF Inr e] have "b = e" "co_kind e = RUN_FINAL" by simp_all
      with Inr e fail OpFinalize op' show ?thesis
        by (simp add: repeat_op_def finalize_run_def lift_result_def entry_answer_def Let_def)
    next
      case (Inl x)
      with e fail OpFinalize op' show ?thesis
        by (simp add: repeat_op_def finalize_run_def lift_result_def Let_def)
    qed
  qed (use op in simp)
qed

text \<open>
  A command that succeeded and left its operation committed: the committed entry has its key and
  its previous receipt, and its answer is the one that was returned.
\<close>

definition committed_by :: "transcript_op \<Rightarrow> op_result \<Rightarrow> committed_op \<Rightarrow> bool" where
  "committed_by c r e \<longleftrightarrow>
     entry_key e = op_key c \<and> entry_answer e = not_created r \<and>
     (op_previous c = None \<or> receipt_identity (co_previous_receipt e) = receipt_identity (op_previous c))"

lemma repeat_op_committed:
  assumes "committed_by c r e" and "mt_ops t op = Some e" and "op_id c = Some op"
  shows "repeat_op c e t = (Inr (not_created r), t)"
proof -
  have "\<exists>x. replay op (fst (op_key c)) (fst (snd (op_key c))) (the (fst (snd (snd (op_key c)))))
             (fst (snd (snd (snd (op_key c))))) (snd (snd (snd (snd (op_key c))))) (op_previous c) t = Inr x"
    using assms by (cases c) (auto simp: replay_Inr committed_by_def entry_key_def)
  then show ?thesis
    using assms by (auto simp: repeat_op_def committed_by_def)
qed

lemma repeat_op_Inr:
  assumes "repeat_op c e t = (Inr r, t')" and "mt_ops t op = Some e" and "op_id c = Some op"
  shows "t' = t \<and> committed_by c r e"
proof -
  from assms(1) have t': "t' = t" and r: "r = entry_answer e"
    and ok: "\<exists>x. replay op (fst (op_key c)) (fst (snd (op_key c))) (the (fst (snd (snd (op_key c)))))
             (fst (snd (snd (snd (op_key c))))) (snd (snd (snd (snd (op_key c))))) (op_previous c) t = Inr x"
    using assms(3) by (auto simp: repeat_op_def split: sum.splits)
  have "entry_key e = op_key c"
    "op_previous c = None \<or> receipt_identity (co_previous_receipt e) = receipt_identity (op_previous c)"
    using ok assms(2,3) by (cases c; auto simp: replay_Inr entry_key_def)+
  moreover have "not_created (entry_answer e) = entry_answer e"
    by (simp add: entry_answer_def o_def split: logical_op_kind.split)
  ultimately show ?thesis using t' r by (simp add: committed_by_def)
qed

lemma lift_result_Inr:
  assumes "lift_result f res = (Inr r, t')"
  obtains a where "res = (Inr a, t')" and "r = f a"
  using assms by (cases res; cases "fst res") (auto simp: lift_result_def)

lemma fresh_committed_by:
  assumes op: "op_id c = Some op" and none: "mt_ops t op = None"
    and run: "apply_op c t = (Inr r, t')" and e: "mt_ops t' op = Some e"
  shows "committed_by c r e"
proof (cases c)
  case (OpInput run tgt m op')
  with assms show ?thesis
    by (auto simp: record_input_def next_id_def append_message_def Let_def committed_by_def entry_key_def
        entry_answer_def elim!: lift_result_Inr andthen_InrE dest!: check_fail_Inr [THEN iffD1])
next
  case (OpTextDelta run step tgt body op' att prev)
  with assms show ?thesis
    by (auto simp: record_text_delta_def Let_def committed_by_def entry_key_def entry_answer_def
        elim!: lift_result_Inr andthen_InrE dest!: check_fail_Inr [THEN iffD1] split: option.splits if_splits)
next
  case (OpTextFinal run step tgt body reas calls op' att prev)
  with assms show ?thesis
    by (auto simp: record_text_final_def Let_def committed_by_def entry_key_def entry_answer_def
        elim!: lift_result_Inr andthen_InrE dest!: check_fail_Inr [THEN iffD1] split: option.splits if_splits)
next
  case (OpToolCalls run step tgt calls body reas op' prev att)
  with assms show ?thesis
    by (auto simp: record_tool_calls_def Let_def committed_by_def entry_key_def entry_answer_def
        elim!: lift_result_Inr andthen_InrE dest!: check_fail_Inr [THEN iffD1]
        split: option.splits if_splits sum.splits)
next
  case (OpToolResults run step tgt results op' prev)
  with assms show ?thesis
    by (auto simp: record_tool_results_def Let_def committed_by_def entry_key_def entry_answer_def
        elim!: lift_result_Inr andthen_InrE dest!: check_fail_Inr [THEN iffD1]
        split: option.splits if_splits sum.splits)
next
  case (OpFinalize run status)
  with assms show ?thesis
    by (auto simp: finalize_run_def Let_def committed_by_def entry_key_def entry_answer_def
        elim!: lift_result_Inr andthen_InrE dest!: check_fail_Inr [THEN iffD1] split: sum.splits)
qed (use op in simp)

lemma apply_op_committed_by:
  assumes wf: "transcript_wf t" and op: "op_id c = Some op"
    and run: "apply_op c t = (Inr r, t')" and e: "mt_ops t' op = Some e"
  shows "committed_by c r e"
proof (cases "mt_ops t op")
  case None
  then show ?thesis using fresh_committed_by [OF op _ run e] by simp
next
  case (Some e')
  have ok: "op \<notin> mt_fail_ops t"
  proof
    assume "op \<in> mt_fail_ops t"
    then have "check_fail op t = (Inl (raised RecordingError (''injected write failure for '' @ op)),
        t\<lparr>mt_fail_ops := mt_fail_ops t - {op}\<rparr>)"
      by (simp add: check_fail_def)
    with run op show False
      by (cases c) (auto simp: record_input_def record_text_delta_def record_text_final_def record_tool_calls_def
          record_tool_results_def finalize_run_def lift_result_def Let_def)
  qed
  from repeat_op_Inr [OF _ Some op] run apply_op_known [OF wf op Some ok]
  have "t' = t" "committed_by c r e'" by simp_all
  with e Some show ?thesis by simp
qed

end
