(* ===== verification/Versioned.thy ===== *)
theory Versioned imports Prelude begin

text \<open>
  The contract that the context manager relies on when it reads several stores one after the
  other: every change of a store's contents raises its version, and the version never falls.  A
  store that shows the same version before and after a reading was not changed in between.
\<close>

locale versioned =
  fixes step :: "'s \<Rightarrow> 's \<Rightarrow> bool"
    and inv :: "'s \<Rightarrow> bool"
    and rank :: "'s \<Rightarrow> int"
    and contents :: "'s \<Rightarrow> 'v"
  assumes inv_step: "step s s' \<Longrightarrow> inv s \<Longrightarrow> inv s'"
    and rank_step: "step s s' \<Longrightarrow> inv s \<Longrightarrow> rank s \<le> rank s'"
    and contents_step: "step s s' \<Longrightarrow> inv s \<Longrightarrow> rank s' = rank s \<Longrightarrow> contents s' = contents s"
begin

lemma runs_inv: "step\<^sup>*\<^sup>* s s' \<Longrightarrow> inv s \<Longrightarrow> inv s'"
  by (induction rule: rtranclp_induct) (auto intro: inv_step)

lemma runs_rank: "step\<^sup>*\<^sup>* s s' \<Longrightarrow> inv s \<Longrightarrow> rank s \<le> rank s'"
proof (induction rule: rtranclp_induct)
  case (step s' s'')
  then show ?case using runs_inv [of s s'] rank_step [of s' s''] by auto
qed simp

lemma runs_contents: "step\<^sup>*\<^sup>* s s' \<Longrightarrow> inv s \<Longrightarrow> rank s' = rank s \<Longrightarrow> contents s' = contents s"
proof (induction rule: rtranclp_induct)
  case (step s' s'')
  have "rank s \<le> rank s'" "inv s'" using step runs_rank runs_inv by auto
  moreover have "rank s' \<le> rank s''" using rank_step [OF step.hyps(2) \<open>inv s'\<close>] .
  ultimately have "rank s' = rank s" "rank s'' = rank s'" using step.prems(2) by linarith+
  then show ?case using step contents_step \<open>inv s'\<close> by simp
qed simp

text \<open>Nothing changes between two readings of the same version.\<close>

lemma unchanged_between:
  assumes "step\<^sup>*\<^sup>* s m" and "step\<^sup>*\<^sup>* m s'" and "inv s" and "rank s' = rank s"
  shows "contents m = contents s"
proof (rule runs_contents [OF assms(1,3)])
  have "rank s \<le> rank m" "rank m \<le> rank s'"
    using runs_rank [OF assms(1,3)] runs_rank [OF assms(2) runs_inv [OF assms(1,3)]] by auto
  with assms(4) show "rank m = rank s" by simp
qed

end

end
