(* ===== verification/Transcript.thy ===== *)
theory Transcript imports Recording_Facts Versioned begin

text \<open>
  What the transcript of \<^verbatim>\<open>recording.py\<close> promises its callers, for every history of calls on a
  new transcript: snapshots, isolation of targets, idempotent repetition, and the content the
  text and tool operations write.
\<close>

section \<open>Snapshots\<close>

definition view :: "record_target \<Rightarrow> transcript \<Rightarrow> message list" where
  "view tgt t = map (\<lambda>i. the (mt_messages t i)) (order_of t (rt_value tgt))"

lemma snapshot_wf:
  assumes "transcript_wf t"
  shows "snapshot tgt t =
    Inr \<lparr>tsn_version = snapshot_version (mt_version t) tgt, tsn_record_target = tgt, tsn_messages = view tgt t\<rparr>"
proof -
  have "map_result (\<lambda>i. case mt_messages t i of None \<Rightarrow> Inl (raised KeyError i) | Some m \<Rightarrow> Inr m)
      (order_of t (rt_value tgt)) = Inr (view tgt t)"
    unfolding view_def
    using assms order_wfD(2) [of t _ "rt_value tgt"]
    by (intro map_result_total) (fastforce simp: transcript_wf_def)
  then show ?thesis by (simp add: snapshot_def)
qed

lemma snapshot_version_eq [simp]: "snapshot_version n tgt = snapshot_version n' tgt \<longleftrightarrow> n = n'"
  by (auto simp: snapshot_version_def)

lemma view_grows_version: "grows t t' \<Longrightarrow> mt_version t' = mt_version t \<Longrightarrow> view tgt t' = view tgt t"
  using growsD(7) [of t t'] by (simp add: view_def)

section \<open>Isolation of targets\<close>

definition same_view :: "string \<Rightarrow> transcript \<Rightarrow> transcript \<Rightarrow> bool" where
  "same_view v t t' \<longleftrightarrow>
     order_of t' v = order_of t v \<and> (\<forall>i \<in> set (order_of t v). mt_messages t' i = mt_messages t i)"

lemma same_view_view: "same_view (rt_value tgt) t t' \<Longrightarrow> view tgt t' = view tgt t"
  by (simp add: same_view_def view_def)

lemma faulted_same_view: "faulted t t' \<Longrightarrow> same_view v t t'"
  by (simp add: same_view_def faulted_fields)

lemma put_all_messages:
  "i \<notin> set (map fst ims) \<Longrightarrow> mt_messages (put_all tgt ims t) i = mt_messages t i"
  by (induction ims arbitrary: t) auto

lemma upsert_text_same_view:
  assumes wf: "transcript_wf t" and up: "upsert_text (run, step, rt_value tgt, a) tgt fresh revise t = (Inr (i, created), t')"
    and keep: "keeps_identity revise" and v: "v \<noteq> rt_value tgt"
  shows "same_view v t t'"
proof (rule upsert_text_Inr [OF up])
  assume i: "i = msg_id ''msg'' (fst (run, step, rt_value tgt, a)) (mt_seq t + 1)"
    and t': "t' = text_created (run, step, rt_value tgt, a) tgt fresh i t"
  have "mt_messages t i = None"
    using fresh_id [of t "mt_seq t + 1" run] wf i by (simp add: transcript_wf_def)
  then have "i \<notin> set (order_of t v)"
    using unlisted wf by (simp add: transcript_wf_def)
  then show ?thesis using v t' by (auto simp: same_view_def text_created_def)
next
  fix current j
  assume key: "mt_text_ids t (run, step, rt_value tgt, a) = Some i" and cur: "mt_messages t i = Some current"
    and j: "m_message_id (revise current) = Some j" and t': "t' = put_old j (revise current) t"
  have "m_message_id current = Some i" using ids_wfD(1) [OF _ cur] wf by (simp add: transcript_wf_def)
  then have "j = i" using j keep by (simp add: keeps_identity_def)
  moreover have "i \<in> set (order_of t (rt_value tgt))"
    using text_wfD(1) [OF _ key] wf by (simp add: transcript_wf_def)
  ultimately have "j \<notin> set (order_of t v)"
    using order_wfD(3) [of t i v "rt_value tgt"] v wf by (auto simp: transcript_wf_def)
  then show ?thesis using t' by (auto simp: same_view_def)
qed

text \<open>A step changes at most the target of the operation it commits.\<close>

lemma step_isolated:
  assumes "transcript_step t t'" and wf: "transcript_wf t"
  shows "(\<forall>v. same_view v t t') \<or>
    (\<exists>op e tgt. mt_ops t op = None \<and> mt_ops t' op = Some e \<and> co_record_target e = Some tgt \<and>
       (\<forall>v. v \<noteq> rt_value tgt \<longrightarrow> same_view v t t'))"
  using assms(1)
proof cases
  case step_fault
  then show ?thesis by (simp add: faulted_same_view)
next
  case (step_inject op)
  then show ?thesis by (simp add: same_view_def inject_write_failure_def)
next
  case (step_input op i run payload tgt m)
  have "mt_messages t i = None"
    using fresh_id [of t "mt_seq t + 1" run] wf step_input by (simp add: transcript_wf_def)
  then have "i \<notin> set (order_of t v)" for v
    using unlisted wf by (simp add: transcript_wf_def)
  then have "same_view v t t'" if "v \<noteq> rt_value tgt" for v
    using step_input(1) that by (auto simp: same_view_def)
  then show ?thesis
    using step_input(1,2) by (intro disjI2 exI [of _ op] exI) auto
next
  case (step_text op kind run step tgt attempt fresh revise i created s payload prev)
  have "same_view v t t'" if "v \<noteq> rt_value tgt" for v
    using upsert_text_same_view [OF wf step_text(4,6) that] step_text(1) by (simp add: same_view_def)
  then show ?thesis
    using step_text(1,2) by (intro disjI2 exI [of _ op] exI) auto
next
  case (step_calls op run step tgt attempt fresh revise i created s payload prev calls)
  have "same_view v t t'" if "v \<noteq> rt_value tgt" for v
    using upsert_text_same_view [OF wf step_calls(3,5) that] step_calls(1) by (simp add: same_view_def)
  then show ?thesis
    using step_calls(1,2) by (intro disjI2 exI [of _ op] exI) auto
next
  case (step_unrecorded op payload run step tgt prev)
  then show ?thesis by (simp add: same_view_def)
next
  case (step_results op "is" run results payload step tgt prev)
  have new: "i \<notin> set is" if "i \<in> set (order_of t v)" for i v
  proof
    assume "i \<in> set is"
    then obtain j where "i = msg_id ''msg'' run j" "mt_seq t < j"
      using step_results(3) by (auto dest: set_fresh_ids)
    then have "mt_messages t i = None"
      using fresh_id wf by (simp add: transcript_wf_def)
    then show False using unlisted that wf by (simp add: transcript_wf_def)
  qed
  have fst: "map fst (zip is (map2 tool_message results is)) = is"
    using step_results(3) by simp
  have "same_view v t t'" if "v \<noteq> rt_value tgt" for v
    using step_results(1) that new put_all_messages [of _ "zip is (map2 tool_message results is)"] fst
    by (auto simp: same_view_def put_all_order)
  then show ?thesis
    using step_results(1,2) by (intro disjI2 exI [of _ op] exI) auto
next
  case (step_final op payload run status)
  then show ?thesis by (simp add: same_view_def)
qed

text \<open>A command commits no operation id but its own.\<close>

lemma upsert_text_ops: "upsert_text key tgt fresh revise t = (r, t') \<Longrightarrow> mt_ops t' = mt_ops t"
  by (auto simp: upsert_text_def append_message_def replace_message_def next_id_def Let_def
      split: option.splits if_splits)

lemma append_all_ops: "append_all tgt ms t = (r, t') \<Longrightarrow> mt_ops t' = mt_ops t"
  by (induction ms arbitrary: t) (auto simp: append_message_def split: option.splits)

lemma apply_op_own_id:
  assumes "apply_op c t = (Inr r, t')" and "mt_ops t op = None" and "mt_ops t' op = Some e"
  shows "op_id c = Some op"
proof (cases c)
  case (OpInput run tgt m op')
  with assms show ?thesis
    by (auto simp: record_input_def again_message_def next_id_def append_message_def Let_def
        elim!: lift_result_Inr andthen_InrE dest!: check_fail_Inr [THEN iffD1]
        split: if_splits sum.splits option.splits)
next
  case (OpTextDelta run step tgt body op' att prev)
  with assms show ?thesis
    by (auto simp: record_text_delta_def again_message_def Let_def
        elim!: lift_result_Inr andthen_InrE dest!: check_fail_Inr [THEN iffD1] upsert_text_ops
        split: if_splits sum.splits option.splits)
next
  case (OpTextFinal run step tgt body reas calls op' att prev)
  with assms show ?thesis
    by (auto simp: record_text_final_def again_message_def Let_def
        elim!: lift_result_Inr andthen_InrE dest!: check_fail_Inr [THEN iffD1] upsert_text_ops
        split: if_splits sum.splits option.splits)
next
  case (OpToolCalls run step tgt calls body reas op' prev att)
  with assms show ?thesis
    by (auto simp: record_tool_calls_def again_batch_def Let_def
        elim!: lift_result_Inr andthen_InrE dest!: check_fail_Inr [THEN iffD1] upsert_text_ops
        split: if_splits sum.splits option.splits)
next
  case (OpToolResults run step tgt results op' prev)
  with assms show ?thesis
    by (auto simp: record_tool_results_def Let_def
        elim!: lift_result_Inr andthen_InrE dest!: check_fail_Inr [THEN iffD1] pair_results_Inr append_all_ops
        split: if_splits sum.splits option.splits)
next
  case (OpFinalize run status)
  with assms show ?thesis
    by (auto simp: finalize_run_def Let_def elim!: lift_result_Inr andthen_InrE
        dest!: check_fail_Inr [THEN iffD1] split: if_splits sum.splits option.splits)
next
  case (OpInjectFailure op')
  with assms show ?thesis by (auto simp: inject_write_failure_def)
qed

definition op_target :: "transcript_op \<Rightarrow> record_target option" where
  "op_target c = snd (snd (snd (snd (op_key c))))"

lemma apply_op_isolated:
  assumes wf: "transcript_wf t" and other: "\<forall>tgt. snd (snd (snd (snd (op_key c)))) = Some tgt \<longrightarrow> rt_value tgt \<noteq> v"
    and run: "apply_op c t = (r, t')"
  shows "same_view v t t'"
proof (cases r)
  case (Inl e)
  then show ?thesis
    using apply_op_step [OF run] by (simp add: faulted_same_view)
next
  case (Inr a)
  from step_isolated [OF _ wf] apply_op_step [OF run]
  consider "same_view v t t'" | op e tgt where "mt_ops t op = None" "mt_ops t' op = Some e"
    "co_record_target e = Some tgt" "v \<noteq> rt_value tgt \<longrightarrow> same_view v t t'"
    by blast
  then show ?thesis
  proof cases
    case 2
    have "op_id c = Some op" using apply_op_own_id run Inr 2(1,2) by simp
    from apply_op_committed_by [OF wf this _ 2(2)] run Inr
    have "entry_key e = op_key c" by (simp add: committed_by_def)
    then have "snd (snd (snd (snd (op_key c)))) = Some tgt"
      using 2(3) by (metis entry_key_def snd_conv)
    then show ?thesis using other 2(4) by auto
  qed
qed

section \<open>Streamed text\<close>

text \<open>
  The deltas of one attempt as the model pipeline records them: each call passes the receipt of
  the one before.
\<close>

fun stream_text :: "string \<Rightarrow> int \<Rightarrow> record_target \<Rightarrow> int \<Rightarrow> message_receipt option \<Rightarrow> (string \<times> string) list \<Rightarrow>
    transcript \<Rightarrow> (exn, message_receipt option, transcript) outcome" where
  "stream_text run step tgt attempt prev [] t = (Inr prev, t)"
| "stream_text run step tgt attempt prev ((op, body) # ds) t =
     andthen (record_text_delta run step tgt body op attempt prev t)
       (\<lambda>rc t. stream_text run step tgt attempt (Some rc) ds t)"

lemma delta_first:
  assumes "mt_text_ids t (run, step, rt_value tgt, a) = None" and "mt_ops t op = None" and "op \<notin> mt_fail_ops t"
  defines "i \<equiv> msg_id ''msg'' run (mt_seq t + 1)"
  shows "record_text_delta run step tgt body op a None t =
    (Inr (message_receipt_of i run (Some step) tgt op True),
     store_op op TEXT_DELTA (delta_payload body a) run (Some step) (Some tgt) None
       (Some (message_receipt_of i run (Some step) tgt op True)) [] None
       (text_created (run, step, rt_value tgt, a) tgt (plain_message ASSISTANT (Some body)) i t))"
  using assms
  by (simp add: record_text_delta_def upsert_text_def next_id_def append_message_def check_fail_def Let_def
      text_created_def)

lemma delta_next:
  assumes "mt_text_ids t (run, step, rt_value tgt, a) = Some i" and "mt_messages t i = Some m"
    and "m_message_id m = Some i" and "mt_ops t op = None" and "op \<notin> mt_fail_ops t"
    and "mt_messages t (rc_message_id p) \<noteq> None"
  shows "record_text_delta run step tgt body op a (Some p) t =
    (Inr (message_receipt_of i run (Some step) tgt op False),
     store_op op TEXT_DELTA (delta_payload body a) run (Some step) (Some tgt) (Some (OfMessage p))
       (Some (message_receipt_of i run (Some step) tgt op False)) [] None (put_old i (append_content body m) t))"
  using assms
  by (auto simp: record_text_delta_def upsert_text_def replace_message_def check_fail_def append_content_def Let_def)

lemma stream_text_more:
  assumes "mt_text_ids t (run, step, rt_value tgt, a) = Some i" and "mt_messages t i = Some m"
    and "m_message_id m = Some i" and "m_content m = Some c" and "mt_messages t (rc_message_id p) \<noteq> None"
    and "distinct (map fst ds)" and "\<forall>op \<in> fst ` set ds. mt_ops t op = None \<and> op \<notin> mt_fail_ops t"
    and "rc_message_id p = i"
  shows "\<exists>rc t'. stream_text run step tgt a (Some p) ds t = (Inr (Some rc), t') \<and> rc_message_id rc = i \<and>
    mt_messages t' = (mt_messages t)(i \<mapsto> m\<lparr>m_content := Some (c @ concat (map snd ds))\<rparr>) \<and>
    (\<forall>v. order_of t' v = order_of t v)"
  using assms
proof (induction ds arbitrary: t m c p)
  case Nil
  then have "m\<lparr>m_content := Some (c @ concat (map snd []))\<rparr> = m" by simp
  with Nil show ?case by (auto simp: fun_upd_idem)
next
  case (Cons d ds)
  obtain op body where d: "d = (op, body)" by (cases d)
  let ?m = "append_content body m" and ?rc = "message_receipt_of i run (Some step) tgt op False"
  let ?t = "store_op op TEXT_DELTA (delta_payload body a) run (Some step) (Some tgt) (Some (OfMessage p))
       (Some ?rc) [] None (put_old i ?m t)"
  have first: "record_text_delta run step tgt body op a (Some p) t = (Inr ?rc, ?t)"
    using Cons.prems d by (intro delta_next) auto
  have "\<exists>rc t'. stream_text run step tgt a (Some ?rc) ds ?t = (Inr (Some rc), t') \<and> rc_message_id rc = i \<and>
    mt_messages t' = (mt_messages ?t)(i \<mapsto> ?m\<lparr>m_content := Some ((c @ body) @ concat (map snd ds))\<rparr>) \<and>
    (\<forall>v. order_of t' v = order_of ?t v)"
    using Cons.prems d
    by (intro Cons.IH) (auto simp: append_content_def message_receipt_of_def)
  then obtain rc t' where rest: "stream_text run step tgt a (Some ?rc) ds ?t = (Inr (Some rc), t')"
    and rc: "rc_message_id rc = i"
    and ms: "mt_messages t' = (mt_messages ?t)(i \<mapsto> ?m\<lparr>m_content := Some ((c @ body) @ concat (map snd ds))\<rparr>)"
    and order: "\<forall>v. order_of t' v = order_of ?t v"
    by blast
  have "stream_text run step tgt a (Some p) (d # ds) t = (Inr (Some rc), t')"
    using first rest d by simp
  moreover have "mt_messages t' = (mt_messages t)(i \<mapsto> m\<lparr>m_content := Some (c @ concat (map snd (d # ds)))\<rparr>)"
    unfolding ms using Cons.prems(4) d by (simp add: append_content_def)
  moreover have "\<forall>v. order_of t' v = order_of t v"
    using order by simp
  ultimately show ?case using rc by blast
qed

lemma stream_text_fresh:
  assumes wf: "transcript_wf t" and new: "mt_text_ids t (run, step, rt_value tgt, a) = None"
    and ops: "distinct (map fst ds)" "\<forall>op \<in> fst ` set ds. mt_ops t op = None \<and> op \<notin> mt_fail_ops t"
    and "ds \<noteq> []"
  defines "i \<equiv> msg_id ''msg'' run (mt_seq t + 1)"
  shows "\<exists>rc t'. stream_text run step tgt a None ds t = (Inr (Some rc), t') \<and> rc_message_id rc = i \<and>
    mt_messages t' = (mt_messages t)(i \<mapsto>
      (plain_message ASSISTANT (Some (concat (map snd ds))))\<lparr>m_message_id := Some i\<rparr>) \<and>
    order_of t' (rt_value tgt) = order_of t (rt_value tgt) @ [i] \<and> mt_messages t i = None"
proof -
  from \<open>ds \<noteq> []\<close> obtain op body ds' where ds: "ds = (op, body) # ds'" by (cases ds) auto
  let ?rc = "message_receipt_of i run (Some step) tgt op True"
  let ?m = "(plain_message ASSISTANT (Some body))\<lparr>m_message_id := Some i\<rparr>"
  let ?t = "store_op op TEXT_DELTA (delta_payload body a) run (Some step) (Some tgt) None (Some ?rc) [] None
       (text_created (run, step, rt_value tgt, a) tgt (plain_message ASSISTANT (Some body)) i t)"
  have none: "mt_messages t i = None"
    using fresh_id [of t "mt_seq t + 1" run] wf by (simp add: transcript_wf_def i_def)
  have first: "record_text_delta run step tgt body op a None t = (Inr ?rc, ?t)"
    using delta_first [OF new, of op body] ops ds by (simp add: i_def)
  have "\<exists>rc t'. stream_text run step tgt a (Some ?rc) ds' ?t = (Inr (Some rc), t') \<and> rc_message_id rc = i \<and>
    mt_messages t' = (mt_messages ?t)(i \<mapsto> ?m\<lparr>m_content := Some (body @ concat (map snd ds'))\<rparr>) \<and>
    (\<forall>v. order_of t' v = order_of ?t v)"
    using ops ds by (intro stream_text_more) (auto simp: text_created_def message_receipt_of_def)
  then obtain rc t' where rest: "stream_text run step tgt a (Some ?rc) ds' ?t = (Inr (Some rc), t')"
    and rc: "rc_message_id rc = i"
    and ms: "mt_messages t' = (mt_messages ?t)(i \<mapsto> ?m\<lparr>m_content := Some (body @ concat (map snd ds'))\<rparr>)"
    and order: "order_of t' (rt_value tgt) = order_of ?t (rt_value tgt)"
    by blast
  have m: "?m\<lparr>m_content := Some (body @ concat (map snd ds'))\<rparr> =
      (plain_message ASSISTANT (Some (concat (map snd ds))))\<lparr>m_message_id := Some i\<rparr>"
    by (simp add: plain_message_def ds)
  have "stream_text run step tgt a None ds t = (Inr (Some rc), t')"
    using first rest ds by simp
  moreover have "mt_messages t' = (mt_messages t)(i \<mapsto>
      (plain_message ASSISTANT (Some (concat (map snd ds))))\<lparr>m_message_id := Some i\<rparr>)"
    unfolding ms m by (simp add: text_created_def)
  moreover have "order_of t' (rt_value tgt) = order_of t (rt_value tgt) @ [i]"
    unfolding order by (simp add: text_created_def)
  ultimately show ?thesis using rc none by blast
qed

section \<open>Tool results\<close>

lemma zip_fst: "length is = length rs \<Longrightarrow> map fst (zip is (map2 f rs is)) = is"
  by simp

lemma put_all_lookup:
  assumes "distinct (map fst ims)" and "(i, m) \<in> set ims"
  shows "mt_messages (put_all tgt ims t) i = Some m"
  using assms
proof (induction ims arbitrary: t)
  case (Cons im ims)
  obtain j x where im: "im = (j, x)" by (cases im)
  show ?case
  proof (cases "(i, m) \<in> set ims")
    case True
    then show ?thesis using Cons im by simp
  next
    case False
    then have "i = j" "m = x" using Cons.prems im by auto
    then show ?thesis using Cons.prems im by (simp add: put_all_messages)
  qed
qed simp

text \<open>A successful new recording of results, read off the code.\<close>

lemma record_tool_results_fresh:
  assumes none: "mt_ops t op = None" and run: "record_tool_results run step tgt results op batch t = (Inr rcs, t')"
    and new: "mt_ops t' op \<noteq> None"
  defines "is \<equiv> fresh_ids run (mt_seq t) (length results)"
  obtains stored where
    "Option.bind (mt_ops t (br_logical_op_id batch)) co_batch_receipt = Some stored"
    "br_recording_required stored" "br_calls stored = br_calls batch"
    "br_assistant_message_id stored = br_assistant_message_id batch" "br_record_target stored = tgt"
    "\<forall>r \<in> set results. tr_call_id r \<in> cr_call_id ` set (br_calls batch)"
    "map rc_message_id rcs = is"
    "t' = store_op op TOOL_RESULTS (results_payload results) run (Some step) (Some tgt) (Some (OfBatch batch))
       None rcs None (put_all tgt (zip is (map2 tool_message results is))
         (t\<lparr>mt_seq := mt_seq t + int (length results)\<rparr>))"
proof -
  have ok: "check_fail op t = (Inr (), t)"
    using run by (cases "op \<in> mt_fail_ops t") (simp_all add: record_tool_results_def check_fail_def)
  obtain stored where bind: "Option.bind (mt_ops t (br_logical_op_id batch)) co_batch_receipt = Some stored"
    using run none ok
    by (cases "Option.bind (mt_ops t (br_logical_op_id batch)) co_batch_receipt") (simp_all add: record_tool_results_def)
  note code = run [unfolded record_tool_results_def ok andthen_simps Let_def bind option.case]
  have st: "receipt_identity (Some (OfBatch stored)) = receipt_identity (Some (OfBatch batch))"
    by (rule ccontr) (use code none in simp)
  have same: "br_run_id stored = run" "br_step_no stored = step" "br_record_target stored = tgt"
    by (rule ccontr, use code none st in simp)+
  have req: "br_recording_required stored"
    by (rule ccontr) (use code none st same new in auto)
  have "andthen (pair_results run step tgt op (known_calls stored) results t) (\<lambda>pairs t.
      andthen (append_all tgt (map fst pairs) t) (\<lambda>_ t.
        (Inr (map snd pairs),
         store_op op TOOL_RESULTS (results_payload results) run (Some step) (Some tgt) (Some (OfBatch batch)) None
           (map snd pairs) None t))) = (Inr rcs, t')"
    using code none st same req by simp
  then obtain pairs s where
    ps: "pair_results run step tgt op (known_calls stored) results t = (Inr pairs, s)"
    and rest: "andthen (append_all tgt (map fst pairs) s) (\<lambda>_ t.
        (Inr (map snd pairs),
         store_op op TOOL_RESULTS (results_payload results) run (Some step) (Some tgt) (Some (OfBatch batch)) None
           (map snd pairs) None t)) = (Inr rcs, t')"
    by (rule andthen_InrE)
  from rest obtain u s' where app: "append_all tgt (map fst pairs) s = (Inr u, s')"
    and res: "rcs = map snd pairs"
      "t' = store_op op TOOL_RESULTS (results_payload results) run (Some step) (Some tgt) (Some (OfBatch batch))
         None (map snd pairs) None s'"
    by (rule andthen_InrE) auto
  from pair_results_Inr [OF ps] have s: "s = t\<lparr>mt_seq := mt_seq t + int (length results)\<rparr>"
    and fst: "map fst pairs = map2 tool_message results is"
    and snd: "map snd pairs = map (\<lambda>i. message_receipt_of i run (Some step) tgt op True) is"
    and known: "\<forall>r \<in> set results. known_calls stored (tr_call_id r) \<noteq> None"
    unfolding is_def by (auto simp only: map_fst_map2 map_snd_map2 length_fresh_ids)
  have s': "s' = put_all tgt (zip is (map2 tool_message results is)) s"
    using app append_all_tool_messages [of "is" results tgt s] by (simp add: fst is_def)
  have "tr_call_id r \<in> cr_call_id ` set (br_calls batch)" if "r \<in> set results" for r
  proof -
    from known that obtain c where "map_of (rev (map (\<lambda>c. (cr_call_id c, c)) (br_calls stored))) (tr_call_id r) = Some c"
      by (auto simp: known_calls_def)
    from map_of_SomeD [OF this] have "tr_call_id r \<in> cr_call_id ` set (br_calls stored)" by force
    with st show ?thesis by simp
  qed
  moreover have "map rc_message_id rcs = is"
    unfolding res(1) snd by (simp add: message_receipt_of_def o_def)
  ultimately show ?thesis
    using bind st same(3) req res s s' by (intro that [of stored]) simp_all
qed

section \<open>The transcript as a versioned store\<close>

definition transcript_call :: "transcript \<Rightarrow> transcript \<Rightarrow> bool" where
  "transcript_call t t' \<longleftrightarrow> (\<exists>c. t' = snd (apply_op c t))"

interpretation tv: versioned transcript_call transcript_wf mt_version "\<lambda>t. (mt_messages t, order_of t)"
proof
  fix s s' assume "transcript_call s s'" and wf: "transcript_wf s"
  then obtain c where s': "s' = snd (apply_op c s)" by (auto simp: transcript_call_def)
  show "transcript_wf s'" unfolding s' by (rule apply_op_wf_grows [OF wf])
  have g: "grows s s'" unfolding s' by (rule apply_op_wf_grows [OF wf])
  then show "mt_version s \<le> mt_version s'" by (rule growsD)
  show "mt_version s' = mt_version s \<Longrightarrow> (mt_messages s', order_of s') = (mt_messages s, order_of s)"
    using growsD(7) [OF g] by auto
qed

lemma run_ops_calls: "transcript_call\<^sup>*\<^sup>* t (run_ops cs t)"
proof (induction cs arbitrary: t)
  case (Cons c cs)
  have "transcript_call t (snd (apply_op c t))" by (auto simp: transcript_call_def)
  with Cons show ?case by (auto intro: converse_rtranclp_into_rtranclp)
qed simp

lemma run_ops_wf: "transcript_wf (run_ops cs (new_transcript tools))"
  using tv.runs_inv [OF run_ops_calls] by simp

section \<open>Properties\<close>

text \<open>C28: Every history of calls on a new transcript leaves it well formed: message ids are generated
  once and stored under themselves, each listed id has a message and belongs to one target, the
  text slots name assistant messages of their target, and the receipts of committed operations
  name recorded messages.\<close>

theorem transcript_invariant: "transcript_wf (run_ops cs (new_transcript tools))"
  using run_ops_wf .

text \<open>C10: Histories are append-only.  Later calls of any kind only append ids to the history of a
  target, keep every committed operation as it was, and never change a system, user or tool
  message.\<close>

theorem transcript_append_only:
  "(\<exists>xs. order_of (run_ops (cs @ ds) (new_transcript tools)) v = order_of (run_ops cs (new_transcript tools)) v @ xs) \<and>
   mt_ops (run_ops cs (new_transcript tools)) \<subseteq>\<^sub>m mt_ops (run_ops (cs @ ds) (new_transcript tools)) \<and>
   mt_messages (run_ops cs (new_transcript tools)) |`
     {i. \<exists>m. mt_messages (run_ops cs (new_transcript tools)) i = Some m \<and> m_role m \<noteq> ASSISTANT}
     \<subseteq>\<^sub>m mt_messages (run_ops (cs @ ds) (new_transcript tools))"
proof (intro conjI)
  have g: "grows (run_ops cs (new_transcript tools)) (run_ops (cs @ ds) (new_transcript tools))"
    using run_ops_wf_grows [OF run_ops_wf] by simp
  show "\<exists>xs. order_of (run_ops (cs @ ds) (new_transcript tools)) v = order_of (run_ops cs (new_transcript tools)) v @ xs"
    "mt_ops (run_ops cs (new_transcript tools)) \<subseteq>\<^sub>m mt_ops (run_ops (cs @ ds) (new_transcript tools))"
    using growsD(3,4) [OF g] by auto
  show "mt_messages (run_ops cs (new_transcript tools)) |`
     {i. \<exists>m. mt_messages (run_ops cs (new_transcript tools)) i = Some m \<and> m_role m \<noteq> ASSISTANT}
     \<subseteq>\<^sub>m mt_messages (run_ops (cs @ ds) (new_transcript tools))"
    using growsD(6) [OF g] by (fastforce simp: map_le_def restrict_map_def split: if_splits)
qed

text \<open>A snapshot of a transcript never raises, and its version identifies its contents: two
  snapshots of one target taken at different moments of a history with the same version are
  equal.\<close>

theorem snapshot_version_faithful:
  assumes "snapshot tgt (run_ops cs (new_transcript tools)) = Inr s"
    and "snapshot tgt (run_ops (cs @ ds) (new_transcript tools)) = Inr s'"
    and "tsn_version s = tsn_version s'"
  shows "s = s'"
proof -
  let ?t = "run_ops cs (new_transcript tools)"
  have eq: "mt_version (run_ops ds ?t) = mt_version ?t"
    using assms by (auto simp: snapshot_wf [OF run_ops_wf] simp flip: run_ops_append)
  then have "view tgt (run_ops ds ?t) = view tgt ?t"
    using tv.runs_contents [OF run_ops_calls run_ops_wf eq] by (simp add: view_def)
  with assms eq show ?thesis
    by (auto simp: snapshot_wf [OF run_ops_wf] simp flip: run_ops_append)
qed

text \<open>A call for one target leaves every other target alone: the messages another target shows are
  the same before and after it, whether the call succeeds or fails.\<close>

theorem other_targets_untouched:
  assumes "transcript_wf t" and "v \<notin> rt_value ` set_option (op_target c)"
  shows "order_of (snd (apply_op c t)) v = order_of t v \<and>
    map (mt_messages (snd (apply_op c t))) (order_of (snd (apply_op c t)) v) = map (mt_messages t) (order_of t v)"
proof -
  have "same_view v t (snd (apply_op c t))"
    using assms(2) unfolding op_target_def
    by (intro apply_op_isolated [OF assms(1), of c v "fst (apply_op c t)"]) auto
  then show ?thesis by (simp add: same_view_def)
qed

text \<open>C16: Repetition is idempotent.  A call that succeeded and left its operation id committed can be
  repeated at any later point of the history: it returns the same receipt, marked as not created,
  and changes nothing.\<close>

theorem repetition_idempotent:
  assumes "transcript_wf t" and "apply_op c t = (Inr r, t')" and "op_id c = Some op" and "mt_ops t' op \<noteq> None"
    and "op \<notin> mt_fail_ops (run_ops ds t')"
  shows "apply_op c (run_ops ds t') = (Inr (not_created r), run_ops ds t')"
proof -
  from assms(4) obtain e where e: "mt_ops t' op = Some e" by blast
  have by_c: "committed_by c r e" by (rule apply_op_committed_by [OF assms(1,3,2) e])
  have wf': "transcript_wf t'" using apply_op_wf_grows(1) [OF assms(1), of c] assms(2) by simp
  then have wf: "transcript_wf (run_ops ds t')" and "grows t' (run_ops ds t')"
    using run_ops_wf_grows by auto
  then have later: "mt_ops (run_ops ds t') op = Some e"
    using growsD(4) e by (metis domI map_le_def)
  show ?thesis
    using apply_op_known [OF wf assms(3) later assms(5)] repeat_op_committed [OF by_c later assms(3)] by simp
qed

text \<open>C29: An operation id is bound to its first use.  A call that reuses a committed id with another
  kind, payload, run, step or target raises \<^verbatim>\<open>IdempotencyError\<close> and changes nothing.\<close>

theorem conflicting_reuse_rejected:
  assumes "transcript_wf t" and "op_id c = Some op" and "mt_ops t op = Some e" and "op \<notin> mt_fail_ops t"
    and "entry_key e \<noteq> op_key c"
  shows "\<exists>m. apply_op c t = (Inl (raised IdempotencyError m), t)"
  unfolding apply_op_known [OF assms(1-4)]
  using assms(2,3,5) by (cases c) (auto simp: repeat_op_def replay_def entry_key_def)

text \<open>C30: Errors are recording errors and atomic.  A call that raises on a well-formed transcript
  raises \<^verbatim>\<open>RecordingError\<close> or a subclass, never an assertion or key error, and the messages, the
  histories, the committed operations, the text slots, the run statuses and the version are as
  before.\<close>

theorem failure_atomic:
  assumes "transcript_wf t" and "apply_op c t = (Inl e, t')"
  shows "isinstance_exn e RecordingError \<and> mt_messages t' = mt_messages t \<and> mt_order t' = mt_order t \<and>
    mt_ops t' = mt_ops t \<and> mt_text_ids t' = mt_text_ids t \<and> mt_run_status t' = mt_run_status t \<and>
    mt_version t' = mt_version t"
  using apply_op_step [OF assms(2)] assms(1) by (simp add: recording_failure_def faulted_fields)

text \<open>C31: The text deltas of one attempt, recorded with fresh ids, become one assistant message: it is
  appended to the target's history once, under a new id that every receipt names, and its content
  is the concatenation of the deltas in order; all other messages are as before.\<close>

theorem streamed_text_is_one_message:
  assumes "transcript_wf t" and "mt_text_ids t (run, step, rt_value tgt, a) = None"
    and "distinct (map fst ds)" and "\<forall>op \<in> fst ` set ds. mt_ops t op = None \<and> op \<notin> mt_fail_ops t"
    and "ds \<noteq> []"
  shows "\<exists>i rc t'. stream_text run step tgt a None ds t = (Inr (Some rc), t') \<and> rc_message_id rc = i \<and>
    mt_messages t i = None \<and> order_of t' (rt_value tgt) = order_of t (rt_value tgt) @ [i] \<and>
    mt_messages t' = (mt_messages t)(i \<mapsto>
      (plain_message ASSISTANT (Some (concat (map snd ds))))\<lparr>m_message_id := Some i\<rparr>)"
  using stream_text_fresh [OF assms] by blast

text \<open>C32: Tool results are appended in the order given, one tool message per result under new ids that
  the receipts name, and only for calls of the batch they are recorded against, whose assistant
  message is already in the history of the same target.\<close>

theorem tool_results_follow_their_calls:
  assumes "transcript_wf t" and "mt_ops t op = None"
    and "record_tool_results run step tgt results op batch t = (Inr rcs, t')" and "mt_ops t' op \<noteq> None"
  shows "order_of t' (rt_value tgt) = order_of t (rt_value tgt) @ map rc_message_id rcs \<and>
    map (mt_messages t') (map rc_message_id rcs) =
      map2 (\<lambda>r i. Some (tool_message r i)) results (map rc_message_id rcs) \<and>
    length rcs = length results \<and>
    tr_call_id ` set results \<subseteq> cr_call_id ` set (br_calls batch) \<and>
    (\<exists>i. br_assistant_message_id batch = Some i \<and> i \<in> set (order_of t (rt_value tgt)))"
proof -
  obtain stored where st: "Option.bind (mt_ops t (br_logical_op_id batch)) co_batch_receipt = Some stored"
    "br_recording_required stored" "br_assistant_message_id stored = br_assistant_message_id batch"
    "br_record_target stored = tgt" "\<forall>r \<in> set results. tr_call_id r \<in> cr_call_id ` set (br_calls batch)"
    and ids: "map rc_message_id rcs = fresh_ids run (mt_seq t) (length results)"
    and t': "t' = store_op op TOOL_RESULTS (results_payload results) run (Some step) (Some tgt) (Some (OfBatch batch))
       None rcs None (put_all tgt (zip (fresh_ids run (mt_seq t) (length results))
         (map2 tool_message results (fresh_ids run (mt_seq t) (length results))))
         (t\<lparr>mt_seq := mt_seq t + int (length results)\<rparr>))"
    by (rule record_tool_results_fresh [OF assms(2-4)]) blast
  let ?is = "fresh_ids run (mt_seq t) (length results)"
  have "mt_messages t' (?is ! k) = Some (tool_message (results ! k) (?is ! k))" if "k < length results" for k
    unfolding t' store_op_simps
  proof (rule put_all_lookup)
    show "(?is ! k, tool_message (results ! k) (?is ! k)) \<in> set (zip ?is (map2 tool_message results ?is))"
      using that by (force simp: set_zip)
  qed simp
  then have "map (mt_messages t') ?is = map2 (\<lambda>r i. Some (tool_message r i)) results ?is"
    by (intro nth_equalityI) auto
  moreover obtain c where "mt_ops t (br_logical_op_id batch) = Some c" "co_batch_receipt c = Some stored"
    using st(1) by (auto simp: bind_eq_Some_conv)
  then have "batch_ok t (br_logical_op_id batch) stored"
    using wf_entry [OF assms(1)] by (auto simp: entry_ok_def)
  then have "\<exists>i. br_assistant_message_id batch = Some i \<and> i \<in> set (order_of t (rt_value tgt))"
    using st(2-4) by (auto simp: batch_ok_def)
  moreover have "length rcs = length results"
    using arg_cong [OF ids, of length] by simp
  moreover have "order_of t' (rt_value tgt) = order_of t (rt_value tgt) @ ?is"
    unfolding t' by (simp add: put_all_order)
  ultimately show ?thesis
    using st(5) ids by auto
qed

section \<open>Concrete runs\<close>

definition demo_target :: record_target where
  "demo_target = \<lparr>rt_value = ''chat''\<rparr>"

definition demo_call :: tool_call where
  "demo_call = \<lparr>tc_call_id = ''c1'', tc_name = ''echo'', tc_arguments = []\<rparr>"

definition demo_input :: transcript_op where
  "demo_input = OpInput ''r'' demo_target (plain_message USER (Some ''hi'')) ''r:in''"

definition demo_calls :: transcript_op where
  "demo_calls = OpToolCalls ''r'' 1 demo_target [demo_call] None None ''r:calls'' None 1"

definition demo_transcript :: transcript where
  "demo_transcript = run_ops [demo_input, demo_calls] (new_transcript [])"

definition demo_batch :: batch_receipt where
  "demo_batch = recorded_receipt ''r'' 1 demo_target ''r:calls'' [demo_call] ''msg:r:2''"

definition demo_result :: tool_result where
  "demo_result = \<lparr>tr_call_id = ''c1'', tr_name = ''echo'', tr_output = ''ok'', tr_is_error = False\<rparr>"

lemmas demo_defs = demo_target_def demo_call_def demo_input_def demo_calls_def demo_transcript_def
  demo_batch_def demo_result_def

lemma demo_transcript_wf: "transcript_wf demo_transcript"
  unfolding demo_transcript_def by (rule run_ops_wf)

theorem snapshot_version_faithful_witness:
  "snapshot demo_target (run_ops [demo_input] (new_transcript [])) =
   snapshot demo_target (run_ops ([demo_input] @ [demo_input]) (new_transcript []))"
proof -
  have "mt_version (run_ops [demo_input] (new_transcript [])) = 1"
    "mt_version (run_ops ([demo_input] @ [demo_input]) (new_transcript [])) = 1"
    by code_simp+
  then show ?thesis
    using snapshot_version_faithful [of demo_target "[demo_input]" "[]"] snapshot_wf [OF run_ops_wf]
    by (metis (no_types, lifting) snapshot_version_faithful transcript_snapshot.select_convs(1))
qed

theorem other_targets_untouched_witness:
  "order_of (snd (apply_op demo_input demo_transcript)) ''other'' = order_of demo_transcript ''other''"
  using other_targets_untouched [OF demo_transcript_wf, of "''other''" demo_input]
  by (simp add: op_target_def demo_defs)

theorem repetition_idempotent_witness:
  "apply_op demo_input (run_ops [demo_calls] (snd (apply_op demo_input (new_transcript [])))) =
    (Inr (ReMessage (message_receipt_of ''msg:r:1'' ''r'' None demo_target ''r:in'' False)),
     run_ops [demo_calls] (snd (apply_op demo_input (new_transcript []))))"
proof -
  have "fst (apply_op demo_input (new_transcript [])) =
      Inr (ReMessage (message_receipt_of ''msg:r:1'' ''r'' None demo_target ''r:in'' True))"
    by code_simp
  then have run: "apply_op demo_input (new_transcript []) =
      (Inr (ReMessage (message_receipt_of ''msg:r:1'' ''r'' None demo_target ''r:in'' True)),
       snd (apply_op demo_input (new_transcript [])))"
    by (metis prod.collapse)
  have committed: "mt_ops (snd (apply_op demo_input (new_transcript []))) ''r:in'' \<noteq> None"
    and ok: "''r:in'' \<notin> mt_fail_ops (run_ops [demo_calls] (snd (apply_op demo_input (new_transcript []))))"
    by code_simp+
  have own: "op_id demo_input = Some ''r:in''" by (simp add: demo_input_def)
  have "not_created (ReMessage (message_receipt_of ''msg:r:1'' ''r'' None demo_target ''r:in'' True)) =
      ReMessage (message_receipt_of ''msg:r:1'' ''r'' None demo_target ''r:in'' False)"
    by (simp add: message_receipt_of_def)
  with repetition_idempotent [OF new_transcript_wf run own committed ok] show ?thesis
    by (simp only:)
qed

theorem conflicting_reuse_rejected_witness:
  "\<exists>m. apply_op (OpInput ''r'' demo_target (plain_message USER (Some ''bye'')) ''r:in'') demo_transcript =
     (Inl (raised IdempotencyError m), demo_transcript)"
proof -
  have "map_option entry_key (mt_ops demo_transcript ''r:in'') =
      Some (INPUT, message_key (plain_message USER (Some ''hi'')), Some ''r'', None, Some demo_target)"
    "''r:in'' \<notin> mt_fail_ops demo_transcript"
    by code_simp+
  then obtain e where "mt_ops demo_transcript ''r:in'' = Some e"
    "entry_key e = (INPUT, message_key (plain_message USER (Some ''hi'')), Some ''r'', None, Some demo_target)"
    "''r:in'' \<notin> mt_fail_ops demo_transcript"
    by auto
  then show ?thesis
    by (intro conflicting_reuse_rejected [OF demo_transcript_wf, of _ "''r:in''" e]) (simp_all add: message_key_def)
qed

theorem failure_atomic_witness:
  "mt_version (snd (apply_op demo_input (inject_write_failure ''r:in'' demo_transcript))) = mt_version demo_transcript"
proof -
  let ?t = "inject_write_failure ''r:in'' demo_transcript"
  have "fst (apply_op demo_input ?t) = Inl (raised RecordingError ''injected write failure for r:in'')"
    by code_simp
  then have "apply_op demo_input ?t =
      (Inl (raised RecordingError ''injected write failure for r:in''), snd (apply_op demo_input ?t))"
    by (metis prod.collapse)
  moreover have "transcript_wf ?t"
    using inject_wf_grows [OF demo_transcript_wf] by blast
  ultimately have "mt_version (snd (apply_op demo_input ?t)) = mt_version ?t"
    using failure_atomic by blast
  then show ?thesis by (simp add: inject_write_failure_def)
qed

theorem streamed_text_witness:
  "\<exists>i rc t'. stream_text ''r'' 2 demo_target 1 None [(''d1'', ''Hel''), (''d2'', ''lo'')] demo_transcript = (Inr (Some rc), t') \<and>
    rc_message_id rc = i \<and> mt_messages t' i = Some ((plain_message ASSISTANT (Some ''Hello''))\<lparr>m_message_id := Some i\<rparr>)"
proof -
  have "mt_text_ids demo_transcript (''r'', 2, rt_value demo_target, 1) = None"
    "\<forall>op \<in> fst ` set [(''d1'', ''Hel''), (''d2'', ''lo'')]. mt_ops demo_transcript op = None \<and> op \<notin> mt_fail_ops demo_transcript"
    by code_simp+
  from streamed_text_is_one_message [OF demo_transcript_wf this(1) _ this(2)] show ?thesis by fastforce
qed

theorem tool_results_follow_witness:
  "order_of (snd (record_tool_results ''r'' 1 demo_target [demo_result] ''r:res'' demo_batch demo_transcript)) ''chat'' =
   order_of demo_transcript ''chat'' @ [''msg:r:3'']"
proof -
  let ?r = "record_tool_results ''r'' 1 demo_target [demo_result] ''r:res'' demo_batch demo_transcript"
  have 1: "fst ?r = Inr [message_receipt_of ''msg:r:3'' ''r'' (Some 1) demo_target ''r:res'' True]"
    "mt_ops demo_transcript ''r:res'' = None" "mt_ops (snd ?r) ''r:res'' \<noteq> None"
    by code_simp+
  then have "?r = (Inr [message_receipt_of ''msg:r:3'' ''r'' (Some 1) demo_target ''r:res'' True], snd ?r)"
    by (metis prod.collapse)
  from tool_results_follow_their_calls [OF demo_transcript_wf 1(2) this 1(3)] show ?thesis
    by (simp add: message_receipt_of_def demo_target_def)
qed

text \<open>
  Finalisation keeps the status of the last call that committed: repeating an earlier status is a
  replay and does not restore it.
\<close>

lemma finalize_replay_keeps_later_status:
  "mt_run_status (run_ops [OpFinalize ''r'' FAILED, OpFinalize ''r'' SUCCEEDED, OpFinalize ''r'' FAILED]
     (new_transcript [])) ''r'' = Some SUCCEEDED"
  by code_simp

end
