(* ===== verification/Control.thy ===== *)
theory Control imports Contracts begin

text \<open>
  \<^verbatim>\<open>RunControl\<close> of \<^verbatim>\<open>contracts.py\<close>: the cancel sources of a run and its deadline.  The clock
  \<^verbatim>\<open>time.monotonic()\<close> is an explicit argument \<open>now\<close>; the relation \<open>control_step\<close> interleaves the
  passing of time with the public operations, and the facts hold in every reachable state.
\<close>

section \<open>State and operations\<close>

record run_control =
  ctl_deadline :: "rat option"
  ctl_events :: "stop_reason \<rightharpoonup> bool"
  ctl_first :: "stop_reason option"

definition new_control :: "rat option \<Rightarrow> run_control" where
  "new_control deadline =
     \<lparr>ctl_deadline = deadline,
      ctl_events = [USER_STOP \<mapsto> False, HOST_CANCEL \<mapsto> False, CONSUMER_CLOSED \<mapsto> False, IDLE_TIMEOUT \<mapsto> False],
      ctl_first = None\<rparr>"

definition trigger :: "stop_reason \<Rightarrow> run_control \<Rightarrow> (exn, unit, run_control) outcome" where
  "trigger reason c =
     (case ctl_events c reason of
        None \<Rightarrow> (Inl (raised KeyError (stop_reason_value reason)), c)
      | Some _ \<Rightarrow>
          let c = c\<lparr>ctl_events := (ctl_events c)(reason \<mapsto> True)\<rparr> in
          (Inr (), if ctl_first c = None then c\<lparr>ctl_first := Some reason\<rparr> else c))"

definition request_user_stop :: "run_control \<Rightarrow> (exn, unit, run_control) outcome" where
  "request_user_stop = trigger USER_STOP"

definition request_host_cancel :: "run_control \<Rightarrow> (exn, unit, run_control) outcome" where
  "request_host_cancel = trigger HOST_CANCEL"

definition notify_consumer_closed :: "run_control \<Rightarrow> (exn, unit, run_control) outcome" where
  "notify_consumer_closed = trigger CONSUMER_CLOSED"

definition deadline_monotonic :: "run_control \<Rightarrow> rat option" where
  [simp]: "deadline_monotonic c = ctl_deadline c"

definition arm_deadline :: "rat \<Rightarrow> rat \<Rightarrow> run_control \<Rightarrow> rat \<times> run_control" where
  "arm_deadline now seconds c =
     (case ctl_deadline c of
        None \<Rightarrow> (now + seconds, c\<lparr>ctl_deadline := Some (now + seconds)\<rparr>)
      | Some d \<Rightarrow> (d, c))"

text \<open>A reason without an event, other than the deadline, would be a \<^verbatim>\<open>KeyError\<close>; there is none.\<close>

definition reason_set :: "rat \<Rightarrow> stop_reason \<Rightarrow> run_control \<Rightarrow> bool" where
  "reason_set now reason c =
     (if reason = DEADLINE
      then (case ctl_deadline c of None \<Rightarrow> False | Some d \<Rightarrow> d \<le> now)
      else ctl_events c reason = Some True)"

definition first_reason :: "rat \<Rightarrow> run_control \<Rightarrow> stop_reason option" where
  "first_reason now c =
     (case ctl_first c of
        Some r \<Rightarrow> Some r
      | None \<Rightarrow> if reason_set now DEADLINE c then Some DEADLINE else None)"

definition is_set :: "rat \<Rightarrow> run_control \<Rightarrow> bool" where
  "is_set now c \<longleftrightarrow> first_reason now c \<noteq> None"

definition remaining_seconds :: "rat \<Rightarrow> run_control \<Rightarrow> rat option" where
  "remaining_seconds now c = map_option (\<lambda>d. max 0 (d - now)) (ctl_deadline c)"

text \<open>
  \<^verbatim>\<open>wait\<close> suspends until the next trigger.  The argument \<open>arrival\<close> says when and with which reason
  the first trigger after \<open>now\<close> happens, if it ever does; \<^const>\<open>None\<close> as the result means that the
  call does not return.
\<close>

definition wait_reason :: "rat \<Rightarrow> (rat \<times> stop_reason) option \<Rightarrow> run_control \<Rightarrow> stop_reason option" where
  "wait_reason now arrival c =
     (case first_reason now c of
        Some r \<Rightarrow> Some r
      | None \<Rightarrow>
          (case remaining_seconds now c of
             None \<Rightarrow> map_option snd arrival
           | Some remaining \<Rightarrow>
               (case arrival of
                  Some (arrived, r) \<Rightarrow> if arrived < now + remaining then Some r else Some DEADLINE
                | None \<Rightarrow> Some DEADLINE)))"

section \<open>Histories of a control\<close>

inductive control_step :: "rat \<times> run_control \<Rightarrow> rat \<times> run_control \<Rightarrow> bool" where
  tick: "now \<le> now' \<Longrightarrow> control_step (now, c) (now', c)"
| user_stop: "request_user_stop c = (r, c') \<Longrightarrow> control_step (now, c) (now, c')"
| host_cancel: "request_host_cancel c = (r, c') \<Longrightarrow> control_step (now, c) (now, c')"
| consumer_closed: "notify_consumer_closed c = (r, c') \<Longrightarrow> control_step (now, c) (now, c')"
| arm: "arm_deadline now seconds c = (d, c') \<Longrightarrow> control_step (now, c) (now, c')"

inductive_cases control_stepE: "control_step (now, c) (now', c')"

definition control_wf :: "run_control \<Rightarrow> bool" where
  "control_wf c \<longleftrightarrow>
     dom (ctl_events c) = {USER_STOP, HOST_CANCEL, CONSUMER_CLOSED, IDLE_TIMEOUT} \<and>
     (\<forall>r. ctl_first c = Some r \<longrightarrow> ctl_events c r = Some True) \<and>
     (\<forall>r. ctl_events c r = Some True \<longrightarrow> ctl_first c \<noteq> None)"

lemma new_control_wf [simp]: "control_wf (new_control d)"
  by (auto simp: control_wf_def new_control_def split: if_splits)

lemma trigger_wf:
  assumes "control_wf c" and "r \<noteq> DEADLINE"
  shows "\<exists>c'. trigger r c = (Inr (), c') \<and> control_wf c' \<and> ctl_deadline c' = ctl_deadline c \<and>
    ctl_events c' r = Some True \<and>
    ctl_first c' = (case ctl_first c of None \<Rightarrow> Some r | Some r0 \<Rightarrow> Some r0) \<and>
    (\<forall>r'. ctl_events c r' = Some True \<longrightarrow> ctl_events c' r' = Some True)"
proof -
  from assms have "r \<in> dom (ctl_events c)" by (cases r) (auto simp: control_wf_def)
  then obtain b where "ctl_events c r = Some b" by blast
  then show ?thesis
    using assms(1) by (auto simp: trigger_def control_wf_def Let_def split: option.splits)
qed

text \<open>What one step keeps: a recorded first reason, set events, an armed deadline, past time.\<close>

definition control_le :: "rat \<times> run_control \<Rightarrow> rat \<times> run_control \<Rightarrow> bool" where
  "control_le s s' \<longleftrightarrow>
     fst s \<le> fst s' \<and>
     (ctl_first (snd s) \<noteq> None \<longrightarrow> ctl_first (snd s') = ctl_first (snd s)) \<and>
     (ctl_deadline (snd s) \<noteq> None \<longrightarrow> ctl_deadline (snd s') = ctl_deadline (snd s)) \<and>
     (\<forall>r. ctl_events (snd s) r = Some True \<longrightarrow> ctl_events (snd s') r = Some True)"

lemma trigger_step:
  assumes "trigger r c = (x, c')" and "control_wf c" and "r \<noteq> DEADLINE"
  shows "control_wf c' \<and> control_le (now, c) (now, c')"
  using trigger_wf [OF assms(2,3)] assms(1) by (auto simp: control_le_def)

lemma arm_step:
  assumes "arm_deadline now seconds c = (d, c')" and "control_wf c"
  shows "control_wf c' \<and> control_le (now, c) (now, c')"
proof (cases "ctl_deadline c")
  case None
  then have "c' = c\<lparr>ctl_deadline := Some (now + seconds)\<rparr>" using assms(1) by (auto simp: arm_deadline_def)
  then show ?thesis using assms(2) None by (simp add: control_le_def control_wf_def)
qed (use assms in \<open>simp add: arm_deadline_def control_le_def\<close>)

lemma control_step_wf:
  assumes "control_step (now, c) (now', c')" and "control_wf c"
  shows "control_wf c' \<and> control_le (now, c) (now', c')"
  using assms(1)
proof (rule control_stepE)
  assume "now \<le> now'" "c' = c"
  then show ?thesis using assms(2) by (simp add: control_le_def)
qed (use assms(2) trigger_step arm_step in \<open>auto simp: request_user_stop_def request_host_cancel_def
      notify_consumer_closed_def\<close>)

lemma control_le_trans: "control_le s s' \<Longrightarrow> control_le s' s'' \<Longrightarrow> control_le s s''"
  by (fastforce simp: control_le_def)

lemma control_steps_wf:
  assumes "control_step\<^sup>*\<^sup>* s s'" and "control_wf (snd s)"
  shows "control_wf (snd s') \<and> control_le s s'"
  using assms
proof (induction rule: rtranclp_induct)
  case base
  then show ?case by (simp add: control_le_def)
next
  case (step s' s'')
  then show ?case
    using control_step_wf [of "fst s'" "snd s'" "fst s''" "snd s''"] control_le_trans [of s s' s''] by simp
qed

lemma first_reason_is_set:
  assumes "control_wf c" and "first_reason now c = Some r"
  shows "reason_set now r c"
proof (cases "ctl_first c")
  case None
  with assms(2) show ?thesis by (simp add: first_reason_def split: if_splits)
next
  case (Some r')
  with assms have "ctl_events c r = Some True" by (simp add: first_reason_def control_wf_def)
  moreover from this assms(1) have "r \<noteq> DEADLINE" by (auto simp: control_wf_def)
  ultimately show ?thesis by (simp add: reason_set_def)
qed

lemma reason_set_is_set:
  assumes "control_wf c" and "reason_set now r c"
  shows "is_set now c"
  using assms by (auto simp: is_set_def first_reason_def reason_set_def control_wf_def split: if_splits option.splits)

section \<open>Properties\<close>

text \<open>C38: Stopping is irrevocable: once a control is set, it stays set in every later state, whatever
  operations and however much time follow; and the reason it reports is one that is really set.\<close>

theorem stop_is_irrevocable:
  assumes "control_step\<^sup>*\<^sup>* (now, c) (now', c')" and "control_wf c" and "is_set now c"
  shows "is_set now' c' \<and> (\<exists>r. first_reason now' c' = Some r \<and> reason_set now' r c')"
proof -
  from control_steps_wf [OF assms(1)] assms(2) have wf: "control_wf c'" and le: "control_le (now, c) (now', c')"
    by simp_all
  from assms(3) obtain r where r: "first_reason now c = Some r" by (auto simp: is_set_def)
  have "reason_set now r c" using first_reason_is_set [OF assms(2) r] .
  with le have "reason_set now' r c'"
    by (fastforce simp: control_le_def reason_set_def split: if_splits option.splits)
  then have "is_set now' c'" by (rule reason_set_is_set [OF wf])
  then show ?thesis using first_reason_is_set [OF wf] by (auto simp: is_set_def)
qed

text \<open>A requested reason is reported for good: when the first trigger of a control happens before
  its deadline has passed, every later state reports that reason, also after the deadline and
  after other triggers.\<close>

theorem first_trigger_wins:
  assumes "control_wf c" and "first_reason now c = None" and "r \<noteq> DEADLINE"
    and "trigger r c = (Inr (), c1)" and "control_step\<^sup>*\<^sup>* (now, c1) (now', c')"
  shows "first_reason now' c' = Some r"
proof -
  have "ctl_first c = None" using assms(2) by (simp add: first_reason_def split: option.splits)
  then have "ctl_first c1 = Some r" "control_wf c1"
    using trigger_wf [OF assms(1,3)] assms(4) by auto
  with control_steps_wf [OF assms(5)] show ?thesis
    by (simp add: control_le_def first_reason_def)
qed

text \<open>An armed deadline is never moved: every later call of \<^verbatim>\<open>arm_deadline\<close> returns the armed
  value, and the remaining time never grows.\<close>

theorem deadline_never_extended:
  assumes "control_wf c" and "ctl_deadline c = Some d" and "control_step\<^sup>*\<^sup>* (now, c) (now', c')"
  shows "fst (arm_deadline now' seconds c') = d \<and>
    the (remaining_seconds now' c') \<le> the (remaining_seconds now c) \<and>
    (reason_set now' DEADLINE c' \<longleftrightarrow> remaining_seconds now' c' = Some 0)"
proof -
  from control_steps_wf [OF assms(3)] assms(1,2) have "ctl_deadline c' = Some d" "now \<le> now'"
    by (simp_all add: control_le_def)
  with assms(2) show ?thesis
    by (auto simp: arm_deadline_def remaining_seconds_def reason_set_def max_def)
qed

text \<open>
  The deadline is not recorded as the first reason.  When it has passed and a trigger follows,
  the reported reason changes from the deadline to the trigger.
\<close>

lemma late_trigger_replaces_deadline:
  "first_reason 10 (new_control (Some 5)) = Some DEADLINE"
  "first_reason 10 (snd (request_user_stop (new_control (Some 5)))) = Some USER_STOP"
  by (simp_all add: first_reason_def reason_set_def new_control_def request_user_stop_def trigger_def)

text \<open>\<^verbatim>\<open>wait\<close> returns at once when the control is set, and always when a deadline is armed.\<close>

lemma wait_reason_set: "first_reason now c = Some r \<Longrightarrow> wait_reason now arrival c = Some r"
  by (simp add: wait_reason_def)

lemma wait_reason_deadline: "ctl_deadline c \<noteq> None \<Longrightarrow> wait_reason now arrival c \<noteq> None"
  by (auto simp: wait_reason_def remaining_seconds_def split: option.splits prod.splits)

section \<open>Concrete runs\<close>

lemma demo_steps: "control_step\<^sup>*\<^sup>* (0, snd (request_user_stop (new_control (Some 5)))) (9, snd (request_user_stop (new_control (Some 5))))"
  by (rule r_into_rtranclp) (simp add: control_step.tick)

theorem stop_is_irrevocable_witness: "is_set 9 (snd (request_user_stop (new_control (Some 5))))"
proof -
  have "control_wf (snd (request_user_stop (new_control (Some 5))))"
    using trigger_wf [OF new_control_wf, of USER_STOP "Some 5"] by (auto simp: request_user_stop_def)
  moreover have "is_set 0 (snd (request_user_stop (new_control (Some 5))))"
    by (simp add: is_set_def first_reason_def new_control_def request_user_stop_def trigger_def)
  ultimately show ?thesis using stop_is_irrevocable [OF demo_steps] by simp
qed

theorem first_trigger_wins_witness:
  "first_reason 9 (snd (request_user_stop (new_control (Some 5)))) = Some USER_STOP"
proof -
  have "first_reason 0 (new_control (Some 5)) = None"
    by (simp add: first_reason_def reason_set_def new_control_def)
  moreover have "trigger USER_STOP (new_control (Some 5)) = (Inr (), snd (request_user_stop (new_control (Some 5))))"
    by (simp add: trigger_def request_user_stop_def new_control_def)
  ultimately show ?thesis
    using first_trigger_wins [OF new_control_wf _ _ _ demo_steps] by simp
qed

theorem deadline_never_extended_witness: "fst (arm_deadline 9 100 (new_control (Some 5))) = 5"
proof -
  have "control_step\<^sup>*\<^sup>* (0, new_control (Some 5)) (9, new_control (Some 5))"
    by (rule r_into_rtranclp) (simp add: control_step.tick)
  then show ?thesis
    using deadline_never_extended [OF new_control_wf, of "Some 5" 5 0 9] by (simp add: new_control_def)
qed

end
