(* ===== verification/Application.thy ===== *)
theory Application imports Contracts Versioned begin

text \<open>
  \<^verbatim>\<open>application.py\<close>: the in-memory owner of application snapshots.  A target that was never
  committed to shows version \<^verbatim>\<open>app-1\<close> with an empty payload; every commit publishes the next
  version number.
\<close>

section \<open>State and operations\<close>

record app_state =
  ap_seq :: int
  ap_data :: "string \<rightharpoonup> application_snapshot"
  ap_fail_next :: bool

definition app_version :: "int \<Rightarrow> string" where
  "app_version n = ''app-'' @ int_str n"

definition fresh_snapshot :: "record_target \<Rightarrow> application_snapshot" where
  "fresh_snapshot target = \<lparr>as_version = app_version 1, as_record_target = target, as_payload = []\<rparr>"

definition new_app_state :: "record_target \<Rightarrow> app_state" where
  "new_app_state target =
     \<lparr>ap_seq = 1, ap_data = [rt_value target \<mapsto> fresh_snapshot target], ap_fail_next = False\<rparr>"

definition app_current :: "record_target \<Rightarrow> app_state \<Rightarrow> application_snapshot \<times> app_state" where
  "app_current target a =
     (case ap_data a (rt_value target) of
        None \<Rightarrow>
          let snapshot = fresh_snapshot target
          in (snapshot, a\<lparr>ap_data := (ap_data a)(rt_value target \<mapsto> snapshot)\<rparr>)
      | Some existing \<Rightarrow> (existing, a))"

text \<open>The sequence number is advanced before the payload is frozen, which may raise.\<close>

definition app_commit :: "record_target \<Rightarrow> (mkey \<times> pyobj) list \<Rightarrow> app_state \<Rightarrow>
    (exn, application_snapshot, app_state) outcome" where
  "app_commit target payload a =
     (if ap_fail_next a
      then (Inl (raised RuntimeError ''injected application commit failure''), a\<lparr>ap_fail_next := False\<rparr>)
      else
        let a = a\<lparr>ap_seq := ap_seq a + 1\<rparr> in
        (case freeze_mapping (Some payload) of
           Inl e \<Rightarrow> (Inl e, a)
         | Inr frozen \<Rightarrow>
             let snapshot = \<lparr>as_version = app_version (ap_seq a), as_record_target = target, as_payload = frozen\<rparr>
             in (Inr snapshot, a\<lparr>ap_data := (ap_data a)(rt_value target \<mapsto> snapshot)\<rparr>)))"

section \<open>The store as a versioned store\<close>

inductive app_step :: "app_state \<Rightarrow> app_state \<Rightarrow> bool" where
  step_current: "app_current target a = (snapshot, a') \<Longrightarrow> app_step a a'"
| step_commit: "app_commit target payload a = (r, a') \<Longrightarrow> app_step a a'"
| step_fail_next: "app_step a (a\<lparr>ap_fail_next := True\<rparr>)"

text \<open>The version number of a target, and what a reader of the target sees.\<close>

definition app_wf :: "app_state \<Rightarrow> bool" where
  "app_wf a \<longleftrightarrow> 1 \<le> ap_seq a \<and>
     (\<forall>v x. ap_data a v = Some x \<longrightarrow>
        rt_value (as_record_target x) = v \<and>
        (\<exists>n. as_version x = app_version n \<and> 1 \<le> n \<and> n \<le> ap_seq a \<and> (n = 1 \<longrightarrow> as_payload x = [])))"

definition version_number :: "application_snapshot \<Rightarrow> int" where
  "version_number x = (let s = drop 4 (as_version x) in foldl (\<lambda>n c. 10 * n + (of_char c - 48)) 0 s)"

definition app_rank :: "string \<Rightarrow> app_state \<Rightarrow> int" where
  "app_rank v a = (case ap_data a v of None \<Rightarrow> 1 | Some x \<Rightarrow> version_number x)"

definition app_contents :: "string \<Rightarrow> app_state \<Rightarrow> string \<times> jobj" where
  "app_contents v a =
     (case ap_data a v of None \<Rightarrow> (app_version 1, []) | Some x \<Rightarrow> (as_version x, as_payload x))"

lemma version_number_app: "1 \<le> n \<Longrightarrow> as_version x = app_version n \<Longrightarrow> version_number x = n"
  using parse_nat_str [of "nat n"] by (simp add: version_number_def app_version_def int_str_def Let_def)

lemma app_current_wf:
  assumes "app_current target a = (x, a')" and "app_wf a"
  shows "app_wf a' \<and> (\<forall>v. app_contents v a' = app_contents v a \<and> app_rank v a' = app_rank v a)"
proof (cases "ap_data a (rt_value target)")
  case None
  then have a': "a' = a\<lparr>ap_data := (ap_data a)(rt_value target \<mapsto> fresh_snapshot target)\<rparr>"
    using assms(1) by (auto simp: app_current_def Let_def)
  have "app_wf a'"
    unfolding app_wf_def
  proof (intro conjI allI impI)
    show "1 \<le> ap_seq a'" using assms(2) a' by (simp add: app_wf_def)
    fix v y assume y: "ap_data a' v = Some y"
    show "rt_value (as_record_target y) = v"
      using y a' assms(2) by (auto simp: app_wf_def fresh_snapshot_def split: if_splits)
    show "\<exists>n. as_version y = app_version n \<and> 1 \<le> n \<and> n \<le> ap_seq a' \<and> (n = 1 \<longrightarrow> as_payload y = [])"
    proof (cases "v = rt_value target")
      case True
      then have "y = fresh_snapshot target" "1 \<le> ap_seq a'" using y a' assms(2) by (simp_all add: app_wf_def)
      then show ?thesis by (intro exI [of _ 1]) (simp add: fresh_snapshot_def)
    next
      case False
      then have "ap_data a v = Some y" "ap_seq a' = ap_seq a" using y a' by simp_all
      then show ?thesis using assms(2) unfolding app_wf_def by metis
    qed
  qed
  then show ?thesis
    using a' None version_number_app [of 1 "fresh_snapshot target"]
    by (simp add: app_contents_def app_rank_def fresh_snapshot_def)
next
  case (Some y)
  then show ?thesis using assms by (simp add: app_current_def)
qed

lemma app_seq_wf:
  assumes "app_wf a"
  shows "app_wf (a\<lparr>ap_seq := ap_seq a + 1\<rparr>)"
  using assms by (force simp: app_wf_def)

lemma app_rank_bounds: "app_wf a \<Longrightarrow> 1 \<le> app_rank v a \<and> app_rank v a \<le> ap_seq a"
  using version_number_app by (fastforce simp: app_wf_def app_rank_def split: option.splits)

lemma app_commit_cases:
  assumes "app_commit target payload a = (r, a')"
  obtains (failed) e where "r = Inl e" "ap_data a' = ap_data a" "ap_seq a' = ap_seq a \<or> ap_seq a' = ap_seq a + 1"
    | (committed) x where "r = Inr x" "as_version x = app_version (ap_seq a + 1)" "as_record_target x = target"
        "ap_seq a' = ap_seq a + 1" "ap_data a' = (ap_data a)(rt_value target \<mapsto> x)"
        "freeze_mapping (Some payload) = Inr (as_payload x)"
proof (cases "ap_fail_next a")
  case True
  then show ?thesis using assms failed by (auto simp: app_commit_def)
next
  case False
  show ?thesis
  proof (cases "freeze_mapping (Some payload)")
    case (Inl e)
    then show ?thesis using assms False failed by (auto simp: app_commit_def Let_def)
  next
    case (Inr frozen)
    let ?x = "\<lparr>as_version = app_version (ap_seq a + 1), as_record_target = target, as_payload = frozen\<rparr>"
    have "r = Inr ?x" "a' = a\<lparr>ap_seq := ap_seq a + 1, ap_data := (ap_data a)(rt_value target \<mapsto> ?x)\<rparr>"
      using assms False Inr by (auto simp: app_commit_def Let_def)
    then show ?thesis using Inr by (intro committed [of ?x]) simp_all
  qed
qed

lemma app_commit_wf:
  assumes "app_commit target payload a = (r, a')" and "app_wf a"
  shows "app_wf a' \<and> (\<forall>v. app_rank v a < app_rank v a' \<or>
    app_rank v a' = app_rank v a \<and> app_contents v a' = app_contents v a)"
  using assms(1)
proof (cases rule: app_commit_cases)
  case (failed e)
  have "app_wf a'"
    using assms(2) failed(2,3) by (fastforce simp: app_wf_def)
  then show ?thesis using failed(2) by (simp add: app_rank_def app_contents_def)
next
  case (committed x)
  have seq: "1 \<le> ap_seq a" using assms(2) by (simp add: app_wf_def)
  have "app_wf a'"
    unfolding app_wf_def
  proof (intro conjI allI impI)
    show "1 \<le> ap_seq a'" using seq committed(4) by simp
    fix v y assume y: "ap_data a' v = Some y"
    show "rt_value (as_record_target y) = v"
      using y committed(3,5) assms(2) by (auto simp: app_wf_def split: if_splits)
    show "\<exists>n. as_version y = app_version n \<and> 1 \<le> n \<and> n \<le> ap_seq a' \<and> (n = 1 \<longrightarrow> as_payload y = [])"
    proof (cases "v = rt_value target")
      case True
      then show ?thesis using y committed seq by (intro exI [of _ "ap_seq a + 1"]) simp
    next
      case False
      then have "ap_data a v = Some y" using y committed(5) by simp
      with assms(2) obtain n where "as_version y = app_version n" "1 \<le> n" "n \<le> ap_seq a" "n = 1 \<longrightarrow> as_payload y = []"
        unfolding app_wf_def by blast
      then show ?thesis using committed(4) by (intro exI [of _ n]) simp
    qed
  qed
  moreover have "app_rank v a < app_rank v a' \<or> app_rank v a' = app_rank v a \<and> app_contents v a' = app_contents v a" for v
  proof (cases "v = rt_value target")
    case True
    then have "app_rank v a' = ap_seq a + 1"
      using committed version_number_app [of "ap_seq a + 1" x] seq by (simp add: app_rank_def)
    then show ?thesis using app_rank_bounds [OF assms(2), of v] by simp
  next
    case False
    then show ?thesis using committed(5) by (simp add: app_rank_def app_contents_def)
  qed
  ultimately show ?thesis by blast
qed

interpretation av: versioned app_step app_wf "app_rank v" "app_contents v" for v
proof
  fix a a' assume step: "app_step a a'" and wf: "app_wf a"
  have "app_wf a' \<and> (\<forall>v. app_rank v a < app_rank v a' \<or>
      app_rank v a' = app_rank v a \<and> app_contents v a' = app_contents v a)"
    using step
  proof cases
    case (step_current target x)
    then show ?thesis using app_current_wf [OF step_current wf] by simp
  next
    case (step_commit target payload r)
    then show ?thesis using app_commit_wf [OF step_commit wf] by simp
  next
    case step_fail_next
    then show ?thesis using wf by (simp add: app_wf_def app_rank_def app_contents_def)
  qed
  then show "app_wf a'" "app_rank v a \<le> app_rank v a'"
    "app_rank v a' = app_rank v a \<Longrightarrow> app_contents v a' = app_contents v a"
    by (auto dest: spec [of _ v])
qed

lemma new_app_state_wf [simp]: "app_wf (new_app_state target)"
  by (auto simp: app_wf_def new_app_state_def fresh_snapshot_def split: if_splits)

text \<open>Equal version strings are equal version numbers.\<close>

lemma app_version_rank:
  assumes "app_wf a" and "app_wf a'"
    and "as_version (fst (app_current target a)) = as_version (fst (app_current target a'))"
  shows "app_rank (rt_value target) a = app_rank (rt_value target) a'"
proof -
  have "app_rank (rt_value target) b = version_number (fst (app_current target b))" if "app_wf b" for b
    using that version_number_app [of 1 "fresh_snapshot target"]
    by (auto simp: app_rank_def app_current_def fresh_snapshot_def Let_def split: option.splits)
  then show ?thesis using assms by (simp add: version_number_def)
qed

lemma app_current_contents:
  "app_contents (rt_value target) a = (as_version (fst (app_current target a)), as_payload (fst (app_current target a)))"
  by (simp add: app_contents_def app_current_def fresh_snapshot_def Let_def split: option.splits)

section \<open>Properties\<close>

text \<open>An application version names one payload: when two readings of a target in one history of the
  store show the same version, they show the same payload, and so does every reading in between.\<close>

theorem app_version_names_payload:
  assumes "app_step\<^sup>*\<^sup>* (new_app_state tgt0) a" and "app_step\<^sup>*\<^sup>* a m" and "app_step\<^sup>*\<^sup>* m a'"
    and "as_version (fst (app_current tgt a)) = as_version (fst (app_current tgt a'))"
  shows "as_payload (fst (app_current tgt m)) = as_payload (fst (app_current tgt a))"
proof -
  have wf: "app_wf a" "app_wf m" "app_wf a'"
    using av.runs_inv [OF assms(1)] av.runs_inv [OF assms(2)] av.runs_inv [OF assms(3)] by simp_all
  from av.unchanged_between [OF assms(2,3) wf(1) app_version_rank [OF wf(3,1) assms(4) [symmetric]]]
  show ?thesis by (simp add: app_current_contents)
qed

text \<open>A commit publishes exactly what it was given: it returns a snapshot of the frozen payload under
  a version no snapshot of the store had before, every later reading of the target returns that
  snapshot until the next commit, and other targets keep theirs; a failed commit publishes
  nothing.\<close>

theorem app_commit_publishes:
  assumes "app_wf a" and "app_commit tgt payload a = (r, a')"
  shows "(case r of
       Inl e \<Rightarrow> ap_data a' = ap_data a
     | Inr x \<Rightarrow> freeze_mapping (Some payload) = Inr (as_payload x) \<and> fst (app_current tgt a') = x \<and>
         as_version x \<notin> as_version ` ran (ap_data a) \<and>
         ap_data a' |` (- {rt_value tgt}) = ap_data a |` (- {rt_value tgt}))"
  using assms(2)
proof (cases rule: app_commit_cases)
  case (committed x)
  have "as_version x \<noteq> as_version y" if "ap_data a v = Some y" for v y
  proof -
    from assms(1) that obtain n where "as_version y = app_version n" "n \<le> ap_seq a"
      by (auto simp: app_wf_def)
    then show ?thesis using committed(2) by (auto simp: app_version_def)
  qed
  then show ?thesis
    using committed by (auto simp: app_current_def ran_def restrict_map_def fun_eq_iff)
qed simp

definition demo_app :: app_state where
  "demo_app = new_app_state \<lparr>rt_value = ''chat''\<rparr>"

theorem app_commit_publishes_witness:
  "fst (app_current \<lparr>rt_value = ''chat''\<rparr> (snd (app_commit \<lparr>rt_value = ''chat''\<rparr> [(MkStr ''k'', PyInt 1)] demo_app))) =
    \<lparr>as_version = ''app-2'', as_record_target = \<lparr>rt_value = ''chat''\<rparr>, as_payload = [(''k'', JInt 1)]\<rparr>"
proof -
  let ?r = "app_commit \<lparr>rt_value = ''chat''\<rparr> [(MkStr ''k'', PyInt 1)] demo_app"
  have "fst ?r = Inr \<lparr>as_version = ''app-2'', as_record_target = \<lparr>rt_value = ''chat''\<rparr>, as_payload = [(''k'', JInt 1)]\<rparr>"
    by code_simp
  then have "?r = (Inr \<lparr>as_version = ''app-2'', as_record_target = \<lparr>rt_value = ''chat''\<rparr>, as_payload = [(''k'', JInt 1)]\<rparr>, snd ?r)"
    by (metis prod.collapse)
  moreover have "app_wf demo_app" by (simp add: demo_app_def)
  ultimately show ?thesis using app_commit_publishes by fastforce
qed

theorem app_version_names_payload_witness:
  "as_payload (fst (app_current \<lparr>rt_value = ''chat''\<rparr> (snd (app_current \<lparr>rt_value = ''other''\<rparr> demo_app)))) = []"
proof -
  have run: "app_step\<^sup>*\<^sup>* demo_app (snd (app_current \<lparr>rt_value = ''other''\<rparr> demo_app))"
    by (rule r_into_rtranclp) (rule app_step.step_current [OF surjective_pairing])
  have "as_payload (fst (app_current \<lparr>rt_value = ''chat''\<rparr> (snd (app_current \<lparr>rt_value = ''other''\<rparr> demo_app)))) =
      as_payload (fst (app_current \<lparr>rt_value = ''chat''\<rparr> demo_app))"
    using app_version_names_payload [of "\<lparr>rt_value = ''chat''\<rparr>" demo_app _ _ "\<lparr>rt_value = ''chat''\<rparr>", OF _ run]
    by (simp add: demo_app_def new_app_state_def app_current_def Let_def)
  then show ?thesis by (simp add: demo_app_def new_app_state_def app_current_def fresh_snapshot_def)
qed

end
