(* ===== verification/Capabilities.thy ===== *)
theory Capabilities imports Contracts Versioned begin

text \<open>
  \<^verbatim>\<open>capabilities/schema.py\<close> and \<^verbatim>\<open>capabilities/providers.py\<close>: schema checks, versioned execution
  bindings, providers and resolver chains, and the capability session of a run.  The validators of
  the \<^verbatim>\<open>jsonschema\<close> package are the parameter \<open>json_validator\<close>.
\<close>

section \<open>Schema checks\<close>

datatype validation_failure = Unresolvable string | Invalid string

record json_validator =
  jv_check_schema :: "pyobj \<Rightarrow> string option"
  jv_validate :: "(string \<times> pyobj) list \<Rightarrow> pyobj \<Rightarrow> pyobj \<Rightarrow> validation_failure option"

definition SUPPORTED_DIALECTS :: "string list" where
  "SUPPORTED_DIALECTS =
     [''https://json-schema.org/draft/2020-12/schema'', ''http://json-schema.org/draft/2020-12/schema'']"

definition DEFAULT_DIALECT :: string where
  "DEFAULT_DIALECT = ''https://json-schema.org/draft/2020-12/schema''"

definition as_dict :: "jvalue \<Rightarrow> exn + (mkey \<times> pyobj) list" where
  "as_dict schema =
     (case thaw_json schema of
        PyDict kvs \<Rightarrow> Inr kvs
      | _ \<Rightarrow> Inl (raised SchemaValidationError ''schema must be a JSON object''))"

definition dialect_of :: "(mkey \<times> pyobj) list \<Rightarrow> exn + string" where
  "dialect_of schema =
     (case map_of schema (MkStr ''$schema'') of
        None \<Rightarrow> Inr DEFAULT_DIALECT
      | Some PyNone \<Rightarrow> Inr DEFAULT_DIALECT
      | Some (PyStr s) \<Rightarrow> Inr s
      | Some _ \<Rightarrow> Inl (raised SchemaValidationError ''$schema must be a string''))"

definition assert_supported_schema :: "json_validator \<Rightarrow> jvalue \<Rightarrow> exn + unit" where
  "assert_supported_schema jv schema =
     (case as_dict schema of
        Inl e \<Rightarrow> Inl e
      | Inr material \<Rightarrow>
          (case dialect_of material of
             Inl e \<Rightarrow> Inl e
           | Inr dialect \<Rightarrow>
               if dialect \<notin> set SUPPORTED_DIALECTS
               then Inl (raised SchemaValidationError (''unsupported JSON Schema dialect: '' @ dialect))
               else
                 (case jv_check_schema jv (PyDict material) of
                    Some msg \<Rightarrow> Inl (raised_from SchemaValidationError msg (raised Exception msg))
                  | None \<Rightarrow> Inr ())))"

definition memory_registry :: "(string \<times> jvalue) list \<Rightarrow> exn + (string \<times> pyobj) list" where
  "memory_registry schemas =
     map_result (\<lambda>(uri, schema). case as_dict schema of Inl e \<Rightarrow> Inl e | Inr d \<Rightarrow> Inr (uri, PyDict d)) schemas"

text \<open>The second check of the schema is on the thawed copy, which thaws to itself.\<close>

definition validate_instance :: "json_validator \<Rightarrow> jvalue \<Rightarrow> pyobj \<Rightarrow> (string \<times> pyobj) list option \<Rightarrow> exn + unit" where
  "validate_instance jv schema inst registry =
     (case as_dict schema of
        Inl e \<Rightarrow> Inl e
      | Inr material \<Rightarrow>
          (case assert_supported_schema jv schema of
             Inl e \<Rightarrow> Inl e
           | Inr _ \<Rightarrow>
               (case (case registry of Some r \<Rightarrow> Inr r | None \<Rightarrow> memory_registry []) of
                  Inl e \<Rightarrow> Inl e
                | Inr resolver \<Rightarrow>
                    (case jv_validate jv resolver (PyDict material) inst of
                       None \<Rightarrow> Inr ()
                     | Some (Unresolvable msg) \<Rightarrow>
                         Inl (raised_from SchemaValidationError (''schema $ref is not available in memory: '' @ msg)
                                (raised Exception msg))
                     | Some (Invalid msg) \<Rightarrow>
                         Inl (raised_from SchemaValidationError msg (raised Exception msg))))))"

definition check_tool_spec :: "json_validator \<Rightarrow> tool_spec \<Rightarrow> exn + unit" where
  "check_tool_spec jv spec = assert_supported_schema jv (JObj (ts_parameters spec))"

text \<open>\<^verbatim>\<open>dict(call.arguments)\<close> copies the outermost level only; nested values stay frozen.\<close>

definition instance_of_arguments :: "jobj \<Rightarrow> pyobj" where
  "instance_of_arguments args = PyDict (map (\<lambda>kv. (MkStr (fst kv), held_json (snd kv))) args)"

definition validate_tool_call :: "json_validator \<Rightarrow> tool_spec \<Rightarrow> tool_call \<Rightarrow> (string \<times> pyobj) list option \<Rightarrow> exn + unit" where
  "validate_tool_call jv spec call registry =
     (case check_tool_spec jv spec of
        Inl e \<Rightarrow> Inl e
      | Inr _ \<Rightarrow>
          validate_instance jv (JObj (ts_parameters spec)) (instance_of_arguments (tc_arguments call)) registry)"

fun check_specs :: "json_validator \<Rightarrow> tool_spec list \<Rightarrow> exn + unit" where
  "check_specs jv [] = Inr ()"
| "check_specs jv (spec # specs) =
     (case check_tool_spec jv spec of Inl e \<Rightarrow> Inl e | Inr _ \<Rightarrow> check_specs jv specs)"

section \<open>Binding registries\<close>

type_synonym bindings = "string \<rightharpoonup> string"

record binding_registry =
  bg_versions :: "string \<rightharpoonup> bindings"
  bg_seq :: int

definition new_registry :: binding_registry where
  "new_registry = \<lparr>bg_versions = Map.empty, bg_seq = 0\<rparr>"

definition bind_version :: "int \<Rightarrow> string" where
  "bind_version n = ''bind-'' @ int_str n"

definition publish_bindings :: "bindings \<Rightarrow> binding_registry \<Rightarrow> binding_set_ref \<times> binding_registry" where
  "publish_bindings table r =
     (let r = r\<lparr>bg_seq := bg_seq r + 1\<rparr>; version = bind_version (bg_seq r) in
      (\<lparr>bs_version = version\<rparr>, r\<lparr>bg_versions := (bg_versions r)(version \<mapsto> table)\<rparr>))"

definition resolve_binding :: "binding_set_ref \<Rightarrow> string \<Rightarrow> binding_registry \<Rightarrow> exn + string" where
  "resolve_binding ref tool_name r =
     (case Option.bind (bg_versions r (bs_version ref)) (\<lambda>table. table tool_name) of
        None \<Rightarrow> Inl (raised CapabilityError (''no execution binding for '' @ tool_name @ '' in '' @ bs_version ref))
      | Some key \<Rightarrow> Inr key)"

definition binding_names :: "binding_set_ref \<Rightarrow> binding_registry \<Rightarrow> string set" where
  "binding_names ref r = (case bg_versions r (bs_version ref) of None \<Rightarrow> {} | Some table \<Rightarrow> dom table)"

definition binding_mapping :: "binding_set_ref \<Rightarrow> binding_registry \<Rightarrow> exn + bindings" where
  "binding_mapping ref r =
     (case bg_versions r (bs_version ref) of
        None \<Rightarrow> Inl (raised CapabilityError (''unknown binding set '' @ bs_version ref))
      | Some table \<Rightarrow> Inr table)"

section \<open>Providers\<close>

definition spec_bindings :: "(string \<Rightarrow> string) \<Rightarrow> tool_spec list \<Rightarrow> bindings" where
  "spec_bindings key specs = map_of (rev (map (\<lambda>spec. (ts_name spec, key (ts_name spec))) specs))"

text \<open>\<^verbatim>\<open>FixedCapabilityProvider.__init__\<close>: the snapshot that every \<^verbatim>\<open>resolve\<close> returns.\<close>

definition fixed_provider :: "json_validator \<Rightarrow> tool_spec list \<Rightarrow> string \<Rightarrow> context_contribution list \<Rightarrow>
    binding_registry \<Rightarrow> (exn, capability_snapshot, binding_registry) outcome" where
  "fixed_provider jv tools invoker_key contributions r =
     (case check_specs jv tools of
        Inl e \<Rightarrow> (Inl e, r)
      | Inr _ \<Rightarrow>
          let (ref, r) = publish_bindings (spec_bindings (\<lambda>_. invoker_key) tools) r in
          (Inr \<lparr>cs_version = ''cap-1'', cs_tools = tools, cs_binding_ref = ref, cs_contributions = contributions,
                cs_policy_ref = \<lparr>cp_version = ''fixed''\<rparr>\<rparr>, r))"

definition fixed_resolve :: "capability_snapshot \<Rightarrow> run_request \<Rightarrow> application_snapshot \<Rightarrow> exn + resolution" where
  "fixed_resolve snapshot request application =
     Inr \<lparr>res_kind = MATCHED, res_snapshot = Some snapshot, res_reason = None\<rparr>"

text \<open>
  Registries are shared objects; a chain compares them by identity.  They live in a store under
  numbers, and a provider that is a \<^verbatim>\<open>BindingSource\<close> names its registry.
\<close>

type_synonym registries = "nat \<Rightarrow> binding_registry"

record provider =
  pv_resolve :: "run_request \<Rightarrow> application_snapshot \<Rightarrow> exn + resolution"
  pv_registry :: "nat option"

definition chain_registry :: "nat option \<Rightarrow> provider list \<Rightarrow> nat \<Rightarrow> nat" where
  "chain_registry explicit providers fresh =
     (case explicit of
        Some r \<Rightarrow> r
      | None \<Rightarrow>
          (case List.find (\<lambda>p. pv_registry p \<noteq> None) providers of
             Some p \<Rightarrow> the (pv_registry p)
           | None \<Rightarrow> fresh))"

definition adopt_bindings :: "nat \<Rightarrow> provider \<Rightarrow> resolution \<Rightarrow> registries \<Rightarrow> (exn, resolution, registries) outcome" where
  "adopt_bindings own p result rs =
     (case (res_snapshot result, pv_registry p) of
        (Some snapshot, Some source) \<Rightarrow>
          if source \<noteq> own
          then
            (case binding_mapping (cs_binding_ref snapshot) (rs source) of
               Inl e \<Rightarrow> (Inl e, rs)
             | Inr table \<Rightarrow>
                 let (ref, r) = publish_bindings table (rs own) in
                 (Inr (result\<lparr>res_snapshot := Some (snapshot\<lparr>cs_binding_ref := ref\<rparr>)\<rparr>), rs(own := r)))
          else (Inr result, rs)
      | _ \<Rightarrow> (Inr result, rs))"

fun chain_loop :: "nat \<Rightarrow> resolution \<Rightarrow> provider list \<Rightarrow> run_request \<Rightarrow> application_snapshot \<Rightarrow> registries \<Rightarrow>
    (exn, resolution, registries) outcome" where
  "chain_loop own last_result [] request application rs = (Inr last_result, rs)"
| "chain_loop own last_result (p # ps) request application rs =
     (case pv_resolve p request application of
        Inl e \<Rightarrow> (Inl e, rs)
      | Inr result \<Rightarrow>
          if res_kind result = NO_MATCH then chain_loop own result ps request application rs
          else adopt_bindings own p result rs)"

definition chain_resolve :: "nat \<Rightarrow> provider list \<Rightarrow> run_request \<Rightarrow> application_snapshot \<Rightarrow> registries \<Rightarrow>
    (exn, resolution, registries) outcome" where
  "chain_resolve own providers request application rs =
     chain_loop own \<lparr>res_kind = NO_MATCH, res_snapshot = None, res_reason = Some ''empty chain''\<rparr> providers
       request application rs"

text \<open>\<^verbatim>\<open>accept_resolution\<close> of \<^verbatim>\<open>runner.py\<close>: only a match or a degraded match starts a run.\<close>

definition accept_resolution :: "resolution \<Rightarrow> exn + capability_snapshot" where
  "accept_resolution r =
     (if res_kind r = MATCHED \<or> res_kind r = DEGRADED
      then
        (case res_snapshot r of
           None \<Rightarrow> Inl (raised CapabilityError
                     (match_kind_value (res_kind r) @ '' resolution carried no capability snapshot''))
         | Some snapshot \<Rightarrow> Inr snapshot)
      else
        Inl (raised CapabilityError
          (''capability resolution '' @ match_kind_value (res_kind r) @ '': '' @
           (case res_reason r of Some s \<Rightarrow> (if s = [] then ''no reason given'' else s)
            | None \<Rightarrow> ''no reason given''))))"

section \<open>Capability sessions\<close>

record cap_session =
  cse_current :: capability_snapshot
  cse_seq :: int

definition new_session :: "capability_snapshot \<Rightarrow> cap_session" where
  "new_session initial = \<lparr>cse_current = initial, cse_seq = 1\<rparr>"

definition cap_version :: "int \<Rightarrow> string" where
  "cap_version n = ''cap-'' @ int_str n"

text \<open>The state of a session's operations: the session and the registry it publishes to.\<close>

definition publish_tools :: "json_validator \<Rightarrow> tool_spec list \<Rightarrow> bindings option \<Rightarrow> context_contribution list option \<Rightarrow>
    cap_session \<times> binding_registry \<Rightarrow> (exn, capability_snapshot, cap_session \<times> binding_registry) outcome" where
  "publish_tools jv tools extra contributions st =
     (case check_specs jv tools of
        Inl e \<Rightarrow> (Inl e, st)
      | Inr _ \<Rightarrow>
          let (s, r) = st in
          (case binding_mapping (cs_binding_ref (cse_current s)) r of
             Inl e \<Rightarrow> (Inl e, st)
           | Inr previous \<Rightarrow>
               let table = spec_bindings (\<lambda>name. case previous name of None \<Rightarrow> ''default'' | Some key \<Rightarrow> key) tools;
                   table = (case extra of None \<Rightarrow> table | Some added \<Rightarrow> table ++ added);
                   (ref, r) = publish_bindings table r;
                   s = s\<lparr>cse_seq := cse_seq s + 1\<rparr>;
                   snapshot = (cse_current s)\<lparr>cs_version := cap_version (cse_seq s), cs_tools := tools,
                     cs_binding_ref := ref,
                     cs_contributions := (case contributions of None \<Rightarrow> cs_contributions (cse_current s) | Some cs \<Rightarrow> cs)\<rparr>
               in (Inr snapshot, (s\<lparr>cse_current := snapshot\<rparr>, r))))"

definition activated_tools :: "tool_spec list \<Rightarrow> tool_spec list \<Rightarrow> tool_spec list" where
  "activated_tools current extra =
     map snd (dict_of (map (\<lambda>spec. (ts_name spec, spec)) (current @ extra)))"

definition activate :: "json_validator \<Rightarrow> tool_spec list \<Rightarrow> cap_session \<times> binding_registry \<Rightarrow>
    (exn, capability_snapshot, cap_session \<times> binding_registry) outcome" where
  "activate jv extra st =
     publish_tools jv (activated_tools (cs_tools (cse_current (fst st))) extra) None None st"

section \<open>Facts about registries\<close>

definition registry_wf :: "binding_registry \<Rightarrow> bool" where
  "registry_wf r \<longleftrightarrow> 0 \<le> bg_seq r \<and> dom (bg_versions r) = bind_version ` {1..bg_seq r}"

text \<open>No table of the old registry is lost or changed in the new one.\<close>

definition registry_le :: "binding_registry \<Rightarrow> binding_registry \<Rightarrow> bool" where
  "registry_le r r' \<longleftrightarrow> bg_versions r \<subseteq>\<^sub>m bg_versions r'"

lemma new_registry_wf [simp]: "registry_wf new_registry"
  by (simp add: registry_wf_def new_registry_def)

lemma bind_version_eq [simp]: "bind_version m = bind_version n \<longleftrightarrow> m = n"
  by (simp add: bind_version_def)

lemma publish_bindings_facts:
  assumes "publish_bindings table r = (ref, r')" and "registry_wf r"
  shows "registry_wf r'" "registry_le r r'" "bg_versions r (bs_version ref) = None"
    "bg_versions r' (bs_version ref) = Some table"
    "bg_versions r' = (bg_versions r)(bs_version ref \<mapsto> table)"
proof -
  have r': "r' = r\<lparr>bg_seq := bg_seq r + 1, bg_versions := (bg_versions r)(bind_version (bg_seq r + 1) \<mapsto> table)\<rparr>"
    and ref: "bs_version ref = bind_version (bg_seq r + 1)"
    using assms(1) by (auto simp: publish_bindings_def Let_def)
  show none: "bg_versions r (bs_version ref) = None"
  proof (rule ccontr)
    assume "bg_versions r (bs_version ref) \<noteq> None"
    then have "bind_version (bg_seq r + 1) \<in> bind_version ` {1..bg_seq r}"
      using assms(2) ref by (auto simp: registry_wf_def)
    then show False by auto
  qed
  show "bg_versions r' = (bg_versions r)(bs_version ref \<mapsto> table)" "bg_versions r' (bs_version ref) = Some table"
    using r' ref by simp_all
  show "registry_le r r'" using none r' ref by (auto simp: registry_le_def map_le_def)
  have "{1..bg_seq r + 1} = insert (bg_seq r + 1) {1..bg_seq r}" if "0 \<le> bg_seq r" using that by auto
  then show "registry_wf r'" using assms(2) r' by (auto simp: registry_wf_def)
qed

lemma registry_le_resolve:
  assumes "registry_le r r'" and "resolve_binding ref name r = Inr key"
  shows "resolve_binding ref name r' = Inr key"
proof -
  from assms(2) obtain table where "bg_versions r (bs_version ref) = Some table" "table name = Some key"
    by (auto simp: resolve_binding_def bind_eq_Some_conv split: option.splits)
  moreover from this assms(1) have "bg_versions r' (bs_version ref) = Some table"
    by (metis domI map_le_def registry_le_def)
  ultimately show ?thesis by (simp add: resolve_binding_def)
qed

lemma spec_bindings_dom: "dom (spec_bindings key specs) = ts_name ` set specs"
  by (force simp: spec_bindings_def dom_map_of_conv_image_fst)

lemma spec_bindings_Some: "name \<in> ts_name ` set specs \<Longrightarrow> spec_bindings key specs name = Some (key name)"
proof -
  assume "name \<in> ts_name ` set specs"
  then have "name \<in> dom (spec_bindings key specs)" by (simp add: spec_bindings_dom)
  then obtain k where "spec_bindings key specs name = Some k" by blast
  moreover from this have "k = key name" by (auto simp: spec_bindings_def dest!: map_of_SomeD)
  ultimately show ?thesis by simp
qed

lemma activated_tools_distinct: "distinct (map ts_name (activated_tools current extra))"
proof -
  have *: "\<forall>kv \<in> set (dict_of (map (\<lambda>spec. (ts_name spec, spec)) specs)). fst kv = ts_name (snd kv)"
    for specs :: "tool_spec list"
    using set_dict_of [of "map (\<lambda>spec. (ts_name spec, spec)) specs"] by auto
  let ?d = "dict_of (map (\<lambda>spec. (ts_name spec, spec)) (current @ extra))"
  have "map ts_name (map snd ?d) = map fst ?d"
    using * [of "current @ extra"] by (auto intro!: map_cong)
  then show ?thesis unfolding activated_tools_def by (metis distinct_dict_of)
qed

lemma activated_tools_names: "ts_name ` set (activated_tools current extra) = ts_name ` set (current @ extra)"
proof -
  let ?kvs = "map (\<lambda>spec. (ts_name spec, spec)) (current @ extra)"
  have 1: "\<exists>v \<in> set (activated_tools current extra). ts_name v = n" if "n \<in> ts_name ` set (current @ extra)" for n
  proof -
    from that have "map_of (rev ?kvs) n \<noteq> None" unfolding map_of_eq_None_iff by force
    then obtain v where v: "map_of (dict_of ?kvs) n = Some v" unfolding map_of_dict_of by blast
    then have "map_of (rev ?kvs) n = Some v" unfolding map_of_dict_of .
    from map_of_SomeD [OF this] have "ts_name v = n" by auto
    moreover have "v \<in> set (activated_tools current extra)"
      using map_of_SomeD [OF v] by (force simp: activated_tools_def)
    ultimately show ?thesis by blast
  qed
  have 2: "ts_name v \<in> ts_name ` set (current @ extra)" if "v \<in> set (activated_tools current extra)" for v
  proof -
    from that obtain kv where "kv \<in> set (dict_of ?kvs)" "v = snd kv" unfolding activated_tools_def set_map by blast
    moreover from this(1) have "kv \<in> set ?kvs" using set_dict_of [of ?kvs] by (rule set_mp [rotated])
    then obtain spec where "kv = (ts_name spec, spec)" "spec \<in> set (current @ extra)" unfolding set_map by blast
    ultimately have "v \<in> set (current @ extra)" by simp
    then show ?thesis by (rule imageI)
  qed
  show ?thesis
  proof (rule equalityI)
    show "ts_name ` set (activated_tools current extra) \<subseteq> ts_name ` set (current @ extra)"
      using 2 by (rule image_subsetI)
    show "ts_name ` set (current @ extra) \<subseteq> ts_name ` set (activated_tools current extra)"
      by (rule subsetI) (use 1 in \<open>metis imageI\<close>)
  qed
qed

section \<open>Facts about sessions\<close>

lemma publish_tools_cases:
  assumes "publish_tools jv tools extra contributions (s, r) = (x, st')"
  obtains (failed) e where "x = Inl e" "st' = (s, r)"
    | (published) previous ref r' snapshot where
        "x = Inr snapshot" "binding_mapping (cs_binding_ref (cse_current s)) r = Inr previous"
        "publish_bindings
           (let table = spec_bindings (\<lambda>name. case previous name of None \<Rightarrow> ''default'' | Some key \<Rightarrow> key) tools
            in case extra of None \<Rightarrow> table | Some added \<Rightarrow> table ++ added) r = (ref, r')"
        "st' = (\<lparr>cse_current = snapshot, cse_seq = cse_seq s + 1\<rparr>, r')"
        "cs_version snapshot = cap_version (cse_seq s + 1)" "cs_tools snapshot = tools" "cs_binding_ref snapshot = ref"
  using assms
  by (auto simp: publish_tools_def Let_def split: sum.splits prod.splits)

definition session_wf :: "cap_session \<times> binding_registry \<Rightarrow> bool" where
  "session_wf st \<longleftrightarrow>
     registry_wf (snd st) \<and> 1 \<le> cse_seq (fst st) \<and>
     (cse_seq (fst st) = 1 \<and> (\<forall>n \<ge> 2. cs_version (cse_current (fst st)) \<noteq> cap_version n) \<or>
      cs_version (cse_current (fst st)) = cap_version (cse_seq (fst st)) \<and> 2 \<le> cse_seq (fst st))"

inductive session_step :: "json_validator \<Rightarrow> cap_session \<times> binding_registry \<Rightarrow> cap_session \<times> binding_registry \<Rightarrow> bool"
  for jv where
  step_publish: "publish_tools jv tools extra contributions st = (x, st') \<Longrightarrow> session_step jv st st'"
| step_activate: "activate jv specs st = (x, st') \<Longrightarrow> session_step jv st st'"

lemma session_step_publish:
  assumes "session_step jv st st'"
  obtains tools extra contributions x where "publish_tools jv tools extra contributions st = (x, st')"
  using assms by cases (auto simp: activate_def)

lemma session_step_facts:
  assumes "session_step jv st st'" and "session_wf st"
  shows "session_wf st' \<and> registry_le (snd st) (snd st') \<and>
    (st' = st \<or> cse_seq (fst st) < cse_seq (fst st'))"
proof -
  obtain s r where st: "st = (s, r)" by (cases st)
  obtain tools extra contributions x where "publish_tools jv tools extra contributions (s, r) = (x, st')"
    using session_step_publish [OF assms(1)] st by blast
  then show ?thesis
  proof (cases rule: publish_tools_cases)
    case (failed e)
    then show ?thesis using assms(2) st by (simp add: registry_le_def)
  next
    case (published previous ref r' snapshot)
    then show ?thesis
      using publish_bindings_facts(1,2) [OF published(3)] assms(2) st by (auto simp: session_wf_def)
  qed
qed

interpretation sv: versioned "session_step jv" session_wf "\<lambda>st. cse_seq (fst st)" "\<lambda>st. cse_current (fst st)" for jv
proof
  fix st st' assume "session_step jv st st'" and "session_wf st"
  from session_step_facts [OF this]
  show "session_wf st'" "cse_seq (fst st) \<le> cse_seq (fst st')"
    "cse_seq (fst st') = cse_seq (fst st) \<Longrightarrow> cse_current (fst st') = cse_current (fst st)"
    by auto
qed

lemma cap_version_eq [simp]: "cap_version m = cap_version n \<longleftrightarrow> m = n"
  by (simp add: cap_version_def)

text \<open>Under the invariant the version string determines the sequence number.\<close>

lemma session_version_rank:
  assumes "session_wf st" and "session_wf st'"
    and "cs_version (cse_current (fst st)) = cs_version (cse_current (fst st'))"
  shows "cse_seq (fst st) = cse_seq (fst st')"
  using assms by (auto simp: session_wf_def)

section \<open>Properties\<close>

text \<open>C37: Published capabilities stay executable: whatever a session publishes or activates later, and
  also when that fails, a binding that resolved once resolves to the same invoker key, so a step
  that holds an old snapshot can still run its calls.\<close>

theorem old_bindings_survive:
  assumes "(session_step jv)\<^sup>*\<^sup>* st st'" and "session_wf st" and "resolve_binding ref name (snd st) = Inr key"
  shows "resolve_binding ref name (snd st') = Inr key"
  using assms
proof (induction rule: rtranclp_induct)
  case (step st' st'')
  have "session_wf st'" using sv.runs_inv step.hyps(1) step.prems(1) by blast
  with session_step_facts [OF step.hyps(2)] have "registry_le (snd st') (snd st'')" by simp
  then show ?case using registry_le_resolve step.IH [OF step.prems] by blast
qed

text \<open>Activation publishes an executable set: the new snapshot has the old and the added tools, each
  name once, under a version that differs from the previous one; every tool of it resolves to an
  invoker key, and a tool that was bound before keeps its key.\<close>

theorem activation_is_executable:
  assumes "session_wf (s, r)" and "activate jv extra (s, r) = (Inr snapshot, (s', r'))"
  shows "distinct (map ts_name (cs_tools snapshot)) \<and>
    ts_name ` set (cs_tools snapshot) = ts_name ` set (cs_tools (cse_current s) @ extra) \<and>
    cs_version snapshot \<noteq> cs_version (cse_current s) \<and> cse_current s' = snapshot \<and>
    (\<forall>spec \<in> set (cs_tools snapshot). \<exists>key. resolve_binding (cs_binding_ref snapshot) (ts_name spec) r' = Inr key \<and>
       (case resolve_binding (cs_binding_ref (cse_current s)) (ts_name spec) r of Inl _ \<Rightarrow> key = ''default'' | Inr k \<Rightarrow> key = k))"
proof -
  let ?tools = "activated_tools (cs_tools (cse_current s)) extra"
  from assms(2) have "publish_tools jv ?tools None None (s, r) = (Inr snapshot, (s', r'))"
    by (simp add: activate_def)
  then show ?thesis
  proof (cases rule: publish_tools_cases)
    case (published previous ref r'' snapshot')
    then have eqs: "snapshot' = snapshot" "r'' = r'" "s' = \<lparr>cse_current = snapshot, cse_seq = cse_seq s + 1\<rparr>"
      by simp_all
    let ?key = "\<lambda>name. case previous name of None \<Rightarrow> ''default'' | Some key \<Rightarrow> key"
    have table: "bg_versions r' (bs_version (cs_binding_ref snapshot)) = Some (spec_bindings ?key ?tools)"
      using publish_bindings_facts(4) [OF published(3)] assms(1) published(7) eqs by (simp add: session_wf_def)
    have prev: "bg_versions r (bs_version (cs_binding_ref (cse_current s))) = Some previous"
      using published(2) by (simp add: binding_mapping_def split: option.splits)
    have tools: "cs_tools snapshot = ?tools" using published(6) eqs by simp
    have "cs_version snapshot \<noteq> cs_version (cse_current s)"
      using published(5) eqs assms(1) by (auto simp: session_wf_def)
    moreover have "\<exists>key. resolve_binding (cs_binding_ref snapshot) (ts_name spec) r' = Inr key \<and>
       (case resolve_binding (cs_binding_ref (cse_current s)) (ts_name spec) r of Inl _ \<Rightarrow> key = ''default'' | Inr k \<Rightarrow> key = k)"
      if "spec \<in> set (cs_tools snapshot)" for spec
    proof -
      have "spec_bindings ?key ?tools (ts_name spec) = Some (?key (ts_name spec))"
        using that tools by (intro spec_bindings_Some) auto
      then show ?thesis using table prev by (simp add: resolve_binding_def split: option.splits)
    qed
    ultimately show ?thesis
      using activated_tools_distinct activated_tools_names tools eqs by simp
  qed simp
qed

text \<open>A resolver chain answers with its first provider that does not report NO_MATCH, and the
  snapshot it returns is executable as the provider meant it: in the chain's own registry its
  binding reference resolves exactly the names that the provider's reference resolves in the
  provider's registry, to the same keys.\<close>

theorem chain_preserves_bindings:
  assumes "chain_resolve own (ps @ p # qs) rq app rs = (Inr res, rs')"
    and "\<forall>q \<in> set ps. \<exists>x. pv_resolve q rq app = Inr x \<and> res_kind x = NO_MATCH"
    and "pv_resolve p rq app = Inr result" and "res_kind result \<noteq> NO_MATCH"
    and "pv_registry p = Some source" and "res_snapshot result = Some snapshot" and "registry_wf (rs own)"
  shows "res_kind res = res_kind result \<and>
    (\<exists>snapshot'. res_snapshot res = Some snapshot' \<and> cs_tools snapshot' = cs_tools snapshot \<and>
       (\<forall>name key. resolve_binding (cs_binding_ref snapshot') name (rs' own) = Inr key \<longleftrightarrow>
          resolve_binding (cs_binding_ref snapshot) name (rs source) = Inr key))"
proof -
  have "chain_loop own last_result (ps @ p # qs) rq app rs = adopt_bindings own p result rs" for last_result
    using assms(2-4) by (induction ps arbitrary: last_result) auto
  then have adopt: "adopt_bindings own p result rs = (Inr res, rs')"
    using assms(1) by (simp add: chain_resolve_def)
  show ?thesis
  proof (cases "source = own")
    case True
    then show ?thesis using adopt assms(5,6) by (simp add: adopt_bindings_def)
  next
    case False
    obtain table where table: "bg_versions (rs source) (bs_version (cs_binding_ref snapshot)) = Some table"
      using adopt False assms(5,6) by (auto simp: adopt_bindings_def binding_mapping_def split: option.splits)
    obtain ref r where pub: "publish_bindings table (rs own) = (ref, r)" by (cases "publish_bindings table (rs own)")
    have "res = result\<lparr>res_snapshot := Some (snapshot\<lparr>cs_binding_ref := ref\<rparr>)\<rparr>" "rs' = rs(own := r)"
      using adopt False assms(5,6) table pub by (auto simp: adopt_bindings_def binding_mapping_def)
    then show ?thesis
      using publish_bindings_facts(4) [OF pub assms(7)] table by (simp add: resolve_binding_def split: option.splits)
  qed
qed

text \<open>A run never starts with silently fewer capabilities: a resolution is accepted exactly when it
  is a match or a degraded match that carries a snapshot, and everything else, a chain in which no
  provider matched included, is a capability error.\<close>

theorem resolution_fails_closed:
  "(case accept_resolution r of
      Inr snapshot \<Rightarrow> res_kind r \<in> {MATCHED, DEGRADED} \<and> res_snapshot r = Some snapshot
    | Inl e \<Rightarrow> exn_kind e = CapabilityError \<and> \<not> (res_kind r \<in> {MATCHED, DEGRADED} \<and> res_snapshot r \<noteq> None)) \<and>
   (\<exists>e. accept_resolution \<lparr>res_kind = NO_MATCH, res_snapshot = sn, res_reason = why\<rparr> = Inl e)"
  by (auto simp: accept_resolution_def split: option.splits)

lemma check_tool_spec_Inl: "check_tool_spec jv spec = Inl e \<Longrightarrow> exn_kind e = SchemaValidationError"
  by (auto simp: check_tool_spec_def assert_supported_schema_def as_dict_def dialect_of_def
      split: sum.splits option.splits pyobj.splits if_splits)

text \<open>A tool call is admitted only through the schema: it validates exactly when the tool's schema
  names a supported dialect, is a valid schema, and the arguments satisfy it; every rejection is a
  schema validation error.\<close>

theorem tool_call_validation:
  "(validate_tool_call jv spec call None = Inr () \<longleftrightarrow>
     (\<exists>schema d. thaw_json (JObj (ts_parameters spec)) = PyDict schema \<and> dialect_of schema = Inr d \<and>
        d \<in> set SUPPORTED_DIALECTS \<and> jv_check_schema jv (PyDict schema) = None \<and>
        jv_validate jv [] (PyDict schema) (instance_of_arguments (tc_arguments call)) = None)) \<and>
   (case validate_tool_call jv spec call None of
      Inr _ \<Rightarrow> True | Inl e \<Rightarrow> exn_kind e = SchemaValidationError)"
proof
  show "validate_tool_call jv spec call None = Inr () \<longleftrightarrow>
     (\<exists>schema d. thaw_json (JObj (ts_parameters spec)) = PyDict schema \<and> dialect_of schema = Inr d \<and>
        d \<in> set SUPPORTED_DIALECTS \<and> jv_check_schema jv (PyDict schema) = None \<and>
        jv_validate jv [] (PyDict schema) (instance_of_arguments (tc_arguments call)) = None)"
    by (auto simp: validate_tool_call_def check_tool_spec_def validate_instance_def assert_supported_schema_def
        as_dict_def memory_registry_def split: sum.splits option.splits validation_failure.splits)
  have "exn_kind e = SchemaValidationError" if "validate_tool_call jv spec call None = Inl e" for e
  proof (cases "check_tool_spec jv spec")
    case (Inl e')
    then show ?thesis using that check_tool_spec_Inl [OF Inl] by (simp add: validate_tool_call_def)
  next
    case (Inr u)
    then show ?thesis
      using that by (auto simp: validate_tool_call_def check_tool_spec_def validate_instance_def as_dict_def
          memory_registry_def split: sum.splits option.splits validation_failure.splits pyobj.splits)
  qed
  then show "case validate_tool_call jv spec call None of Inr _ \<Rightarrow> True | Inl e \<Rightarrow> exn_kind e = SchemaValidationError"
    by (auto split: sum.splits)
qed

text \<open>
  The instance that the validator sees holds tuples and mapping proxies below the first level,
  which the default type checker of \<^verbatim>\<open>jsonschema\<close> takes for neither arrays nor objects.
\<close>

lemma nested_arguments_stay_frozen:
  "instance_of_arguments [(''ids'', JArr [JInt 1]), (''opts'', JObj [])] =
     PyDict [(MkStr ''ids'', PyTuple [PyInt 1]), (MkStr ''opts'', PyProxy [])] \<and>
   thaw_json (JObj [(''ids'', JArr [JInt 1]), (''opts'', JObj [])]) =
     PyDict [(MkStr ''ids'', PyList [PyInt 1]), (MkStr ''opts'', PyDict [])]"
  by (simp add: instance_of_arguments_def)

section \<open>Concrete runs\<close>

definition accept_all :: json_validator where
  "accept_all = \<lparr>jv_check_schema = (\<lambda>_. None), jv_validate = (\<lambda>_ _ _. None)\<rparr>"

definition demo_tool :: "string \<Rightarrow> tool_spec" where
  "demo_tool name = \<lparr>ts_name = name, ts_description = [], ts_parameters = []\<rparr>"

definition demo_fixed :: "capability_snapshot" where
  "demo_fixed = \<lparr>cs_version = ''cap-1'', cs_tools = [demo_tool ''echo''], cs_binding_ref = \<lparr>bs_version = ''bind-1''\<rparr>,
     cs_contributions = [], cs_policy_ref = \<lparr>cp_version = ''fixed''\<rparr>\<rparr>"

definition demo_registry :: binding_registry where
  "demo_registry = snd (publish_bindings (spec_bindings (\<lambda>_. ''host'') [demo_tool ''echo'']) new_registry)"

lemma demo_session_wf: "session_wf (new_session demo_fixed, demo_registry)"
proof -
  have "registry_wf demo_registry"
    unfolding demo_registry_def using publish_bindings_facts(1) [OF surjective_pairing new_registry_wf] by blast
  moreover have "cs_version demo_fixed = cap_version 1"
    by (simp add: demo_fixed_def cap_version_def int_str_def nat_str.simps)
  ultimately show ?thesis by (simp add: session_wf_def new_session_def)
qed

lemma demo_activation:
  "activate accept_all [demo_tool ''add''] (new_session demo_fixed, demo_registry) =
    (Inr (demo_fixed\<lparr>cs_version := ''cap-2'', cs_tools := [demo_tool ''echo'', demo_tool ''add''],
       cs_binding_ref := \<lparr>bs_version = ''bind-2''\<rparr>\<rparr>),
     snd (activate accept_all [demo_tool ''add''] (new_session demo_fixed, demo_registry)))"
proof -
  have "fst (activate accept_all [demo_tool ''add''] (new_session demo_fixed, demo_registry)) =
    Inr (demo_fixed\<lparr>cs_version := ''cap-2'', cs_tools := [demo_tool ''echo'', demo_tool ''add''],
       cs_binding_ref := \<lparr>bs_version = ''bind-2''\<rparr>\<rparr>)"
    by code_simp
  then show ?thesis by (metis prod.collapse)
qed

theorem old_bindings_survive_witness:
  "resolve_binding \<lparr>bs_version = ''bind-1''\<rparr> ''echo''
     (snd (snd (activate accept_all [demo_tool ''add''] (new_session demo_fixed, demo_registry)))) = Inr ''host''"
proof -
  have "(session_step accept_all)\<^sup>*\<^sup>* (new_session demo_fixed, demo_registry)
      (snd (activate accept_all [demo_tool ''add''] (new_session demo_fixed, demo_registry)))"
    by (rule r_into_rtranclp) (rule session_step.step_activate [OF surjective_pairing])
  moreover have "resolve_binding \<lparr>bs_version = ''bind-1''\<rparr> ''echo'' demo_registry = Inr ''host''"
    by code_simp
  ultimately show ?thesis using old_bindings_survive [OF _ demo_session_wf] by simp
qed

theorem activation_is_executable_witness:
  "resolve_binding \<lparr>bs_version = ''bind-2''\<rparr> ''echo''
     (snd (snd (activate accept_all [demo_tool ''add''] (new_session demo_fixed, demo_registry)))) = Inr ''host''"
proof -
  have "activate accept_all [demo_tool ''add''] (new_session demo_fixed, demo_registry) =
    (Inr (demo_fixed\<lparr>cs_version := ''cap-2'', cs_tools := [demo_tool ''echo'', demo_tool ''add''],
       cs_binding_ref := \<lparr>bs_version = ''bind-2''\<rparr>\<rparr>),
     (fst (snd (activate accept_all [demo_tool ''add''] (new_session demo_fixed, demo_registry))),
      snd (snd (activate accept_all [demo_tool ''add''] (new_session demo_fixed, demo_registry)))))"
    using demo_activation by (metis prod.collapse)
  from activation_is_executable [OF demo_session_wf this]
  have "\<exists>key. resolve_binding \<lparr>bs_version = ''bind-2''\<rparr> ''echo''
     (snd (snd (activate accept_all [demo_tool ''add''] (new_session demo_fixed, demo_registry)))) = Inr key \<and>
     (case resolve_binding \<lparr>bs_version = ''bind-1''\<rparr> ''echo'' demo_registry of Inl _ \<Rightarrow> key = ''default'' | Inr k \<Rightarrow> key = k)"
    by (simp add: new_session_def demo_fixed_def demo_tool_def)
  moreover have "resolve_binding \<lparr>bs_version = ''bind-1''\<rparr> ''echo'' demo_registry = Inr ''host''"
    by code_simp
  ultimately show ?thesis by simp
qed

text \<open>
  A provider may publish any initial version.  With \<^verbatim>\<open>cap-2\<close> the first activation publishes a
  different tool set under the same version; the invariant \<open>session_wf\<close> excludes such a start.
\<close>

lemma initial_version_may_repeat:
  "case fst (activate accept_all [demo_tool ''add''] (new_session (demo_fixed\<lparr>cs_version := ''cap-2''\<rparr>), demo_registry)) of
     Inr snapshot \<Rightarrow> cs_version snapshot = ''cap-2'' \<and> cs_tools snapshot \<noteq> cs_tools demo_fixed
   | Inl _ \<Rightarrow> False"
  by code_simp

definition demo_request :: run_request where
  "demo_request = \<lparr>rq_run_id = ''r'', rq_input_items = [], rq_record_target = \<lparr>rt_value = ''chat''\<rparr>, rq_entry = ModelEntry,
     rq_limits = default_execution_limits, rq_identity = None,
     rq_model = \<lparr>mc_model = ''synthetic'', mc_temperature = None, mc_extra = []\<rparr>,
     rq_consumed = \<lparr>cb_model_rounds = 0, cb_steps = 0, cb_estimated_tokens = 0\<rparr>,
     rq_tool_choice = \<lparr>tch_mode = AUTO, tch_name = None\<rparr>\<rparr>"

theorem chain_preserves_bindings_witness:
  "\<exists>res rs'. chain_resolve 0 [\<lparr>pv_resolve = fixed_resolve demo_fixed, pv_registry = Some 1\<rparr>] demo_request
     \<lparr>as_version = ''app-1'', as_record_target = \<lparr>rt_value = ''chat''\<rparr>, as_payload = []\<rparr>
     (\<lambda>i. if i = 1 then demo_registry else new_registry) = (Inr res, rs') \<and> res_kind res = MATCHED"
proof -
  let ?p = "\<lparr>pv_resolve = fixed_resolve demo_fixed, pv_registry = Some 1\<rparr>"
  let ?app = "\<lparr>as_version = ''app-1'', as_record_target = \<lparr>rt_value = ''chat''\<rparr>, as_payload = []\<rparr>"
  let ?rs = "\<lambda>i. if i = (1::nat) then demo_registry else new_registry"
  have "bg_versions demo_registry ''bind-1'' \<noteq> None" by code_simp
  then have "\<exists>res rs'. chain_resolve 0 ([] @ ?p # []) demo_request ?app ?rs = (Inr res, rs')"
    by (auto simp: chain_resolve_def fixed_resolve_def adopt_bindings_def binding_mapping_def demo_fixed_def
        split: option.splits prod.splits)
  then obtain res rs' where run: "chain_resolve 0 ([] @ ?p # []) demo_request ?app ?rs = (Inr res, rs')" by blast
  from chain_preserves_bindings [OF run] have "res_kind res = MATCHED" by (simp add: fixed_resolve_def)
  with run show ?thesis by (metis append_Nil)
qed

end
