(* ===== verification/Budget.thy ===== *)
theory Budget imports Contracts begin

text \<open>
  \<^verbatim>\<open>context/budget.py\<close>: token estimates of messages and tools, the prompt budget, and the ledger of
  a run.  The estimator is an interface (\<^verbatim>\<open>TokenEstimator\<close>): the record \<open>estimator\<close> with the locale
  \<open>token_estimator\<close>, which \<open>char_quarter\<close>, the default of the source, satisfies.
\<close>

section \<open>Python's \<^verbatim>\<open>repr\<close> of argument dictionaries\<close>

text \<open>
  \<^verbatim>\<open>str(dict(arguments))\<close> on frozen values: nested objects are mapping proxies, sequences are
  tuples.  The rendering of floats is the parameter \<open>fl\<close>.
\<close>

definition hex_digit :: "nat \<Rightarrow> char" where
  "hex_digit n = ''0123456789abcdef'' ! n"

definition py_isprintable :: "char \<Rightarrow> bool" where
  "py_isprintable c \<longleftrightarrow> (let n = of_char c :: nat in (32 \<le> n \<and> n \<le> 126) \<or> (161 \<le> n \<and> n \<noteq> 173))"

definition repr_char :: "char \<Rightarrow> char \<Rightarrow> string" where
  "repr_char quote c =
     (let n = of_char c :: nat in
      if c = quote \<or> n = 92 then [CHR 0x5C, c]
      else if n = 10 then [CHR 0x5C, CHR ''n'']
      else if n = 13 then [CHR 0x5C, CHR ''r'']
      else if n = 9 then [CHR 0x5C, CHR ''t'']
      else if py_isprintable c then [c]
      else [CHR 0x5C, CHR ''x'', hex_digit (n div 16), hex_digit (n mod 16)])"

definition repr_str :: "string \<Rightarrow> string" where
  "repr_str s =
     (let quote = (if CHR 0x27 \<in> set s \<and> CHR 0x22 \<notin> set s then CHR 0x22 else CHR 0x27)
      in quote # concat (map (repr_char quote) s) @ [quote])"

fun join :: "string \<Rightarrow> string list \<Rightarrow> string" where
  "join sep [] = []"
| "join sep [s] = s"
| "join sep (s # ss) = s @ sep @ join sep ss"

fun repr_json :: "(rat \<Rightarrow> string) \<Rightarrow> jvalue \<Rightarrow> string" where
  "repr_json fl JNone = ''None''"
| "repr_json fl (JStr s) = repr_str s"
| "repr_json fl (JInt i) = int_str i"
| "repr_json fl (JFloat r) = fl r"
| "repr_json fl (JBool b) = (if b then ''True'' else ''False'')"
| "repr_json fl (JArr xs) =
     ''('' @ join '', '' (map (repr_json fl) xs) @ (if length xs = 1 then '','' else []) @ '')''"
| "repr_json fl (JObj kvs) =
     ''mappingproxy({'' @ join '', '' (map (\<lambda>kv. repr_str (fst kv) @ '': '' @ repr_json fl (snd kv)) kvs) @ ''})''"

definition repr_dict :: "(rat \<Rightarrow> string) \<Rightarrow> jobj \<Rightarrow> string" where
  "repr_dict fl kvs =
     ''{'' @ join '', '' (map (\<lambda>kv. repr_str (fst kv) @ '': '' @ repr_json fl (snd kv)) kvs) @ ''}''"

section \<open>Estimates\<close>

record estimator =
  est_can_estimate :: "string \<Rightarrow> bool"
  est_text :: "string \<Rightarrow> exn + int"
  est_schema :: "jobj \<Rightarrow> exn + int"

text \<open>\<^verbatim>\<open>_estimable_texts\<close>; an optional field that is empty is skipped like a missing one.\<close>

definition nonempty :: "string option \<Rightarrow> string list" where
  "nonempty s = (case s of None \<Rightarrow> [] | Some t \<Rightarrow> if t = [] then [] else [t])"

definition estimable_texts :: "(rat \<Rightarrow> string) \<Rightarrow> message \<Rightarrow> string list" where
  "estimable_texts fl m =
     nonempty (m_content m) @ nonempty (m_reasoning m) @
     concat (map (\<lambda>c. [tc_name c, repr_dict fl (tc_arguments c)]) (m_tool_calls m)) @
     nonempty (m_tool_call_id m)"

fun estimate_texts :: "estimator \<Rightarrow> int \<Rightarrow> string list \<Rightarrow> exn + int" where
  "estimate_texts est tally [] = Inr tally"
| "estimate_texts est tally (s # ss) =
     (if \<not> est_can_estimate est s then Inl (raised ContextBudgetError ''unestimable message content'')
      else case est_text est s of Inl e \<Rightarrow> Inl e | Inr n \<Rightarrow> estimate_texts est (tally + n) ss)"

definition estimate_messages :: "(rat \<Rightarrow> string) \<Rightarrow> estimator \<Rightarrow> int \<Rightarrow> message list \<Rightarrow> exn + int" where
  "estimate_messages fl est reserved ms = estimate_texts est reserved (concat (map (estimable_texts fl) ms))"

text \<open>\<^verbatim>\<open>CharQuarterEstimator\<close>.\<close>

definition char_quarter_text :: "string \<Rightarrow> exn + int" where
  "char_quarter_text s = (if s = [] then Inr 0 else Inr (max 1 ((int (length s) + 3) div 4)))"

definition char_quarter :: "(rat \<Rightarrow> string) \<Rightarrow> estimator" where
  "char_quarter fl =
     \<lparr>est_can_estimate = (\<lambda>_. True), est_text = char_quarter_text,
      est_schema = (\<lambda>schema. char_quarter_text (repr_dict fl schema))\<rparr>"

section \<open>The prompt budget\<close>

record token_budget_policy =
  tbp_max_prompt_tokens :: int
  tbp_reserved_output_tokens :: int
  tbp_estimator :: estimator

definition policy_estimate_messages :: "(rat \<Rightarrow> string) \<Rightarrow> token_budget_policy \<Rightarrow> message list \<Rightarrow> exn + int" where
  "policy_estimate_messages fl p ms = estimate_messages fl (tbp_estimator p) 0 ms"

fun estimate_spec_texts :: "estimator \<Rightarrow> int \<Rightarrow> string list \<Rightarrow> exn + int" where
  "estimate_spec_texts est tally [] = Inr tally"
| "estimate_spec_texts est tally (s # ss) =
     (if \<not> est_can_estimate est s then Inl (raised ContextBudgetError ''unestimable tool description'')
      else case est_text est s of Inl e \<Rightarrow> Inl e | Inr n \<Rightarrow> estimate_spec_texts est (tally + n) ss)"

fun estimate_specs :: "estimator \<Rightarrow> int \<Rightarrow> tool_spec list \<Rightarrow> exn + int" where
  "estimate_specs est tally [] = Inr tally"
| "estimate_specs est tally (spec # specs) =
     (case estimate_spec_texts est tally [ts_name spec, ts_description spec] of
        Inl e \<Rightarrow> Inl e
      | Inr tally \<Rightarrow>
          (case est_schema est (ts_parameters spec) of
             Inl e \<Rightarrow> Inl e
           | Inr n \<Rightarrow> estimate_specs est (tally + n) specs))"

definition estimate_tools :: "token_budget_policy \<Rightarrow> tool_spec list \<Rightarrow> exn + int" where
  "estimate_tools p specs = estimate_specs (tbp_estimator p) 0 specs"

definition estimate_model_attempt :: "(rat \<Rightarrow> string) \<Rightarrow> token_budget_policy \<Rightarrow> message list \<Rightarrow> tool_spec list \<Rightarrow>
    exn + int" where
  "estimate_model_attempt fl p ms specs =
     (case policy_estimate_messages fl p ms of
        Inl e \<Rightarrow> Inl e
      | Inr n \<Rightarrow>
          (case estimate_tools p specs of
             Inl e \<Rightarrow> Inl e
           | Inr k \<Rightarrow> Inr (n + k + tbp_reserved_output_tokens p)))"

definition available_for_prompt :: "token_budget_policy \<Rightarrow> tool_spec list \<Rightarrow> exn + int" where
  "available_for_prompt p specs =
     (case estimate_tools p specs of
        Inl e \<Rightarrow> Inl e
      | Inr k \<Rightarrow>
          let reserved = tbp_reserved_output_tokens p + k;
              available = tbp_max_prompt_tokens p - reserved
          in if available \<le> 0
             then Inl (raised ContextBudgetError ''tool schemas and reserved output exceed the token budget'')
             else Inr available)"

section \<open>The execution ledger\<close>

record ledger =
  lg_limit :: "int option"
  lg_reserved :: int

definition execution_budget :: "execution_limits \<Rightarrow> consumed_budget \<Rightarrow> ledger" where
  "execution_budget limits consumed =
     \<lparr>lg_limit = el_max_estimated_tokens limits, lg_reserved = cb_estimated_tokens consumed\<rparr>"

definition raise_if_exhausted :: "ledger \<Rightarrow> exn + unit" where
  "raise_if_exhausted l =
     (case lg_limit l of
        Some limit \<Rightarrow>
          if limit \<le> lg_reserved l then Inl (raised BudgetExhaustedError ''max_estimated_tokens exhausted'')
          else Inr ()
      | None \<Rightarrow> Inr ())"

definition reserve :: "int \<Rightarrow> ledger \<Rightarrow> (exn, unit, ledger) outcome" where
  "reserve estimated l =
     (case lg_limit l of
        Some limit \<Rightarrow>
          if limit < lg_reserved l + estimated
          then (Inl (raised BudgetExhaustedError ''max_estimated_tokens exhausted''), l)
          else (Inr (), l\<lparr>lg_reserved := lg_reserved l + estimated\<rparr>)
      | None \<Rightarrow> (Inr (), l\<lparr>lg_reserved := lg_reserved l + estimated\<rparr>))"

text \<open>A sequence of reservations, each failure leaving the ledger to the next.\<close>

fun reserve_all :: "int list \<Rightarrow> ledger \<Rightarrow> int list \<times> ledger" where
  "reserve_all [] l = ([], l)"
| "reserve_all (n # ns) l =
     (case reserve n l of
        (Inl _, l) \<Rightarrow> reserve_all ns l
      | (Inr _, l) \<Rightarrow> (let (granted, l) = reserve_all ns l in (n # granted, l)))"

section \<open>The estimator interface\<close>

text \<open>What the budget and the compressors rely on: text that can be estimated has a cost.\<close>

locale token_estimator =
  fixes est :: estimator
  assumes text_cost: "est_can_estimate est s \<Longrightarrow> \<exists>n. est_text est s = Inr n \<and> 0 \<le> n"
begin

definition cost :: "string \<Rightarrow> int" where
  "cost s = (case est_text est s of Inl _ \<Rightarrow> 0 | Inr n \<Rightarrow> n)"

lemma cost_nonneg: "est_can_estimate est s \<Longrightarrow> 0 \<le> cost s"
  using text_cost [of s] by (auto simp: cost_def)

lemma estimate_texts_total:
  "\<forall>s \<in> set ss. est_can_estimate est s \<Longrightarrow> estimate_texts est tally ss = Inr (tally + sum_list (map cost ss))"
proof (induction ss arbitrary: tally)
  case (Cons s ss)
  then show ?case using text_cost [of s] by (auto simp: cost_def)
qed simp

lemma estimate_texts_Inr:
  "estimate_texts est tally ss = Inr n \<longleftrightarrow>
     (\<forall>s \<in> set ss. est_can_estimate est s) \<and> n = tally + sum_list (map cost ss)"
proof (induction ss arbitrary: tally)
  case (Cons s ss)
  then show ?case using text_cost [of s] by (auto simp: cost_def split: sum.splits)
qed auto

definition message_cost :: "(rat \<Rightarrow> string) \<Rightarrow> message \<Rightarrow> int" where
  "message_cost fl m = sum_list (map cost (estimable_texts fl m))"

definition estimable :: "(rat \<Rightarrow> string) \<Rightarrow> message \<Rightarrow> bool" where
  "estimable fl m \<longleftrightarrow> (\<forall>s \<in> set (estimable_texts fl m). est_can_estimate est s)"

lemma message_cost_nonneg: "estimable fl m \<Longrightarrow> 0 \<le> message_cost fl m"
  unfolding message_cost_def estimable_def by (intro sum_list_nonneg) (auto intro: cost_nonneg)

lemma estimate_messages_Inr:
  "estimate_messages fl est reserved ms = Inr n \<longleftrightarrow>
     (\<forall>m \<in> set ms. estimable fl m) \<and> n = reserved + sum_list (map (message_cost fl) ms)"
proof -
  have "sum_list (map cost (concat (map (estimable_texts fl) ms))) = sum_list (map (message_cost fl) ms)"
    by (induction ms) (simp_all add: message_cost_def)
  then show ?thesis
    by (auto simp: estimate_messages_def estimate_texts_Inr estimable_def)
qed

lemma estimate_messages_sublist:
  assumes "estimate_messages fl est reserved (xs @ ys @ zs) = Inr n"
  shows "\<exists>k. estimate_messages fl est reserved (xs @ zs) = Inr k \<and> k \<le> n"
proof -
  have "0 \<le> sum_list (map (message_cost fl) ys)"
    using assms by (intro sum_list_nonneg) (auto simp: estimate_messages_Inr intro: message_cost_nonneg)
  then show ?thesis using assms by (auto simp: estimate_messages_Inr)
qed

end

lemma char_quarter_text_nonneg: "\<exists>n. char_quarter_text s = Inr n \<and> 0 \<le> n"
  by (auto simp: char_quarter_text_def max_def)

lemma char_quarter_simps [simp]:
  "est_can_estimate (char_quarter fl) s" "est_text (char_quarter fl) s = char_quarter_text s"
  by (simp_all add: char_quarter_def)

interpretation cq: token_estimator "char_quarter fl" for fl
  by standard (simp add: char_quarter_def char_quarter_text_nonneg)

section \<open>Properties\<close>

text \<open>C30: The default estimator rounds the length of a text up to quarters: its estimate is the least
  number of four-character units that covers the text, and zero only for the empty text.\<close>

theorem char_quarter_bounds:
  "\<exists>n. char_quarter_text s = Inr n \<and> 4 * (n - 1) < int (length s) + (if s = [] then 1 else 0) \<and>
     int (length s) \<le> 4 * n \<and> (n = 0 \<longleftrightarrow> s = [])"
proof (cases "s = []")
  case False
  then have "0 < length s" by simp
  then show ?thesis using False unfolding char_quarter_text_def by (auto simp: max_def)
qed (simp add: char_quarter_text_def)

lemma reserve_bound:
  "lg_limit l = Some limit \<Longrightarrow> lg_reserved l \<le> limit \<Longrightarrow> lg_reserved (snd (reserve n l)) \<le> limit \<and> lg_limit (snd (reserve n l)) = Some limit"
  by (simp add: reserve_def)

lemma reserve_all_facts:
  "reserve_all ns l = (granted, l') \<Longrightarrow>
   lg_limit l' = lg_limit l \<and> lg_reserved l' = lg_reserved l + sum_list granted \<and>
   (\<forall>limit. lg_limit l = Some limit \<longrightarrow> lg_reserved l \<le> limit \<longrightarrow> lg_reserved l' \<le> limit)"
proof (induction ns arbitrary: l granted)
  case (Cons n ns)
  then show ?case
    by (fastforce simp: reserve_def split: option.splits if_splits prod.splits sum.splits)
qed simp

text \<open>The ledger never exceeds its limit and counts exactly what it granted: after any sequence of
  reservations of which some fail, the reserved total is the initial one plus the granted
  estimates, and stays at or below the limit it started below.\<close>

theorem ledger_within_limit:
  assumes "reserve_all ns \<lparr>lg_limit = Some limit, lg_reserved = consumed\<rparr> = (granted, l)" and "consumed \<le> limit"
  shows "lg_reserved l = consumed + sum_list granted \<and> lg_reserved l \<le> limit"
  using reserve_all_facts [OF assms(1)] assms(2) by simp

theorem ledger_within_limit_witness:
  "lg_reserved (snd (reserve_all [3, 9, 4] \<lparr>lg_limit = Some 10, lg_reserved = 2\<rparr>)) = 9"
proof -
  have "reserve_all [3, 9, 4] \<lparr>lg_limit = Some 10, lg_reserved = 2\<rparr> = ([3, 4], \<lparr>lg_limit = Some 10, lg_reserved = 9\<rparr>)"
    by (simp add: reserve_def)
  with ledger_within_limit [OF this] show ?thesis by simp
qed

text \<open>A prompt that fits the available tokens fits the whole budget: when the messages are
  estimated at no more than \<^verbatim>\<open>available_for_prompt\<close>, the estimate of the model attempt (messages,
  tools and reserved output) is at most \<^verbatim>\<open>max_prompt_tokens\<close>.\<close>

theorem fitting_prompt_fits_budget:
  assumes "available_for_prompt p specs = Inr available" and "policy_estimate_messages fl p ms = Inr n"
    and "n \<le> available"
  shows "\<exists>tally. estimate_model_attempt fl p ms specs = Inr tally \<and> tally \<le> tbp_max_prompt_tokens p \<and> 0 < available"
  using assms by (auto simp: available_for_prompt_def estimate_model_attempt_def Let_def split: sum.splits if_splits)

definition demo_policy :: token_budget_policy where
  "demo_policy = \<lparr>tbp_max_prompt_tokens = 300, tbp_reserved_output_tokens = 256, tbp_estimator = char_quarter (\<lambda>_. [])\<rparr>"

theorem fitting_prompt_witness:
  "\<exists>tally. estimate_model_attempt (\<lambda>_. []) demo_policy [plain_message USER (Some ''hello'')] [] = Inr tally \<and> tally \<le> 300"
proof -
  have "available_for_prompt demo_policy [] = Inr 44"
    "policy_estimate_messages (\<lambda>_. []) demo_policy [plain_message USER (Some ''hello'')] = Inr 2"
    by code_simp+
  from fitting_prompt_fits_budget [OF this] show ?thesis by (auto simp: demo_policy_def)
qed

end
