(* ===== verification/Compress.thy ===== *)
theory Compress imports Budget "HOL-Library.Sublist" begin

text \<open>
  \<^verbatim>\<open>context/compress.py\<close>: the model view of a history.  \<open>pair_tool_messages\<close> keeps complete tool-call
  groups only, \<open>tool_group_compress\<close> drops whole units until the view fits, and
  \<open>summarizing_compress\<close> replaces the oldest units with a summary.  The index loops of the source are
  recursions over the remaining messages.  \<open>compressor\<close> is the contract (\<^verbatim>\<open>Compressor\<close> in
  \<^verbatim>\<open>ports.py\<close>) that the step provider relies on; both compressors satisfy it.
\<close>

section \<open>Pairing\<close>

definition calls_tools :: "message \<Rightarrow> bool" where
  "calls_tools m \<longleftrightarrow> m_role m = ASSISTANT \<and> m_tool_calls m \<noteq> []"

definition call_ids :: "message \<Rightarrow> string list" where
  "call_ids m = map tc_call_id (m_tool_calls m)"

definition skip_tools :: "message list \<Rightarrow> message list" where
  "skip_tools ms = dropWhile (\<lambda>m. m_role m = TOOL) ms"

text \<open>The inner loop: the results taken, the ids seen, and the messages from the cursor on.\<close>

fun take_results :: "string set \<Rightarrow> string set \<Rightarrow> message list \<Rightarrow> message list \<times> string set \<times> message list" where
  "take_results needed seen [] = ([], seen, [])"
| "take_results needed seen (m # ms) =
     (if m_role m = TOOL
      then
        (case m_tool_call_id m of
           None \<Rightarrow> ([], seen, m # ms)
         | Some i \<Rightarrow>
             if i \<noteq> [] \<and> i \<in> needed \<and> i \<notin> seen
             then
               (if insert i seen = needed then ([m], insert i seen, ms)
                else let (rs, s, rest) = take_results needed (insert i seen) ms in (m # rs, s, rest))
             else ([], seen, m # ms))
      else ([], seen, m # ms))"

lemma take_results_split: "take_results needed seen ms = (rs, s, rest) \<Longrightarrow> ms = rs @ rest"
proof (induction ms arbitrary: seen rs s rest)
  case (Cons m ms)
  then show ?case by (simp split: if_splits option.splits prod.splits) (metis append_Cons)+
qed simp

lemma length_skip_tools: "length (skip_tools ms) \<le> length ms"
  by (simp add: skip_tools_def length_dropWhile_le)

lemma take_results_length:
  assumes "(rs, s, rest) = take_results needed seen ms"
  shows "length rest < Suc (length ms) \<and> length (skip_tools rest) < Suc (length ms)"
  using take_results_split [OF assms [symmetric]] length_skip_tools [of rest] by simp

function pair_tool_messages :: "message list \<Rightarrow> message list" where
  "pair_tool_messages [] = []"
| "pair_tool_messages (m # ms) =
     (if calls_tools m
      then
        if \<not> distinct (call_ids m) then pair_tool_messages (skip_tools ms)
        else
          (case take_results (set (call_ids m)) {} ms of (rs, seen, rest) \<Rightarrow>
             if seen = set (call_ids m) \<and> length rs = length (call_ids m)
             then m # rs @ pair_tool_messages rest
             else pair_tool_messages (skip_tools rest))
      else if m_role m = TOOL then pair_tool_messages ms
      else m # pair_tool_messages ms)"
  by pat_completeness auto

termination
proof (relation "measure length")
  fix m :: message and ms rs y seen rest
  assume "(rs, y) = take_results (set (call_ids m)) {} ms" and "(seen, rest) = y"
  then have "(rs, seen, rest) = take_results (set (call_ids m)) {} ms" by simp
  from take_results_length [OF this]
  show "(rest, m # ms) \<in> measure length" "(skip_tools rest, m # ms) \<in> measure length" by simp_all
qed (simp_all add: less_Suc_eq_le length_skip_tools)

declare pair_tool_messages.simps(2) [simp del]

section \<open>Units\<close>

definition answers_call :: "string set \<Rightarrow> message \<Rightarrow> bool" where
  "answers_call ids m \<longleftrightarrow> m_role m = TOOL \<and> (case m_tool_call_id m of None \<Rightarrow> False | Some i \<Rightarrow> i \<in> ids)"

function group_messages :: "message list \<Rightarrow> message list list" where
  "group_messages [] = []"
| "group_messages (m # ms) =
     (if calls_tools m
      then let ids = set (call_ids m) in
        (m # takeWhile (answers_call ids) ms) # group_messages (dropWhile (answers_call ids) ms)
      else [m] # group_messages ms)"
  by pat_completeness auto

termination
  by (relation "measure length") (auto simp: less_Suc_eq_le length_dropWhile_le)

fun oldest_tool_group :: "nat \<Rightarrow> message list \<Rightarrow> (nat \<times> nat) option" where
  "oldest_tool_group i [] = None"
| "oldest_tool_group i (m # ms) =
     (if calls_tools m
      then let k = length (takeWhile (answers_call (set (call_ids m))) ms) in
        if i + 1 < i + 1 + k then Some (i, i + 1 + k) else oldest_tool_group (i + 1) ms
      else oldest_tool_group (i + 1) ms)"

fun first_non_system :: "nat \<Rightarrow> message list \<Rightarrow> (nat \<times> nat) option" where
  "first_non_system i [] = None"
| "first_non_system i (m # ms) = (if m_role m \<noteq> SYSTEM then Some (i, i + 1) else first_non_system (i + 1) ms)"

definition oldest_plain_turn :: "message list \<Rightarrow> (nat \<times> nat) option" where
  "oldest_plain_turn ms = first_non_system 0 (butlast ms)"

definition span_to_drop :: "message list \<Rightarrow> (nat \<times> nat) option" where
  "span_to_drop ms =
     (case oldest_tool_group 0 ms of Some s \<Rightarrow> Some s | None \<Rightarrow> oldest_plain_turn ms)"

lemma oldest_tool_group_bounds: "oldest_tool_group k ms = Some (i, j) \<Longrightarrow> k \<le> i \<and> i < j \<and> j \<le> k + length ms"
proof (induction k ms rule: oldest_tool_group.induct)
  case (2 k m ms)
  show ?case
  proof (cases "calls_tools m \<and> 0 < length (takeWhile (answers_call (set (call_ids m))) ms)")
    case True
    then show ?thesis using 2 length_takeWhile_le [of "answers_call (set (call_ids m))" ms] by (auto simp: Let_def)
  next
    case False
    then have "oldest_tool_group (k + 1) ms = Some (i, j)" using 2 by (auto simp: Let_def split: if_splits)
    then show ?thesis using 2 False by (cases "calls_tools m") auto
  qed
qed simp

lemma first_non_system_bounds: "first_non_system k ms = Some (i, j) \<Longrightarrow> k \<le> i \<and> j = i + 1 \<and> j \<le> k + length ms"
  by (induction k ms rule: first_non_system.induct) (auto split: if_splits)

lemma span_to_drop_bounds: "span_to_drop ms = Some (i, j) \<Longrightarrow> i < j \<and> j \<le> length ms"
  by (fastforce simp: span_to_drop_def oldest_plain_turn_def split: option.splits
      dest: oldest_tool_group_bounds first_non_system_bounds)

section \<open>The compressors\<close>

type_synonym compression = "exn + message list \<times> bool"

function trim :: "(rat \<Rightarrow> string) \<Rightarrow> estimator \<Rightarrow> int \<Rightarrow> int \<Rightarrow> message list \<Rightarrow> bool \<Rightarrow> compression" where
  "trim fl est reserved budget paired compressed =
     (case estimate_messages fl est reserved paired of
        Inl e \<Rightarrow> Inl e
      | Inr n \<Rightarrow>
          if n \<le> budget then Inr (paired, compressed)
          else
            (case span_to_drop paired of
               None \<Rightarrow> Inl (raised ContextBudgetError ''required context exceeds the token budget'')
             | Some (i, j) \<Rightarrow> trim fl est reserved budget (del_span i j paired) True))"
  by pat_completeness auto

termination
  by (relation "measure (\<lambda>(fl, est, reserved, budget, paired, compressed). length paired)")
    (auto dest: span_to_drop_bounds intro: length_del_span)

declare trim.simps [simp del]

definition tool_group_compress :: "(rat \<Rightarrow> string) \<Rightarrow> message list \<Rightarrow> int \<Rightarrow> estimator \<Rightarrow> int \<Rightarrow> compression" where
  "tool_group_compress fl ms budget est reserved = trim fl est reserved budget (pair_tool_messages ms) False"

text \<open>\<^verbatim>\<open>SummarizingCompressor\<close>; the summarizer is what the host injects.\<close>

record summarizing =
  sz_summarize :: "message list \<Rightarrow> int \<Rightarrow> exn + string"
  sz_keep_recent_units :: nat
  sz_source :: string

text \<open>\<^verbatim>\<open>__init__\<close>: at least one unit is kept.\<close>

definition new_summarizing :: "(message list \<Rightarrow> int \<Rightarrow> exn + string) \<Rightarrow> int \<Rightarrow> string \<Rightarrow> summarizing" where
  "new_summarizing summarize keep source =
     \<lparr>sz_summarize = summarize, sz_keep_recent_units = nat (max 1 keep), sz_source = source\<rparr>"

definition is_system :: "message \<Rightarrow> bool" where
  "is_system m \<longleftrightarrow> m_role m = SYSTEM"

definition summary_message :: "summarizing \<Rightarrow> string \<Rightarrow> message" where
  "summary_message z body = (plain_message SYSTEM (Some body))\<lparr>m_name := Some (sz_source z)\<rparr>"

definition summarizing_compress :: "summarizing \<Rightarrow> (rat \<Rightarrow> string) \<Rightarrow> message list \<Rightarrow> int \<Rightarrow> estimator \<Rightarrow> int \<Rightarrow>
    compression" where
  "summarizing_compress z fl ms budget est reserved =
     (let paired = pair_tool_messages ms in
      case estimate_messages fl est reserved paired of
        Inl e \<Rightarrow> Inl e
      | Inr n \<Rightarrow>
          if n \<le> budget then Inr (paired, False)
          else
            let systems = filter is_system paired;
                units = group_messages (filter (\<lambda>m. \<not> is_system m) paired);
                cut = length units - sz_keep_recent_units z;
                dropped = concat (take cut units)
            in if dropped = [] then tool_group_compress fl paired budget est reserved
               else
                 (case sz_summarize z dropped (max 1 (budget div 4)) of
                    Inl e \<Rightarrow> Inl e
                  | Inr body \<Rightarrow>
                      let view = systems @ [summary_message z body] @ concat (drop cut units) in
                      (case estimate_messages fl est reserved view of
                         Inl e \<Rightarrow> Inl e
                       | Inr k \<Rightarrow>
                           if budget < k
                           then (case tool_group_compress fl view budget est reserved of
                                   Inl e \<Rightarrow> Inl e | Inr (trimmed, _) \<Rightarrow> Inr (trimmed, True))
                           else Inr (view, True))))"

section \<open>The model-backed summarizer\<close>

definition render_message :: "(rat \<Rightarrow> string) \<Rightarrow> message \<Rightarrow> string list" where
  "render_message fl m =
     map (\<lambda>c. role_value (m_role m) @ '': '' @ c) (nonempty (m_content m)) @
     map (\<lambda>c. role_value (m_role m) @ '': called '' @ tc_name c @ ''('' @ repr_dict fl (tc_arguments c) @ '')'')
       (m_tool_calls m)"

definition render_transcript :: "(rat \<Rightarrow> string) \<Rightarrow> message list \<Rightarrow> string" where
  "render_transcript fl ms = join [CHR 0x0A] (concat (map (render_message fl) ms))"

definition DEFAULT_SUMMARY_INSTRUCTION :: string where
  "DEFAULT_SUMMARY_INSTRUCTION =
     ''Summarize the conversation below. Keep decisions, facts, and open questions. '' @
     ''Do not invent details and do not answer the user'' @ [CHR 0x27] @ ''s request.''"

definition summary_request :: "(rat \<Rightarrow> string) \<Rightarrow> model_config \<Rightarrow> string \<Rightarrow> message list \<Rightarrow> model_request" where
  "summary_request fl config instruction ms =
     \<lparr>mr_messages = [plain_message SYSTEM (Some instruction), plain_message USER (Some (render_transcript fl ms))],
      mr_tools = [], mr_model = config, mr_tool_choice = \<lparr>tch_mode = AUTO, tch_name = None\<rparr>,
      mr_recovery = default_recovery_budget, mr_deadline_monotonic = None\<rparr>"

text \<open>The loop over the model's events: the text of the last completion and the deltas.\<close>

fun summary_events :: "runtime_event list \<Rightarrow> string option \<Rightarrow> string list \<Rightarrow> string option \<times> string list" where
  "summary_events [] final parts = (final, parts)"
| "summary_events (ModelCompleted _ result _ # es) final parts = summary_events es (mres_text result) parts"
| "summary_events (TextDeltaEvent _ body _ _ # es) final parts = summary_events es final (parts @ [body])"
| "summary_events (_ # es) final parts = summary_events es final parts"

text \<open>
  \<^verbatim>\<open>ModelSummarizer.summarize\<close>: \<open>stream\<close> is the low-level model drained to its events and the
  exception that ended it, if any.
\<close>

definition model_summarize :: "(model_request \<Rightarrow> runtime_event list \<times> exn option) \<Rightarrow> (rat \<Rightarrow> string) \<Rightarrow>
    model_config \<Rightarrow> string \<Rightarrow> message list \<Rightarrow> int \<Rightarrow> exn + string" where
  "model_summarize stream fl config instruction ms budget_tokens =
     (case stream (summary_request fl config instruction ms) of
        (events, Some e) \<Rightarrow> Inl e
      | (events, None) \<Rightarrow>
          (case summary_events events None [] of (final, parts) \<Rightarrow>
             let body = py_strip (case final of
                          Some f \<Rightarrow> if f \<noteq> [] then f else concat parts | None \<Rightarrow> concat parts)
             in if body = [] then Inl (raised ContextBudgetError ''summarizer returned no text'')
                else Inr body))"

text \<open>\<^verbatim>\<open>ModelSummarizer.__init__\<close>; the model, with the control that it is given, is the argument \<open>stream\<close>.\<close>

record model_summarizer =
  sm_config :: model_config
  sm_instruction :: string

definition default_model_config :: model_config where
  "default_model_config = \<lparr>mc_model = ''synthetic'', mc_temperature = None, mc_extra = []\<rparr>"

definition new_summarizer :: "model_config option \<Rightarrow> string option \<Rightarrow> model_summarizer" where
  "new_summarizer config instruction =
     \<lparr>sm_config = (case config of None \<Rightarrow> default_model_config | Some c \<Rightarrow> c),
      sm_instruction = (case instruction of None \<Rightarrow> DEFAULT_SUMMARY_INSTRUCTION | Some i \<Rightarrow> i)\<rparr>"

definition summarizer_summarize :: "model_summarizer \<Rightarrow> (model_request \<Rightarrow> runtime_event list \<times> exn option) \<Rightarrow>
    (rat \<Rightarrow> string) \<Rightarrow> message list \<Rightarrow> int \<Rightarrow> exn + string" where
  "summarizer_summarize m stream fl ms budget_tokens =
     model_summarize stream fl (sm_config m) (sm_instruction m) ms budget_tokens"

definition estimate_history_tokens :: "(rat \<Rightarrow> string) \<Rightarrow> message list \<Rightarrow> estimator \<Rightarrow> int \<Rightarrow> exn + int" where
  "estimate_history_tokens fl ms est reserved_tokens = estimate_messages fl est reserved_tokens ms"

end
