(* ===== verification/Compress_Facts.thy ===== *)
theory Compress_Facts imports Compress begin

text \<open>
  The shape of a model view (\<open>well_paired\<close>), what pairing and trimming keep of it, and the contract
  of a compressor with its two implementations.
\<close>

section \<open>Well-paired views\<close>

definition plain :: "message \<Rightarrow> bool" where
  "plain m \<longleftrightarrow> \<not> calls_tools m \<and> m_role m \<noteq> TOOL"

definition answered :: "message \<Rightarrow> message list \<Rightarrow> bool" where
  "answered m rs \<longleftrightarrow>
     calls_tools m \<and> distinct (call_ids m) \<and> [] \<notin> set (call_ids m) \<and> length rs = length (call_ids m) \<and>
     (\<forall>r \<in> set rs. m_role r = TOOL) \<and> distinct (map m_tool_call_id rs) \<and>
     m_tool_call_id ` set rs = Some ` set (call_ids m)"

inductive well_paired :: "message list \<Rightarrow> bool" where
  wp_nil: "well_paired []"
| wp_plain: "plain m \<Longrightarrow> well_paired v \<Longrightarrow> well_paired (m # v)"
| wp_group: "answered m rs \<Longrightarrow> well_paired v \<Longrightarrow> well_paired (m # rs @ v)"

lemma wp_append: "well_paired a \<Longrightarrow> well_paired b \<Longrightarrow> well_paired (a @ b)"
  by (induction rule: well_paired.induct) (auto intro: well_paired.intros)

lemma wp_all_plain: "\<forall>m \<in> set ms. plain m \<Longrightarrow> well_paired ms"
  by (induction ms) (auto intro: well_paired.intros)

lemma wp_concat: "\<forall>u \<in> set us. well_paired u \<Longrightarrow> well_paired (concat us)"
  by (induction us) (auto intro: wp_append wp_nil)

lemma wp_head: "well_paired (m # v) \<Longrightarrow> m_role m \<noteq> TOOL"
  by (erule well_paired.cases) (auto simp: plain_def answered_def calls_tools_def)

lemma take_results_facts:
  assumes "take_results needed seen ms = (rs, s, rest)"
  shows "(\<forall>r \<in> set rs. m_role r = TOOL \<and> m_tool_call_id r \<in> Some ` (needed - seen - {[]})) \<and>
    distinct (map m_tool_call_id rs) \<and> Some ` s = Some ` seen \<union> m_tool_call_id ` set rs"
  using assms
proof (induction ms arbitrary: seen rs s rest)
  case (Cons m ms)
  show ?case
  proof (cases "m_role m = TOOL \<and> (\<exists>i. m_tool_call_id m = Some i \<and> i \<noteq> [] \<and> i \<in> needed \<and> i \<notin> seen)")
    case False
    then have "rs = []" "s = seen" using Cons.prems by (auto split: option.splits if_splits)
    then show ?thesis by simp
  next
    case True
    then obtain i where m: "m_role m = TOOL" "m_tool_call_id m = Some i" "i \<noteq> []" "i \<in> needed" "i \<notin> seen"
      by blast
    show ?thesis
    proof (cases "insert i seen = needed")
      case True
      then have "rs = [m]" "s = insert i seen" using Cons.prems m by simp_all
      then show ?thesis using m by auto
    next
      case False
      obtain rs' s' rest' where rec: "take_results needed (insert i seen) ms = (rs', s', rest')"
        by (cases "take_results needed (insert i seen) ms")
      then have "rs = m # rs'" "s = s'" using Cons.prems m False by simp_all
      then show ?thesis using Cons.IH [OF rec] m by auto
    qed
  qed
qed simp

lemma take_results_complete:
  assumes "rs \<noteq> []" and "\<forall>r \<in> set rs. m_role r = TOOL" and "distinct (map m_tool_call_id rs)"
    and "m_tool_call_id ` set rs = Some ` (needed - seen)" and "[] \<notin> needed" and "seen \<subseteq> needed"
  shows "take_results needed seen (rs @ rest) = (rs, needed, rest)"
  using assms
proof (induction rs arbitrary: seen)
  case (Cons r rs)
  from Cons.prems(4) have "m_tool_call_id r \<in> Some ` (needed - seen)" by auto
  then obtain i where i: "m_tool_call_id r = Some i" "i \<in> needed" "i \<notin> seen" by auto
  then have "i \<noteq> []" using Cons.prems(5) by auto
  have rest: "m_tool_call_id ` set rs = Some ` (needed - insert i seen)"
  proof -
    have "m_tool_call_id ` set rs = m_tool_call_id ` set (r # rs) - {Some i}"
      using Cons.prems(3) i(1) by auto
    also have "\<dots> = Some ` (needed - insert i seen)"
      unfolding Cons.prems(4) by auto
    finally show ?thesis .
  qed
  show ?case
  proof (cases "rs = []")
    case True
    with rest have "needed - insert i seen = {}" by simp
    then have "insert i seen = needed" using Cons.prems(6) i(2) by auto
    then show ?thesis using True Cons.prems(2) i \<open>i \<noteq> []\<close> by simp
  next
    case False
    then have "insert i seen \<noteq> needed" using rest by auto
    moreover have "take_results needed (insert i seen) (rs @ rest) = (rs, needed, rest)"
      using Cons.prems rest i False by (intro Cons.IH) auto
    ultimately show ?thesis using Cons.prems(2) i \<open>i \<noteq> []\<close> by simp
  qed
qed simp

section \<open>Pairing\<close>

lemma pair_simps:
  "plain m \<Longrightarrow> pair_tool_messages (m # ms) = m # pair_tool_messages ms"
  "m_role m = TOOL \<Longrightarrow> pair_tool_messages (m # ms) = pair_tool_messages ms"
  by (auto simp: pair_tool_messages.simps(2) plain_def calls_tools_def)

lemma answered_if_complete:
  assumes "calls_tools m" and "distinct (call_ids m)" and "take_results (set (call_ids m)) {} ms = (rs, s, rest)"
    and "s = set (call_ids m)" and "length rs = length (call_ids m)"
  shows "answered m rs"
proof -
  note facts = take_results_facts [OF assms(3)]
  then have ids: "m_tool_call_id ` set rs = Some ` set (call_ids m)" using assms(4) by simp
  have "[] \<notin> set (call_ids m)"
  proof
    assume "[] \<in> set (call_ids m)"
    then have "Some [] \<in> m_tool_call_id ` set rs" using ids by simp
    with facts show False by force
  qed
  with facts ids assms show ?thesis by (simp add: answered_def)
qed

text \<open>The ways one step of the pairing loop goes, as an induction rule.\<close>

lemma pair_induct [case_names nil complete broken tool plain]:
  assumes nil: "P []"
    and complete: "\<And>m rs rest. answered m rs \<Longrightarrow> P rest \<Longrightarrow>
      pair_tool_messages (m # rs @ rest) = m # rs @ pair_tool_messages rest \<Longrightarrow> P (m # rs @ rest)"
    and broken: "\<And>m rs rest. calls_tools m \<Longrightarrow> \<forall>r \<in> set rs. m_role r = TOOL \<Longrightarrow> P (skip_tools rest) \<Longrightarrow>
      pair_tool_messages (m # rs @ rest) = pair_tool_messages (skip_tools rest) \<Longrightarrow> P (m # rs @ rest)"
    and tool: "\<And>m ms. m_role m = TOOL \<Longrightarrow> P ms \<Longrightarrow> pair_tool_messages (m # ms) = pair_tool_messages ms \<Longrightarrow> P (m # ms)"
    and plain: "\<And>m ms. plain m \<Longrightarrow> P ms \<Longrightarrow> pair_tool_messages (m # ms) = m # pair_tool_messages ms \<Longrightarrow> P (m # ms)"
  shows "P ms"
proof (induction ms rule: length_induct)
  case (1 ms)
  show ?case
  proof (cases ms)
    case (Cons m xs)
    show ?thesis
    proof (cases "calls_tools m")
      case calls: True
      show ?thesis
      proof (cases "distinct (call_ids m)")
        case False
        have "P (skip_tools xs)" using 1 Cons length_skip_tools [of xs] by simp
        then show ?thesis
          using broken [of m "[]" xs] calls False Cons by (simp add: pair_tool_messages.simps(2))
      next
        case True
        obtain rs s rest where tr: "take_results (set (call_ids m)) {} xs = (rs, s, rest)"
          by (cases "take_results (set (call_ids m)) {} xs")
        note xs = take_results_split [OF tr]
        have less: "length rest < length ms" "length (skip_tools rest) < length ms"
          using take_results_length [OF tr [symmetric]] Cons by auto
        show ?thesis
        proof (cases "s = set (call_ids m) \<and> length rs = length (call_ids m)")
          case ok: True
          have "answered m rs" using answered_if_complete [OF calls True tr] ok by simp
          moreover have "P rest" using 1 less by blast
          moreover have "pair_tool_messages (m # rs @ rest) = m # rs @ pair_tool_messages rest"
            using calls True tr ok xs by (simp add: pair_tool_messages.simps(2))
          ultimately show ?thesis using complete Cons xs by simp
        next
          case False
          have "\<forall>r \<in> set rs. m_role r = TOOL" using take_results_facts [OF tr] by auto
          moreover have "P (skip_tools rest)" using 1 less by blast
          moreover have "pair_tool_messages (m # rs @ rest) = pair_tool_messages (skip_tools rest)"
            using calls True tr False xs by (subst pair_tool_messages.simps(2)) auto
          ultimately show ?thesis using broken calls Cons xs by simp
        qed
      qed
    next
      case False
      have "P xs" using 1 Cons by simp
      then show ?thesis
        using False Cons tool plain
        by (cases "m_role m = TOOL") (auto simp: pair_tool_messages.simps(2) plain_def)
    qed
  qed (simp add: nil)
qed

lemma pair_wp: "well_paired (pair_tool_messages ms)"
  by (induction ms rule: pair_induct) (auto intro: well_paired.intros)

lemma pair_identity: "well_paired v \<Longrightarrow> pair_tool_messages v = v"
proof (induction rule: well_paired.induct)
  case (wp_group m rs v)
  have "rs \<noteq> []" using wp_group(1) by (auto simp: answered_def calls_tools_def call_ids_def)
  then have "take_results (set (call_ids m)) {} (rs @ v) = (rs, set (call_ids m), v)"
    using wp_group(1) by (intro take_results_complete) (auto simp: answered_def)
  then show ?case
    using wp_group by (simp add: pair_tool_messages.simps(2) answered_def)
qed (simp_all add: pair_simps)

lemma subseq_skip_tools: "subseq xs (skip_tools ms) \<Longrightarrow> subseq xs ms"
  unfolding skip_tools_def by (metis subseq_order.order_trans suffix_dropWhile suffix_imp_subseq)

lemma filter_skip_tools: "(\<And>m. P m \<Longrightarrow> m_role m \<noteq> TOOL) \<Longrightarrow> filter P (skip_tools ms) = filter P ms"
  by (induction ms) (auto simp: skip_tools_def)

lemma pair_subseq: "subseq (pair_tool_messages ms) ms"
proof (induction ms rule: pair_induct)
  case (complete m rs rest)
  then show ?case by (simp add: list_emb_append_mono)
next
  case (broken m rs rest)
  then have "subseq (pair_tool_messages (skip_tools rest)) rest" by (simp add: subseq_skip_tools)
  then show ?case using broken by (simp add: list_emb_Cons list_emb_append2)
qed (simp_all add: list_emb_Cons)

lemma no_plain_tools: "\<forall>r \<in> set rs. m_role r = TOOL \<Longrightarrow> filter plain rs = []"
  by (induction rs) (auto simp: plain_def)

lemma pair_keeps_plain: "filter plain (pair_tool_messages ms) = filter plain ms"
proof (induction ms rule: pair_induct)
  case (complete m rs rest)
  then show ?case by simp
next
  case (broken m rs rest)
  have "filter plain (skip_tools rest) = filter plain rest"
    by (rule filter_skip_tools) (simp add: plain_def)
  moreover have "\<not> plain m" using broken by (simp add: plain_def)
  ultimately show ?case using broken no_plain_tools [of rs] by simp
next
  case (tool m ms)
  then show ?case by (simp add: plain_def)
qed simp_all

section \<open>Units\<close>

lemma takeWhile_answers:
  assumes "answered m rs" and "well_paired v"
  shows "takeWhile (answers_call (set (call_ids m))) (rs @ v) = rs"
    "dropWhile (answers_call (set (call_ids m))) (rs @ v) = v"
proof -
  have all: "answers_call (set (call_ids m)) r" if "r \<in> set rs" for r
  proof -
    from assms(1) that have "m_role r = TOOL" "m_tool_call_id r \<in> Some ` set (call_ids m)"
      by (auto simp: answered_def)
    then show ?thesis by (auto simp: answers_call_def)
  qed
  have "v = [] \<or> \<not> answers_call (set (call_ids m)) (hd v)"
  proof (cases v)
    case (Cons x xs)
    then have "m_role x \<noteq> TOOL" using assms(2) wp_head by blast
    then show ?thesis using Cons by (simp add: answers_call_def)
  qed simp
  then have "takeWhile (answers_call (set (call_ids m))) v = []" "dropWhile (answers_call (set (call_ids m))) v = v"
    by (cases v; auto)+
  then show "takeWhile (answers_call (set (call_ids m))) (rs @ v) = rs"
    "dropWhile (answers_call (set (call_ids m))) (rs @ v) = v"
    using all by (simp_all add: takeWhile_append2 dropWhile_append2)
qed

lemma group_messages_wp:
  "well_paired ms \<Longrightarrow> concat (group_messages ms) = ms \<and>
     (\<forall>u \<in> set (group_messages ms). well_paired u \<and> u \<noteq> [] \<and> (length u = 1 \<or> answered (hd u) (tl u)))"
proof (induction rule: well_paired.induct)
  case (wp_plain m v)
  then show ?case using well_paired.intros(2) [OF wp_plain(1) wp_nil] by (simp add: plain_def)
next
  case (wp_group m rs v)
  have "calls_tools m" using wp_group(1) by (simp add: answered_def)
  then show ?case
    using wp_group takeWhile_answers [OF wp_group(1,2)] well_paired.intros(3) [OF wp_group(1) wp_nil]
    by (simp add: Let_def)
qed simp

section \<open>Dropping a unit\<close>

lemma oldest_tool_group_Some:
  "well_paired ms \<Longrightarrow> oldest_tool_group k ms = Some (i, j) \<Longrightarrow>
   \<exists>pre m rs post. ms = pre @ (m # rs) @ post \<and> i = k + length pre \<and> j = i + length (m # rs) \<and>
     well_paired pre \<and> well_paired post \<and> answered m rs"
proof (induction arbitrary: k rule: well_paired.induct)
  case (wp_plain m v)
  then have "oldest_tool_group (k + 1) v = Some (i, j)" by (simp add: plain_def)
  from wp_plain.IH [OF this] obtain pre m' rs post where
    "v = pre @ (m' # rs) @ post" "i = k + 1 + length pre" "j = i + length (m' # rs)"
    "well_paired pre" "well_paired post" "answered m' rs" by blast
  then show ?case
    using well_paired.intros(2) [OF wp_plain(1)]
    by (intro exI [of _ "m # pre"] exI [of _ m'] exI [of _ rs] exI [of _ post]) simp
next
  case (wp_group m rs v)
  have m: "calls_tools m" "rs \<noteq> []" using wp_group(1) by (auto simp: answered_def calls_tools_def call_ids_def)
  then have "i = k" "j = k + 1 + length rs"
    using wp_group takeWhile_answers [OF wp_group(1,2)] by (simp_all add: Let_def)
  then show ?case
    using wp_group by (intro exI [of _ "[]"] exI [of _ m] exI [of _ rs] exI [of _ v]) (simp add: wp_nil)
qed simp

lemma oldest_tool_group_None:
  "well_paired ms \<Longrightarrow> oldest_tool_group k ms = None \<Longrightarrow> \<forall>m \<in> set ms. plain m"
proof (induction arbitrary: k rule: well_paired.induct)
  case (wp_plain m v)
  then show ?case using wp_plain.IH [of "k + 1"] by (simp add: plain_def)
next
  case (wp_group m rs v)
  have "calls_tools m" "rs \<noteq> []" using wp_group(1) by (auto simp: answered_def calls_tools_def call_ids_def)
  then show ?case using wp_group takeWhile_answers [OF wp_group(1,2)] by (simp add: Let_def)
qed simp

lemma first_non_system_Some:
  "first_non_system k ms = Some (i, j) \<Longrightarrow>
   \<exists>pre m post. ms = pre @ m # post \<and> i = k + length pre \<and> j = i + 1 \<and> m_role m \<noteq> SYSTEM \<and> (\<forall>x \<in> set pre. is_system x)"
proof (induction k ms rule: first_non_system.induct)
  case (2 k m ms)
  show ?case
  proof (cases "m_role m = SYSTEM")
    case True
    then obtain pre x post where "ms = pre @ x # post" "i = k + 1 + length pre" "j = i + 1" "m_role x \<noteq> SYSTEM"
      "\<forall>x \<in> set pre. is_system x" using 2 by auto
    then show ?thesis
      using True by (intro exI [of _ "m # pre"] exI [of _ x] exI [of _ post]) (simp add: is_system_def)
  next
    case False
    then show ?thesis using 2 by (intro exI [of _ "[]"] exI [of _ m] exI [of _ ms]) simp
  qed
qed simp

lemma first_non_system_None: "first_non_system k ms = None \<longleftrightarrow> (\<forall>m \<in> set ms. is_system m)"
  by (induction k ms rule: first_non_system.induct) (auto simp: is_system_def)

lemma del_span_append: "i = length pre \<Longrightarrow> j = i + length mid \<Longrightarrow> del_span i j (pre @ mid @ post) = pre @ post"
  by (simp add: del_span_def)

text \<open>
  One round of trimming removes one unit: a complete tool group, or, when there is none, the
  oldest message that is neither a system message nor the last one.
\<close>

lemma span_to_drop_Some:
  assumes "well_paired ms" and "span_to_drop ms = Some (i, j)"
  shows "\<exists>pre unit post. ms = pre @ unit @ post \<and> del_span i j ms = pre @ post \<and> well_paired (pre @ post) \<and>
    (\<forall>m \<in> set unit. \<not> is_system m) \<and> unit \<noteq> [] \<and> (answered (hd unit) (tl unit) \<or> post \<noteq> [])"
proof (cases "oldest_tool_group 0 ms")
  case (Some s)
  with assms(2) have "oldest_tool_group 0 ms = Some (i, j)" by (simp add: span_to_drop_def)
  from oldest_tool_group_Some [OF assms(1) this] obtain pre m rs post where
    *: "ms = pre @ (m # rs) @ post" "i = length pre" "j = i + length (m # rs)" "well_paired pre" "well_paired post"
    "answered m rs" by auto
  then have "del_span i j ms = pre @ post" by (simp only: del_span_append)
  moreover have "\<forall>x \<in> set (m # rs). \<not> is_system x"
    using *(6) by (auto simp: answered_def is_system_def calls_tools_def)
  ultimately show ?thesis
    using * wp_append by (intro exI [of _ pre] exI [of _ "m # rs"] exI [of _ post]) simp
next
  case None
  have plain: "\<forall>m \<in> set ms. plain m" using oldest_tool_group_None [OF assms(1) None] .
  from None assms(2) have f: "first_non_system 0 (butlast ms) = Some (i, j)"
    by (simp add: span_to_drop_def oldest_plain_turn_def)
  then obtain pre m post where *: "butlast ms = pre @ m # post" "i = length pre" "j = i + 1" "m_role m \<noteq> SYSTEM"
    using first_non_system_Some [OF f] by auto
  then have ms: "ms = pre @ [m] @ post @ [last ms]"
    by (metis append.assoc append_Cons append_Nil append_butlast_last_id butlast.simps(1) list.distinct(1) append_is_Nil_conv)
  then have "del_span i j ms = pre @ post @ [last ms]"
    using *(2,3) del_span_append [of i pre j "[m]" "post @ [last ms]"] by simp
  moreover have "well_paired (pre @ post @ [last ms])"
    using plain ms by (intro wp_all_plain) (metis Un_iff set_append)
  ultimately show ?thesis
    using ms *(4) by (intro exI [of _ pre] exI [of _ "[m]"] exI [of _ "post @ [last ms]"]) (simp add: is_system_def)
qed

section \<open>Trimming\<close>

lemma trim_Inr:
  "trim fl est reserved budget ms compressed = Inr (v, c) \<Longrightarrow> well_paired ms \<Longrightarrow>
   (\<exists>n. estimate_messages fl est reserved v = Inr n \<and> n \<le> budget) \<and> well_paired v \<and>
   filter is_system v = filter is_system ms \<and> subseq v ms \<and> (\<not> c \<longrightarrow> \<not> compressed \<and> v = ms) \<and>
   (compressed \<longrightarrow> c)"
proof (induction fl est reserved budget ms compressed rule: trim.induct)
  case (1 fl est reserved budget ms compressed)
  then obtain n where n: "estimate_messages fl est reserved ms = Inr n"
    by (subst (asm) trim.simps) (auto split: sum.splits)
  show ?case
  proof (cases "n \<le> budget")
    case True
    then have "v = ms" "c = compressed" using 1(2) n by (simp_all add: trim.simps)
    then show ?thesis using True n "1.prems" by simp
  next
    case False
    then obtain i j where span: "span_to_drop ms = Some (i, j)"
      and rec: "trim fl est reserved budget (del_span i j ms) True = Inr (v, c)"
      using "1.prems"(1) n by (subst (asm) trim.simps) (auto split: option.splits)
    from span_to_drop_Some [OF "1.prems"(2) span] obtain pre unit post where
      *: "ms = pre @ unit @ post" "del_span i j ms = pre @ post" "well_paired (pre @ post)"
      "\<forall>m \<in> set unit. \<not> is_system m" by blast
    then have "filter is_system unit = []" by (simp add: filter_empty_conv)
    moreover have "subseq (pre @ post) ms" using *(1) by (simp add: list_emb_append_mono list_emb_append2)
    ultimately show ?thesis
      using "1.IH" [OF n False span refl rec] * by (auto intro: subseq_order.order_trans)
  qed
qed

lemma trim_Inl:
  "trim fl est reserved budget ms compressed = Inl e \<Longrightarrow> well_paired ms \<Longrightarrow>
   (\<exists>v. well_paired v \<and> subseq v ms \<and> filter is_system v = filter is_system ms \<and>
      (estimate_messages fl est reserved v = Inl e \<or>
       (\<exists>n. estimate_messages fl est reserved v = Inr n \<and> budget < n \<and> span_to_drop v = None)))"
proof (induction fl est reserved budget ms compressed rule: trim.induct)
  case (1 fl est reserved budget ms compressed)
  show ?case
  proof (cases "estimate_messages fl est reserved ms")
    case (Inl e')
    then have "e' = e" using 1(2) by (simp add: trim.simps)
    then show ?thesis using Inl 1(3) by blast
  next
    case (Inr n)
    then have over: "\<not> n \<le> budget" using 1(2) by (auto simp: trim.simps)
    show ?thesis
    proof (cases "span_to_drop ms")
      case None
      then show ?thesis using Inr over "1.prems" by (intro exI [of _ ms]) simp
    next
      case (Some s)
      obtain i j where s: "s = (i, j)" by (cases s)
      have rec: "trim fl est reserved budget (del_span i j ms) True = Inl e"
        using "1.prems"(1) Inr over Some s by (simp add: trim.simps)
      from span_to_drop_Some [OF "1.prems"(2) Some [unfolded s]] obtain pre unit post where
        *: "ms = pre @ unit @ post" "del_span i j ms = pre @ post" "well_paired (pre @ post)"
        "\<forall>m \<in> set unit. \<not> is_system m" by blast
      then have "filter is_system unit = []" by (simp add: filter_empty_conv)
      moreover have "subseq (pre @ post) ms" using *(1) by (simp add: list_emb_append_mono list_emb_append2)
      ultimately show ?thesis
        using "1.IH" [OF Inr over Some s [symmetric] rec] * by (fastforce intro: subseq_order.order_trans)
    qed
  qed
qed

lemma span_to_drop_None:
  assumes "well_paired ms" and "span_to_drop ms = None"
  shows "(\<forall>m \<in> set ms. plain m) \<and> (\<forall>m \<in> set (butlast ms). is_system m)"
proof -
  from assms(2) have "oldest_tool_group 0 ms = None" "oldest_plain_turn ms = None"
    by (simp_all add: span_to_drop_def split: option.splits)
  then show ?thesis
    using oldest_tool_group_None [OF assms(1)] by (simp add: oldest_plain_turn_def first_non_system_None)
qed

lemma filter_system_pair: "filter is_system (pair_tool_messages ms) = filter is_system ms"
proof -
  have "filter is_system xs = filter is_system (filter plain xs)" for xs
    by (induction xs) (auto simp: plain_def is_system_def calls_tools_def)
  then show ?thesis using pair_keeps_plain [of ms] by metis
qed

section \<open>The contract of a compressor\<close>

locale compressor =
  fixes compress :: "message list \<Rightarrow> int \<Rightarrow> estimator \<Rightarrow> int \<Rightarrow> compression"
    and fl :: "rat \<Rightarrow> string"
  assumes result_fits: "compress ms budget est reserved = Inr (v, c) \<Longrightarrow>
      \<exists>n. estimate_messages fl est reserved v = Inr n \<and> n \<le> budget"
    and result_paired: "compress ms budget est reserved = Inr (v, c) \<Longrightarrow> well_paired v"
    and result_systems: "compress ms budget est reserved = Inr (v, c) \<Longrightarrow>
      prefix (filter is_system ms) (filter is_system v)"
    and result_untouched: "compress ms budget est reserved = Inr (v, False) \<Longrightarrow> v = pair_tool_messages ms"
begin

text \<open>The view a step is prepared with passes the step provider's own check of the budget.\<close>

lemma view_within:
  assumes "compress ms budget est 0 = Inr (v, c)" and "estimate_messages fl est 0 v = Inr n"
  shows "n \<le> budget"
  using result_fits [OF assms(1)] assms(2) by auto

text \<open>System messages of the prompt reach the model in order, before anything a compressor adds.\<close>

lemma systems_kept:
  assumes "compress ms budget est reserved = Inr (v, c)" and "m \<in> set ms" and "is_system m"
  shows "m \<in> set v"
proof -
  have "m \<in> set (filter is_system ms)" using assms by simp
  then have "m \<in> set (filter is_system v)" using set_mono_prefix [OF result_systems [OF assms(1)]] by blast
  then show ?thesis by simp
qed

lemma idempotent_view: "compress ms budget est reserved = Inr (v, c) \<Longrightarrow> pair_tool_messages v = v"
  by (rule pair_identity [OF result_paired])

end

lemma tool_group_facts:
  assumes "tool_group_compress fl ms budget est reserved = Inr (v, c)"
  shows "(\<exists>n. estimate_messages fl est reserved v = Inr n \<and> n \<le> budget) \<and> well_paired v \<and>
    filter is_system v = filter is_system ms \<and> subseq v (pair_tool_messages ms) \<and>
    (\<not> c \<longrightarrow> v = pair_tool_messages ms)"
  using trim_Inr [OF assms [unfolded tool_group_compress_def] pair_wp] by (auto simp: filter_system_pair)

interpretation tg: compressor "tool_group_compress fl" fl for fl
proof
  fix ms budget est reserved v c
  assume "tool_group_compress fl ms budget est reserved = Inr (v, c)"
  note facts = tool_group_facts [OF this]
  show "\<exists>n. estimate_messages fl est reserved v = Inr n \<and> n \<le> budget" "well_paired v"
    "prefix (filter is_system ms) (filter is_system v)"
    using facts by simp_all
next
  fix ms budget est reserved v
  assume "tool_group_compress fl ms budget est reserved = Inr (v, False)"
  from tool_group_facts [OF this] show "v = pair_tool_messages ms" by simp
qed

lemma filter_wp: "well_paired ms \<Longrightarrow> well_paired (filter (\<lambda>m. \<not> is_system m) ms)"
proof (induction rule: well_paired.induct)
  case (wp_group m rs v)
  have "filter (\<lambda>m. \<not> is_system m) rs = rs"
    using wp_group(1) by (intro filter_True) (auto simp: answered_def is_system_def)
  moreover have "\<not> is_system m" using wp_group(1) by (simp add: answered_def calls_tools_def is_system_def)
  ultimately show ?case using well_paired.intros(3) [OF wp_group(1,3)] by simp
qed (simp_all add: well_paired.intros)

lemma systems_wp: "\<forall>m \<in> set ms. is_system m \<Longrightarrow> well_paired ms"
  by (rule wp_all_plain) (auto simp: is_system_def plain_def calls_tools_def)

lemma is_system_summary: "is_system (summary_message z body)"
  by (simp add: summary_message_def is_system_def)

lemma summarizing_facts:
  assumes "summarizing_compress z fl ms budget est reserved = Inr (v, c)"
  shows "(\<exists>n. estimate_messages fl est reserved v = Inr n \<and> n \<le> budget) \<and> well_paired v \<and>
    prefix (filter is_system ms) (filter is_system v) \<and> (\<not> c \<longrightarrow> v = pair_tool_messages ms)"
proof -
  define paired where "paired = pair_tool_messages ms"
  define units where "units = group_messages (filter (\<lambda>m. \<not> is_system m) paired)"
  define cut where "cut = length units - sz_keep_recent_units z"
  have wp: "well_paired paired" by (simp add: paired_def pair_wp)
  from assms obtain n where n: "estimate_messages fl est reserved paired = Inr n"
    unfolding summarizing_compress_def Let_def paired_def [symmetric] by (auto split: sum.splits)
  show ?thesis
  proof (cases "n \<le> budget")
    case True
    then have "v = paired" "\<not> c"
      using assms n by (simp_all add: summarizing_compress_def flip: paired_def)
    then show ?thesis using True n wp by (simp add: paired_def filter_system_pair)
  next
    case over: False
    note code = assms [unfolded summarizing_compress_def Let_def, folded paired_def, folded units_def, folded cut_def,
        unfolded n sum.case]
    show ?thesis
    proof (cases "concat (take cut units) = []")
      case True
      then have "tool_group_compress fl paired budget est reserved = Inr (v, c)" using code over by simp
      from tool_group_facts [OF this] show ?thesis
        by (simp add: paired_def filter_system_pair pair_identity [OF pair_wp])
    next
      case False
      then obtain body where body: "sz_summarize z (concat (take cut units)) (max 1 (budget div 4)) = Inr body"
        using code over
        by (cases "sz_summarize z (concat (take cut units)) (max 1 (budget div 4))") (simp_all del: concat_eq_Nil_conv)
      define view where "view = filter is_system paired @ [summary_message z body] @ concat (drop cut units)"
      have us: "\<forall>u \<in> set units. well_paired u" "concat units = filter (\<lambda>m. \<not> is_system m) paired"
        using group_messages_wp [OF filter_wp [OF wp]] by (simp_all add: units_def)
      have wp_view: "well_paired view"
        unfolding view_def using us(1)
        by (intro wp_append systems_wp wp_concat) (auto simp: summary_message_def is_system_def dest: in_set_dropD)
      have sub: "m \<in> set (concat units)" if "m \<in> set (concat (drop cut units))" for m
        using that by (auto dest: in_set_dropD)
      then have "filter is_system (concat (drop cut units)) = []"
        using us(2) by (auto simp: filter_empty_conv)
      then have sys: "filter is_system view = filter is_system paired @ [summary_message z body]"
        by (simp add: view_def is_system_summary)
      note code' = code [unfolded body sum.case, folded view_def]
      obtain k where k: "estimate_messages fl est reserved view = Inr k"
        using code' over False by (cases "estimate_messages fl est reserved view") (simp_all del: concat_eq_Nil_conv)
      show ?thesis
      proof (cases "budget < k")
        case True
        then obtain c' where tgc: "tool_group_compress fl view budget est reserved = Inr (v, c')" and "c"
          using code' over False k by (auto simp del: concat_eq_Nil_conv split: sum.splits)
        from tool_group_facts [OF tgc] show ?thesis
          using \<open>c\<close> by (simp add: sys) (simp add: paired_def filter_system_pair)
      next
        case False
        then have "v = view" "c"
          using code' over \<open>concat (take cut units) \<noteq> []\<close> k by (simp_all del: concat_eq_Nil_conv)
        then show ?thesis
          using False k wp_view by (simp add: sys) (simp add: paired_def filter_system_pair)
      qed
    qed
  qed
qed

interpretation sz: compressor "summarizing_compress z fl" fl for z fl
proof
  fix ms budget est reserved v c
  assume "summarizing_compress z fl ms budget est reserved = Inr (v, c)"
  note facts = summarizing_facts [OF this]
  show "\<exists>n. estimate_messages fl est reserved v = Inr n \<and> n \<le> budget" "well_paired v"
    "prefix (filter is_system ms) (filter is_system v)"
    using facts by simp_all
next
  fix ms budget est reserved v
  assume "summarizing_compress z fl ms budget est reserved = Inr (v, False)"
  from summarizing_facts [OF this] show "v = pair_tool_messages ms" by simp
qed

section \<open>Properties\<close>

text \<open>C33: The model view of a history is its well-paired part: \<^verbatim>\<open>pair_tool_messages\<close> returns a
  subsequence of the history in which every assistant message with tool calls is followed by
  exactly one result per call and no other tool message occurs, it keeps every other message, and
  it changes nothing exactly when the history is of that shape already.\<close>

theorem pairing_is_projection:
  "well_paired (pair_tool_messages ms) \<and> subseq (pair_tool_messages ms) ms \<and>
   filter plain (pair_tool_messages ms) = filter plain ms \<and>
   (pair_tool_messages ms = ms \<longleftrightarrow> well_paired ms)"
  using pair_wp [of ms] pair_subseq [of ms] pair_keeps_plain [of ms] pair_identity [of ms] by metis

text \<open>C34: The trimming compressor returns a view that fits the budget, is well paired (a tool group is
  dropped whole or kept whole), is a subsequence of the paired history, and has all its system
  messages; when it reports no compression it returns the paired history.\<close>

theorem tool_group_compression:
  assumes "tool_group_compress fl ms budget est reserved = Inr (v, c)"
  shows "(\<exists>n. estimate_messages fl est reserved v = Inr n \<and> n \<le> budget) \<and> well_paired v \<and>
    filter is_system v = filter is_system ms \<and> subseq v (pair_tool_messages ms) \<and>
    (c \<or> v = pair_tool_messages ms)"
  using tool_group_facts [OF assms] by blast

definition demo_history :: "message list" where
  "demo_history =
     [plain_message USER (Some ''weather?''),
      (plain_message ASSISTANT None)\<lparr>m_tool_calls := [\<lparr>tc_call_id = ''c1'', tc_name = ''get'', tc_arguments = []\<rparr>]\<rparr>,
      (plain_message TOOL (Some ''rain''))\<lparr>m_tool_call_id := Some ''c1''\<rparr>]"

theorem tool_group_compression_witness:
  "well_paired (take 1 demo_history) \<and> filter is_system (take 1 demo_history) = filter is_system demo_history"
proof -
  have "tool_group_compress (\<lambda>_. []) demo_history 3 (char_quarter (\<lambda>_. [])) 0 = Inr (take 1 demo_history, True)"
    by code_simp
  from tool_group_compression [OF this] show ?thesis by simp
qed

text \<open>
  The documentation of \<^verbatim>\<open>ToolGroupCompressor\<close> says that the final message is never dropped.  A
  history that ends with a tool group loses its final message as soon as it is over budget.
\<close>

lemma final_message_dropped:
  "tool_group_compress (\<lambda>_. []) demo_history 3 (char_quarter (\<lambda>_. [])) 0 = Inr (take 1 demo_history, True) \<and>
   last demo_history \<notin> set (take 1 demo_history)"
  by code_simp

text \<open>A view that cannot be trimmed any more costs no more than its system messages and its last message.\<close>

lemma untrimmable_cost:
  assumes "well_paired v" and "span_to_drop v = None" and "v \<noteq> []"
  shows "sum_list (map (token_estimator.message_cost (char_quarter fl) fl) v) \<le>
    sum_list (map (token_estimator.message_cost (char_quarter fl) fl) (filter is_system v @ [last v]))"
proof -
  let ?cost = "token_estimator.message_cost (char_quarter fl) fl"
  have "\<forall>m \<in> set (butlast v). is_system m" using span_to_drop_None [OF assms(1,2)] by blast
  then have butlast: "filter is_system (butlast v) = butlast v" by simp
  have split: "v = butlast v @ [last v]" using assms(3) by simp
  have "filter is_system v = butlast v @ filter is_system [last v]"
    by (subst (1) split) (simp only: filter_append butlast)
  moreover have "sum_list (map ?cost v) = sum_list (map ?cost (butlast v)) + ?cost (last v)"
    by (subst (1) split) (simp only: map_append sum_list_append list.map sum_list_simps)
  moreover have "0 \<le> ?cost m" for m
    by (intro cq.message_cost_nonneg) (simp add: cq.estimable_def)
  ultimately show ?thesis by (simp split: if_splits)
qed



text \<open>C36: The summarizing compressor keeps the same contract: its view fits the budget, is well paired,
  starts its system messages with those of the prompt in their order, and is the paired history
  when nothing had to be compressed.\<close>

theorem summarizing_compression:
  assumes "summarizing_compress z fl ms budget est reserved = Inr (v, c)"
  shows "(\<exists>n. estimate_messages fl est reserved v = Inr n \<and> n \<le> budget) \<and> well_paired v \<and>
    prefix (filter is_system ms) (filter is_system v) \<and> (c \<or> v = pair_tool_messages ms)"
  using summarizing_facts [OF assms] by blast

theorem summarizing_compression_witness:
  "well_paired [summary_message (new_summarizing (\<lambda>_ _. Inr ''s'') 1 ''sum'') ''s'', plain_message USER (Some ''and now?'')]"
proof -
  have "summarizing_compress (new_summarizing (\<lambda>_ _. Inr ''s'') 1 ''sum'') (\<lambda>_. [])
      (demo_history @ [plain_message USER (Some ''and now?'')]) 5 (char_quarter (\<lambda>_. [])) 0 =
    Inr ([summary_message (new_summarizing (\<lambda>_ _. Inr ''s'') 1 ''sum'') ''s'', plain_message USER (Some ''and now?'')], True)"
    by code_simp
  from summarizing_compression [OF this] show ?thesis by simp
qed

end
