(* ===== verification/Policies.thy ===== *)
theory Policies imports Contracts begin

text \<open>
  \<^verbatim>\<open>policies.py\<close>: how the flow decisions of a batch become one, and the WAIT constructor.  Flows
  are ordered by their priority, so that the aggregate of a batch is a maximum.
\<close>

section \<open>Operations\<close>

definition flow_decision :: "flow \<Rightarrow> string \<Rightarrow> flow_decision" where
  "flow_decision f reason = \<lparr>fd_flow = f, fd_reason = Some reason, fd_pending_ref = None\<rparr>"

text \<open>\<^verbatim>\<open>by_flow\<close>: the last decision of each flow.\<close>

definition by_flow :: "flow_decision list \<Rightarrow> flow \<rightharpoonup> flow_decision" where
  "by_flow ds = map_of (rev (map (\<lambda>d. (fd_flow d, d)) ds))"

fun first_by_priority :: "(flow \<rightharpoonup> flow_decision) \<Rightarrow> flow list \<Rightarrow> flow_decision" where
  "first_by_priority m [] = flow_decision CONTINUE ''default''"
| "first_by_priority m (f # fs) = (case m f of Some d \<Rightarrow> d | None \<Rightarrow> first_by_priority m fs)"

definition aggregate_flow_decisions :: "flow_decision list \<Rightarrow> flow_decision" where
  "aggregate_flow_decisions ds = first_by_priority (by_flow ds) FLOW_PRIORITY"

definition model_visible_tool_error :: "tool_result \<Rightarrow> tool_result" where
  "model_visible_tool_error r =
     (if DEFAULT_ORDINARY_TOOL_ERROR_POLICY = MODEL_VISIBLE then r else r)"

definition wait_decision :: "pending_ref \<Rightarrow> string \<Rightarrow> exn + flow_decision" where
  "wait_decision pending reason =
     (if pr_value pending = [] then Inl (raised ValueError ''WAIT requires a pending_ref.value'')
      else Inr \<lparr>fd_flow = WAIT, fd_reason = Some reason, fd_pending_ref = Some pending\<rparr>)"

definition isolate_attempts :: bool where
  "isolate_attempts = (DEFAULT_PARTIAL_OUTPUT_POLICY = ISOLATE_ATTEMPTS)"

section \<open>The priority order of flows\<close>

fun flow_rank :: "flow \<Rightarrow> nat" where
  "flow_rank CONTINUE = 0"
| "flow_rank FINISH = 1"
| "flow_rank WAIT = 2"

lemma flow_rank_inj: "flow_rank f = flow_rank g \<Longrightarrow> f = g"
  by (cases f; cases g) simp_all

instantiation flow :: linorder
begin

definition less_eq_flow :: "flow \<Rightarrow> flow \<Rightarrow> bool" where
  "less_eq_flow f g \<longleftrightarrow> flow_rank f \<le> flow_rank g"

definition less_flow :: "flow \<Rightarrow> flow \<Rightarrow> bool" where
  "less_flow f g \<longleftrightarrow> flow_rank f < flow_rank g"

instance
  by standard (auto simp: less_eq_flow_def less_flow_def intro: flow_rank_inj)

end

lemma FLOW_PRIORITY_descending: "sorted_wrt (>) FLOW_PRIORITY \<and> set FLOW_PRIORITY = UNIV"
proof
  show "sorted_wrt (>) FLOW_PRIORITY" by (simp add: FLOW_PRIORITY_def less_flow_def)
  show "set FLOW_PRIORITY = UNIV"
    by (auto simp: FLOW_PRIORITY_def intro: flow.exhaust)
qed

lemma by_flow_None: "by_flow ds f = None \<longleftrightarrow> f \<notin> fd_flow ` set ds"
  by (force simp: by_flow_def map_of_eq_None_iff)

lemma by_flow_Some: "by_flow ds f = Some d \<Longrightarrow> d \<in> set ds \<and> fd_flow d = f"
  by (auto simp: by_flow_def dest!: map_of_SomeD)

lemma by_flow_last: "by_flow (ds @ [d]) (fd_flow d) = Some d"
  by (simp add: by_flow_def)

lemma aggregate_cases:
  "aggregate_flow_decisions ds =
     (case by_flow ds WAIT of Some d \<Rightarrow> d | None \<Rightarrow>
      (case by_flow ds FINISH of Some d \<Rightarrow> d | None \<Rightarrow>
       (case by_flow ds CONTINUE of Some d \<Rightarrow> d | None \<Rightarrow> flow_decision CONTINUE ''default'')))"
  by (simp add: aggregate_flow_decisions_def FLOW_PRIORITY_def split: option.splits)

lemma aggregate_nonempty:
  assumes "ds \<noteq> []"
  shows "aggregate_flow_decisions ds \<in> set ds \<and> (\<forall>d \<in> set ds. fd_flow d \<le> fd_flow (aggregate_flow_decisions ds))"
proof -
  obtain d0 where d0: "d0 \<in> set ds" using assms by (cases ds) auto
  have rank: "f \<le> WAIT" "f \<noteq> WAIT \<Longrightarrow> f \<le> FINISH" "f \<noteq> WAIT \<Longrightarrow> f \<noteq> FINISH \<Longrightarrow> f = CONTINUE" for f :: flow
    by (cases f; simp add: less_eq_flow_def)+
  show ?thesis
  proof (cases "by_flow ds WAIT")
    case (Some d)
    with by_flow_Some [OF Some] rank show ?thesis by (simp add: aggregate_cases)
  next
    case None
    then have noW: "\<forall>d \<in> set ds. fd_flow d \<noteq> WAIT" by (force simp: by_flow_None)
    show ?thesis
    proof (cases "by_flow ds FINISH")
      case (Some d)
      with None by_flow_Some [OF Some] rank(2) noW show ?thesis by (simp add: aggregate_cases)
    next
      case no_finish: None
      then have all: "\<forall>d \<in> set ds. fd_flow d = CONTINUE"
        using noW rank(3) by (force simp: by_flow_None)
      with d0 have "by_flow ds CONTINUE \<noteq> None" unfolding by_flow_None by (metis imageI)
      then obtain d where d: "by_flow ds CONTINUE = Some d" by blast
      with None no_finish by_flow_Some [OF d] all show ?thesis by (simp add: aggregate_cases)
    qed
  qed
qed

section \<open>Properties\<close>

text \<open>The aggregate of a non-empty batch is one of its decisions and has the highest priority among
  them (WAIT over FINISH over CONTINUE); the flow does not depend on the order of the batch, and an
  empty batch continues.\<close>

theorem aggregate_is_highest_priority:
  "aggregate_flow_decisions [] = flow_decision CONTINUE ''default'' \<and>
   aggregate_flow_decisions (d # ds) \<in> set (d # ds) \<and>
   fd_flow (aggregate_flow_decisions (d # ds)) = Max (fd_flow ` set (d # ds))"
proof -
  let ?a = "aggregate_flow_decisions (d # ds)"
  have a: "?a \<in> set (d # ds)" "\<forall>x \<in> set (d # ds). fd_flow x \<le> fd_flow ?a"
    using aggregate_nonempty [of "d # ds"] by blast+
  then have "fd_flow ?a = Max (fd_flow ` set (d # ds))"
    by (intro Max_eqI [symmetric]) auto
  with a(1) show ?thesis
    by (simp add: aggregate_flow_decisions_def FLOW_PRIORITY_def by_flow_def)
qed

lemma wait_decision_ok:
  "wait_decision p reason = Inr d \<longleftrightarrow>
     pr_value p \<noteq> [] \<and> d = \<lparr>fd_flow = WAIT, fd_reason = Some reason, fd_pending_ref = Some p\<rparr>"
  by (auto simp: wait_decision_def)

end
