(* ===== verification/Observability.thy ===== *)
theory Observability imports Contracts "HOL-Library.Sublist" begin

text \<open>
  \<^verbatim>\<open>observability.py\<close>: timing events, the bounded queue that isolates a run from its observer, and the
  span that the OpenTelemetry adapter writes for an event.  The observer of the host is the parameter
  \<open>inner\<close>: what its \<^verbatim>\<open>on_event\<close> raises for an event, a timeout included.
\<close>

section \<open>Timing\<close>

record timing_event =
  tm_name :: string
  tm_run_id :: string
  tm_duration_ms :: rat
  tm_step_no :: "int option"
  tm_call_id :: "string option"
  tm_attempt :: "int option"
  tm_capability_version :: "string option"

datatype observed = Timing timing_event | Runtime runtime_event

text \<open>\<^verbatim>\<open>timed(...)\<close> at the clock reading \<open>started\<close> and \<^verbatim>\<open>finish()\<close> at \<open>finished\<close>, in seconds.\<close>

definition timed :: "string \<Rightarrow> string \<Rightarrow> int option \<Rightarrow> string option \<Rightarrow> int option \<Rightarrow> rat \<Rightarrow> rat \<Rightarrow> timing_event" where
  "timed name run_id step_no call_id attempt started finished =
     \<lparr>tm_name = name, tm_run_id = run_id, tm_duration_ms = (finished - started) * 1000, tm_step_no = step_no,
      tm_call_id = call_id, tm_attempt = attempt, tm_capability_version = None\<rparr>"

section \<open>The isolated observer\<close>

datatype queued = Item observed | Sentinel

text \<open>\<open>ob_pumping\<close>: the pump task was started and has not ended; \<open>ob_seen\<close>: what it passed on.\<close>

record observer_state =
  ob_queue :: "queued list"
  ob_maxsize :: nat
  ob_started :: bool
  ob_pumping :: bool
  ob_closed :: bool
  ob_seen :: "observed list"

definition new_observer :: "nat \<Rightarrow> observer_state" where
  "new_observer maxsize =
     \<lparr>ob_queue = [], ob_maxsize = maxsize, ob_started = False, ob_pumping = False, ob_closed = False, ob_seen = []\<rparr>"

definition observer_start :: "observer_state \<Rightarrow> observer_state" where
  "observer_start ob = (if ob_started ob then ob else ob\<lparr>ob_started := True, ob_pumping := True\<rparr>)"

text \<open>\<^verbatim>\<open>put_nowait\<close> with \<^verbatim>\<open>QueueFull\<close> swallowed; a queue with \<^verbatim>\<open>maxsize=0\<close> is unbounded.\<close>

definition put_nowait :: "queued \<Rightarrow> observer_state \<Rightarrow> observer_state" where
  "put_nowait x ob =
     (if 0 < ob_maxsize ob \<and> ob_maxsize ob \<le> length (ob_queue ob) then ob
      else ob\<lparr>ob_queue := ob_queue ob @ [x]\<rparr>)"

definition on_event :: "observed \<Rightarrow> observer_state \<Rightarrow> observer_state" where
  "on_event ev ob = (if ob_closed ob then ob else put_nowait (Item ev) ob)"

text \<open>One iteration of \<^verbatim>\<open>_pump\<close>; an exception that is no \<^verbatim>\<open>Exception\<close> ends the task.\<close>

definition pump :: "(observed \<Rightarrow> exn option) \<Rightarrow> observer_state \<Rightarrow> observer_state" where
  "pump inner ob =
     (if \<not> ob_pumping ob then ob
      else
        (case ob_queue ob of
           [] \<Rightarrow> ob
         | Sentinel # q \<Rightarrow> ob\<lparr>ob_queue := q, ob_pumping := False\<rparr>
         | Item ev # q \<Rightarrow>
             let ob = ob\<lparr>ob_queue := q, ob_seen := ob_seen ob @ [ev]\<rparr> in
             (case inner ev of
                None \<Rightarrow> ob
              | Some e \<Rightarrow> if isinstance_exn e Exception then ob else ob\<lparr>ob_pumping := False\<rparr>)))"

text \<open>\<^verbatim>\<open>aclose\<close>: the pump gets to \<open>n\<close> more items before the timeout, then it is cancelled.\<close>

definition observer_aclose :: "(observed \<Rightarrow> exn option) \<Rightarrow> nat \<Rightarrow> observer_state \<Rightarrow> observer_state" where
  "observer_aclose inner n ob =
     (let ob = put_nowait Sentinel (ob\<lparr>ob_closed := True\<rparr>) in ((pump inner ^^ n) ob)\<lparr>ob_pumping := False\<rparr>)"

section \<open>Spans\<close>

datatype attribute = AStr string | AInt int | ANum rat

fun event_kind :: "observed \<Rightarrow> string" where
  "event_kind (Timing _) = ''TimingEvent''"
| "event_kind (Runtime (TextDeltaEvent _ _ _ _)) = ''text_delta''"
| "event_kind (Runtime (ReasoningDeltaEvent _ _ _)) = ''reasoning_delta''"
| "event_kind (Runtime (ModelCompleted _ _ _)) = ''model_completed''"
| "event_kind (Runtime (ToolCallRecordedEvent _ _)) = ''tool_calls_recorded''"
| "event_kind (Runtime (ToolProgressEvent _ _ _)) = ''tool_progress''"
| "event_kind (Runtime (ExternalWorkDeclared _ _)) = ''external_work_declared''"
| "event_kind (Runtime (ToolResultEvent _ _ _)) = ''tool_result''"
| "event_kind (Runtime (ToolBatchCompleted _ _ _ _)) = ''tool_batch_completed''"
| "event_kind (Runtime (CompletionCompleted _ _ _)) = ''completion_completed''"
| "event_kind (Runtime (RunStarted _ _)) = ''run_started''"
| "event_kind (Runtime (StepStarted _ _)) = ''step_started''"
| "event_kind (Runtime (RunSucceeded _)) = ''run_succeeded''"
| "event_kind (Runtime (RunFailed _ _ _)) = ''run_failed''"
| "event_kind (Runtime (RunCancelled _ _ _)) = ''run_cancelled''"
| "event_kind (Runtime (RunWaiting _ _ _)) = ''run_waiting''"

fun event_identity :: "observed \<Rightarrow> step_identity option" where
  "event_identity (Runtime (TextDeltaEvent i _ _ _)) = Some i"
| "event_identity (Runtime (ReasoningDeltaEvent i _ _)) = Some i"
| "event_identity (Runtime (ModelCompleted i _ _)) = Some i"
| "event_identity (Runtime (ToolCallRecordedEvent i _)) = Some i"
| "event_identity (Runtime (ToolProgressEvent i _ _)) = Some i"
| "event_identity (Runtime (ExternalWorkDeclared i _)) = Some i"
| "event_identity (Runtime (ToolResultEvent i _ _)) = Some i"
| "event_identity (Runtime (ToolBatchCompleted i _ _ _)) = Some i"
| "event_identity (Runtime (CompletionCompleted i _ _)) = Some i"
| "event_identity (Runtime (StepStarted i _)) = Some i"
| "event_identity _ = None"

fun event_run_id :: "observed \<Rightarrow> string option" where
  "event_run_id (Timing t) = Some (tm_run_id t)"
| "event_run_id (Runtime (RunStarted r _)) = Some r"
| "event_run_id (Runtime (RunSucceeded r)) = Some r"
| "event_run_id (Runtime (RunFailed r _ _)) = Some r"
| "event_run_id (Runtime (RunCancelled r _ _)) = Some r"
| "event_run_id (Runtime (RunWaiting r _ _)) = Some r"
| "event_run_id _ = None"

text \<open>\<^verbatim>\<open>OpenTelemetryObserver.on_event\<close>: the span's name and its attributes, in the order they are set.\<close>

definition span_run_id :: "observed \<Rightarrow> string option" where
  "span_run_id ev =
     (case event_run_id ev of
        Some r \<Rightarrow> if r \<noteq> [] then Some r else map_option si_run_id (event_identity ev)
      | None \<Rightarrow> map_option si_run_id (event_identity ev))"

definition span_attributes :: "observed \<Rightarrow> (string \<times> attribute) list" where
  "span_attributes ev =
     (case span_run_id ev of None \<Rightarrow> [] | Some r \<Rightarrow> [(''run.id'', AStr r)]) @
     (case event_identity ev of
        None \<Rightarrow> []
      | Some i \<Rightarrow> [(''step.no'', AInt (si_step_no i)), (''model.round'', AInt (si_model_round i))]) @
     (case ev of
        Timing t \<Rightarrow>
          [(''duration.ms'', ANum (tm_duration_ms t))] @
          (case tm_call_id t of None \<Rightarrow> [] | Some c \<Rightarrow> if c \<noteq> [] then [(''call.id'', AStr c)] else []) @
          (case tm_attempt t of None \<Rightarrow> [] | Some a \<Rightarrow> [(''attempt'', AInt a)])
      | Runtime _ \<Rightarrow> [])"

definition otel_on_event :: "bool \<Rightarrow> observed \<Rightarrow> (string \<times> (string \<times> attribute) list) option" where
  "otel_on_event has_tracer ev = (if has_tracer then Some (event_kind ev, span_attributes ev) else None)"

section \<open>Histories of an observer\<close>

datatype observer_op = Offer observed | Pump | Close nat

fun observer_ops :: "(observed \<Rightarrow> exn option) \<Rightarrow> observer_op list \<Rightarrow> observer_state \<Rightarrow> observer_state" where
  "observer_ops inner [] ob = ob"
| "observer_ops inner (Offer ev # ops) ob = observer_ops inner ops (on_event ev ob)"
| "observer_ops inner (Pump # ops) ob = observer_ops inner ops (pump inner ob)"
| "observer_ops inner (Close n # ops) ob = observer_ops inner ops (observer_aclose inner n ob)"

fun offered :: "observer_op list \<Rightarrow> observed list" where
  "offered [] = []"
| "offered (Offer ev # ops) = ev # offered ops"
| "offered (Pump # ops) = offered ops"
| "offered (Close n # ops) = []"

fun queued_items :: "queued list \<Rightarrow> observed list" where
  "queued_items [] = []"
| "queued_items (Item ev # q) = ev # queued_items q"
| "queued_items (Sentinel # q) = queued_items q"

lemma items_append [simp]: "queued_items (xs @ ys) = queued_items xs @ queued_items ys"
  by (induction xs rule: queued_items.induct) auto

text \<open>Seen and queued events are a subsequence of the offered ones, and the queue is bounded.\<close>

definition observer_ok :: "observed list \<Rightarrow> observer_state \<Rightarrow> bool" where
  "observer_ok evs ob \<longleftrightarrow>
     subseq (ob_seen ob @ queued_items (ob_queue ob)) evs \<and> (0 < ob_maxsize ob \<longrightarrow> length (ob_queue ob) \<le> ob_maxsize ob)"

lemma put_nowait_ok: "observer_ok evs ob \<Longrightarrow> observer_ok (evs @ queued_items [x]) (put_nowait x ob)"
  by (auto simp: observer_ok_def put_nowait_def list_emb_append_mono
      simp flip: append_assoc intro: subseq_order.trans [OF _ list_emb_prefix] list_emb_append2)

lemma put_nowait_fields [simp]:
  "ob_closed (put_nowait x ob) = ob_closed ob" "ob_maxsize (put_nowait x ob) = ob_maxsize ob"
  by (simp_all add: put_nowait_def)

lemma pump_ok: "observer_ok evs ob \<Longrightarrow> observer_ok evs (pump inner ob)"
  by (auto simp: observer_ok_def pump_def Let_def split: list.splits queued.splits option.splits)

lemma pump_fields [simp]: "ob_closed (pump inner ob) = ob_closed ob" "ob_maxsize (pump inner ob) = ob_maxsize ob"
  by (auto simp: pump_def Let_def split: list.splits queued.splits option.splits)

lemma pump_many: "observer_ok evs ob \<Longrightarrow> observer_ok evs ((pump inner ^^ n) ob)"
  "ob_closed ((pump inner ^^ n) ob) = ob_closed ob"
  by (induction n) (auto intro: pump_ok)

lemma aclose_ok:
  assumes "observer_ok evs ob"
  shows "observer_ok evs (observer_aclose inner n ob)" "ob_closed (observer_aclose inner n ob)"
proof -
  have "observer_ok evs (ob\<lparr>ob_closed := True\<rparr>)" using assms by (simp add: observer_ok_def)
  from put_nowait_ok [OF this, of Sentinel] have "observer_ok evs (put_nowait Sentinel (ob\<lparr>ob_closed := True\<rparr>))" by simp
  from pump_many(1) [OF this, of n inner] show "observer_ok evs (observer_aclose inner n ob)"
    by (simp add: observer_aclose_def Let_def observer_ok_def)
  show "ob_closed (observer_aclose inner n ob)"
    by (simp add: observer_aclose_def Let_def pump_many(2))
qed

lemma closed_ops: "observer_ok evs ob \<Longrightarrow> ob_closed ob \<Longrightarrow> observer_ok evs (observer_ops inner ops ob)"
  by (induction inner ops ob rule: observer_ops.induct) (auto simp: on_event_def intro: pump_ok aclose_ok)

lemma observer_ops_ok: "observer_ok evs ob \<Longrightarrow> observer_ok (evs @ offered ops) (observer_ops inner ops ob)"
proof (induction inner ops ob arbitrary: evs rule: observer_ops.induct)
  case (2 inner ev ops ob)
  show ?case
  proof (cases "ob_closed ob")
    case True
    have "observer_ok (evs @ ev # offered ops) ob"
      using 2(2) by (auto simp: observer_ok_def intro: list_emb_append2 list_emb_prefix subseq_order.trans)
    from closed_ops [OF this True] True show ?thesis by (simp add: on_event_def)
  next
    case False
    then show ?thesis using 2(1) [of "evs @ [ev]"] put_nowait_ok [OF 2(2), of "Item ev"] by (simp add: on_event_def)
  qed
next
  case (4 inner n ops ob)
  then show ?case using closed_ops [OF aclose_ok] by simp
qed (auto intro: pump_ok)

text \<open>Observation is isolated: whatever the observer of the host raises, and however far the pump gets
between the events, the events it sees are a subsequence of those offered before the close, in their
order, and the queue never holds more than \<^verbatim>\<open>maxsize\<close> entries.\<close>

theorem observer_sees_subsequence:
  "subseq (ob_seen (observer_ops inner ops (observer_start (new_observer (Suc m))))) (offered ops) \<and>
   length (ob_queue (observer_ops inner ops (observer_start (new_observer (Suc m))))) \<le> Suc m"
proof -
  let ?fin = "observer_ops inner ops (observer_start (new_observer (Suc m)))"
  have size: "ob_maxsize (observer_ops inner ops ob) = ob_maxsize ob" for ob
    by (induction inner ops ob rule: observer_ops.induct)
      (auto simp: on_event_def observer_aclose_def Let_def, (rename_tac n ops ob, induct_tac n, auto)?)
  have "observer_ok [] (observer_start (new_observer (Suc m)))"
    by (simp add: observer_ok_def observer_start_def new_observer_def)
  from observer_ops_ok [OF this, of ops inner] have "observer_ok (offered ops) ?fin" by simp
  moreover have "ob_maxsize ?fin = Suc m" by (simp add: size observer_start_def new_observer_def)
  moreover have "subseq (ob_seen ?fin) (ob_seen ?fin @ queued_items (ob_queue ?fin))"
    by (rule list_emb_prefix) simp
  ultimately show ?thesis by (auto simp: observer_ok_def intro: subseq_order.trans)
qed

end
