(* ===== verification/Session.thy ===== *)
theory Session imports Transcript Control Application Capabilities Compress_Facts Policies Observability begin

text \<open>
  \<^verbatim>\<open>session.py\<close>: the coordination state of one run, as the pipelines and the step provider change it.
  A coroutine may be suspended at an \<^verbatim>\<open>await\<close>; what other tasks do meanwhile is the environment of
  the run: the record \<open>environment\<close> says for each scheduling point, numbered by \<open>rs_clock\<close>, what the
  other tasks do to the state (the stores, the control of the run, the clock \<open>rs_now\<close>, the observer's
  pump) and whether the awaited work is ready.
\<close>

record run_state =
  rs_transcript :: transcript
  rs_caps :: cap_session
  rs_registry :: binding_registry
  rs_app :: app_state
  rs_target :: record_target
  rs_ledger :: ledger
  rs_policy_calls :: int
  rs_completion_policy_calls :: int
  rs_extra :: "context_contribution list"
  rs_external_work :: "external_work_ref list"
  rs_summaries :: "string \<rightharpoonup> summary_projection"
  rs_cache :: "nat \<rightharpoonup> string \<times> context_contribution list"
  rs_control :: run_control
  rs_now :: rat
  rs_observer :: observer_state
  rs_yielded_terminal :: bool
  rs_clock :: nat

text \<open>\<open>rs_yielded_terminal\<close> is the runner's local variable of this name, \<open>rs_clock\<close> counts suspensions.\<close>

record environment =
  env_stores :: "nat \<Rightarrow> run_state \<Rightarrow> run_state"
  env_ready :: "nat \<Rightarrow> bool"

text \<open>\<^verbatim>\<open>RunSession(...)\<close>: the session at the start of a run.\<close>

definition new_run_state :: "run_request \<Rightarrow> transcript \<Rightarrow> capability_snapshot \<Rightarrow> binding_registry \<Rightarrow> app_state \<Rightarrow>
    (string \<rightharpoonup> summary_projection) \<Rightarrow> run_control \<Rightarrow> rat \<Rightarrow> observer_state \<Rightarrow> nat \<Rightarrow> run_state" where
  "new_run_state request t initial registry app summaries control now observer clock =
     \<lparr>rs_transcript = t, rs_caps = new_session initial, rs_registry = registry, rs_app = app,
      rs_target = rq_record_target request, rs_ledger = execution_budget (rq_limits request) (rq_consumed request),
      rs_policy_calls = 0, rs_completion_policy_calls = 0, rs_extra = [], rs_external_work = [],
      rs_summaries = summaries, rs_cache = Map.empty, rs_control = control, rs_now = now, rs_observer = observer,
      rs_yielded_terminal = False, rs_clock = clock\<rparr>"

text \<open>A suspension: the environment acts once.\<close>

definition pause :: "environment \<Rightarrow> run_state \<Rightarrow> run_state" where
  "pause env s = (let s' = env_stores env (rs_clock s) s in s'\<lparr>rs_clock := rs_clock s + 1\<rparr>)"

text \<open>\<^verbatim>\<open>session.observe\<close>: the event is offered to the observer's queue.\<close>

definition observe :: "observed \<Rightarrow> run_state \<Rightarrow> run_state" where
  "observe ev s = s\<lparr>rs_observer := on_event ev (rs_observer s)\<rparr>"

text \<open>\<^verbatim>\<open>control.first_reason\<close> read in a state, and \<^verbatim>\<open>raise_if_stopped\<close> of \<^verbatim>\<open>lifecycle.py\<close>.\<close>

definition stop_reason_now :: "run_state \<Rightarrow> stop_reason option" where
  "stop_reason_now s = first_reason (rs_now s) (rs_control s)"

definition raise_if_stopped :: "run_state \<Rightarrow> (exn, unit, run_state) outcome" where
  "raise_if_stopped s =
     (case stop_reason_now s of
        Some reason \<Rightarrow> (Inl (raised CancelledRunError (stop_reason_value reason)), s)
      | None \<Rightarrow> (Inr (), s))"

lemma raise_if_stopped_state [simp]: "snd (raise_if_stopped s) = s"
  by (simp add: raise_if_stopped_def split: option.split)

text \<open>
  A wait of \<^verbatim>\<open>lifecycle.py\<close> for some work, a stop, and possibly an idle timeout.  The work wins when it is
  ready; otherwise the wait ends with the reason the control reports, or with \<^verbatim>\<open>idle_timeout\<close> when an
  idle timeout is set, or goes on until the work is ready.
\<close>

definition wait_for :: "environment \<Rightarrow> bool \<Rightarrow> run_state \<Rightarrow> (exn, unit, run_state) outcome" where
  "wait_for env idle s =
     (let n = rs_clock s; s = pause env s in
      if env_ready env n then (Inr (), s)
      else
        (case stop_reason_now s of
           Some reason \<Rightarrow> (Inl (raised CancelledRunError (stop_reason_value reason)), s)
         | None \<Rightarrow>
             if idle then (Inl (raised CancelledRunError (stop_reason_value IDLE_TIMEOUT)), s)
             else (Inr (), s)))"

section \<open>The invariant of the stores\<close>

definition stores_wf :: "run_state \<Rightarrow> bool" where
  "stores_wf s \<longleftrightarrow>
     transcript_wf (rs_transcript s) \<and> session_wf (rs_caps s, rs_registry s) \<and> app_wf (rs_app s) \<and>
     control_wf (rs_control s)"

text \<open>One store evolves to the other by the operations of its theory.\<close>

definition stores_run :: "json_validator \<Rightarrow> run_state \<Rightarrow> run_state \<Rightarrow> bool" where
  "stores_run jv s s' \<longleftrightarrow>
     transcript_call\<^sup>*\<^sup>* (rs_transcript s) (rs_transcript s') \<and>
     (session_step jv)\<^sup>*\<^sup>* (rs_caps s, rs_registry s) (rs_caps s', rs_registry s') \<and>
     app_step\<^sup>*\<^sup>* (rs_app s) (rs_app s') \<and>
     control_step\<^sup>*\<^sup>* (rs_now s, rs_control s) (rs_now s', rs_control s')"

text \<open>An environment that uses the stores through their operations only.\<close>

definition env_ok :: "json_validator \<Rightarrow> environment \<Rightarrow> bool" where
  "env_ok jv env \<longleftrightarrow> (\<forall>n s. stores_run jv s (env_stores env n s))"

lemma stores_run_refl [simp]: "stores_run jv s s"
  by (simp add: stores_run_def)

lemma stores_run_trans: "stores_run jv s s' \<Longrightarrow> stores_run jv s' s'' \<Longrightarrow> stores_run jv s s''"
  unfolding stores_run_def by (meson rtranclp_trans)

lemma stores_run_wf: "stores_run jv s s' \<Longrightarrow> stores_wf s \<Longrightarrow> stores_wf s'"
  unfolding stores_run_def stores_wf_def using tv.runs_inv sv.runs_inv av.runs_inv control_steps_wf by fastforce

lemma pause_run: "env_ok jv env \<Longrightarrow> stores_run jv s (pause env s)"
  by (auto simp: env_ok_def pause_def Let_def stores_run_def)

definition quiet :: environment where
  "quiet = \<lparr>env_stores = (\<lambda>_ s. s), env_ready = (\<lambda>_. True)\<rparr>"

lemma quiet_ok [simp]: "env_ok jv quiet"
  by (simp add: env_ok_def quiet_def)

lemma quiet_simps [simp]:
  "pause quiet s = s\<lparr>rs_clock := rs_clock s + 1\<rparr>" "wait_for quiet idle s = (Inr (), s\<lparr>rs_clock := rs_clock s + 1\<rparr>)"
  by (simp_all add: pause_def wait_for_def quiet_def)

end
