(* ===== verification/Streams.thy ===== *)
theory Streams imports Session begin

text \<open>
  \<^verbatim>\<open>lifecycle.py\<close> and the strict iteration of \<^verbatim>\<open>core.py\<close>.  An async generator is a tree: it returns,
  raises, changes the state of the run, or yields an event with two continuations, one for the next
  pull and one for being closed while it is suspended at the \<^verbatim>\<open>yield\<close> (which raises
  \<^verbatim>\<open>GeneratorExit\<close> there).  \<open>drain\<close> is a consumer that pulls to the end, \<open>close_after\<close> one that
  closes the generator early.
\<close>

section \<open>Generators\<close>

datatype 'a gen =
    Ret 'a
  | Raise exn
  | Yield runtime_event "'a gen" "'a gen"
  | Step "run_state \<Rightarrow> run_state" "run_state \<Rightarrow> 'a gen"

primrec gbind :: "'a gen \<Rightarrow> ('a \<Rightarrow> 'b gen) \<Rightarrow> 'b gen" where
  "gbind (Ret a) k = k a"
| "gbind (Raise e) k = Raise e"
| "gbind (Yield ev g c) k = Yield ev (gbind g k) (gbind c k)"
| "gbind (Step u n) k = Step u (\<lambda>s. gbind (n s) k)"

lemma gbind_assoc: "gbind (gbind g f) k = gbind g (\<lambda>a. gbind (f a) k)"
  by (induction g) auto

text \<open>\<^verbatim>\<open>try: g except ...: handler\<close>; a handler that does not match raises its argument again.\<close>

primrec gcatch :: "'a gen \<Rightarrow> (exn \<Rightarrow> 'a gen) \<Rightarrow> 'a gen" where
  "gcatch (Ret a) h = Ret a"
| "gcatch (Raise e) h = h e"
| "gcatch (Yield ev g c) h = Yield ev (gcatch g h) (gcatch c h)"
| "gcatch (Step u n) h = Step u (\<lambda>s. gcatch (n s) h)"

text \<open>\<^verbatim>\<open>try: g finally: f\<close>.\<close>

primrec gfinally :: "'a gen \<Rightarrow> unit gen \<Rightarrow> 'a gen" where
  "gfinally (Ret a) f = gbind f (\<lambda>_. Ret a)"
| "gfinally (Raise e) f = gbind f (\<lambda>_. Raise e)"
| "gfinally (Yield ev g c) f = Yield ev (gfinally g f) (gfinally c f)"
| "gfinally (Step u n) f = Step u (\<lambda>s. gfinally (n s) f)"

definition act :: "(run_state \<Rightarrow> (exn, 'a, run_state) outcome) \<Rightarrow> 'a gen" where
  "act f = Step (\<lambda>s. snd (f s)) (\<lambda>s. case fst (f s) of Inl e \<Rightarrow> Raise e | Inr a \<Rightarrow> Ret a)"

definition effect :: "(run_state \<Rightarrow> run_state) \<Rightarrow> unit gen" where
  "effect u = Step u (\<lambda>_. Ret ())"

definition reading :: "(run_state \<Rightarrow> 'a) \<Rightarrow> 'a gen" where
  "reading f = Step (\<lambda>s. s) (\<lambda>s. Ret (f s))"

definition yield :: "runtime_event \<Rightarrow> unit gen" where
  "yield ev = Yield ev (Ret ()) (Raise (raised GeneratorExit []))"

definition lift_sum :: "exn + 'a \<Rightarrow> 'a gen" where
  "lift_sum r = (case r of Inl e \<Rightarrow> Raise e | Inr a \<Rightarrow> Ret a)"

text \<open>\<^verbatim>\<open>async for ev in g: body\<close> with the local variables of the loop as the value \<open>c\<close>.\<close>

primrec each :: "unit gen \<Rightarrow> (runtime_event \<Rightarrow> 'c \<Rightarrow> 'c gen) \<Rightarrow> 'c \<Rightarrow> 'c gen" where
  "each (Ret _) b c = Ret c"
| "each (Raise e) b c = Raise e"
| "each (Yield ev g q) b c = gbind (b ev c) (\<lambda>c. each g b c)"
| "each (Step u n) b c = Step u (\<lambda>s. each (n s) b c)"

text \<open>
  A loop that can be left early, by its body (\<open>Leave\<close>) or by an exception of the stream, which the
  handler \<open>err\<close> sees together with the local variables.
\<close>

datatype ('c, 'r) turn = Go 'c | Leave 'r

primrec each_until :: "unit gen \<Rightarrow> (runtime_event \<Rightarrow> 'c \<Rightarrow> ('c, 'r) turn gen) \<Rightarrow> ('c \<Rightarrow> 'r gen) \<Rightarrow>
    (exn \<Rightarrow> 'c \<Rightarrow> 'r gen) \<Rightarrow> 'c \<Rightarrow> 'r gen" where
  "each_until (Ret _) b fin err c = fin c"
| "each_until (Raise e) b fin err c = err e c"
| "each_until (Yield ev g q) b fin err c =
     gbind (b ev c) (\<lambda>t. case t of Go c \<Rightarrow> each_until g b fin err c | Leave r \<Rightarrow> Ret r)"
| "each_until (Step u n) b fin err c = Step u (\<lambda>s. each_until (n s) b fin err c)"

text \<open>A vendor stream: its events and the exception that ends it, if any.\<close>

fun of_events :: "runtime_event list \<Rightarrow> exn option \<Rightarrow> unit gen" where
  "of_events [] None = Ret ()"
| "of_events [] (Some e) = Raise e"
| "of_events (ev # evs) failure = Yield ev (of_events evs failure) (Raise (raised GeneratorExit []))"

section \<open>Consumers\<close>

primrec drain :: "'a gen \<Rightarrow> run_state \<Rightarrow> runtime_event list \<times> (exn + 'a) \<times> run_state" where
  "drain (Ret a) s = ([], Inr a, s)"
| "drain (Raise e) s = ([], Inl e, s)"
| "drain (Yield ev g c) s = (case drain g s of (es, r) \<Rightarrow> (ev # es, r))"
| "drain (Step u n) s = drain (n s) (u s)"

text \<open>The consumer closes the generator at the last of \<open>n\<close> pulled events, or drains it before.\<close>

primrec close_after :: "'a gen \<Rightarrow> nat \<Rightarrow> run_state \<Rightarrow> runtime_event list \<times> (exn + 'a) \<times> run_state" where
  "close_after (Ret a) n s = ([], Inr a, s)"
| "close_after (Raise e) n s = ([], Inl e, s)"
| "close_after (Yield ev g c) n s =
     (case (if n \<le> 1 then drain c s else close_after g (n - 1) s) of (es, r) \<Rightarrow> (ev # es, r))"
| "close_after (Step u n') n s = close_after (n' s) n (u s)"

section \<open>Waiting for the next event\<close>

text \<open>
  \<^verbatim>\<open>wait_next\<close> before every pull.  A wait that loses to a stop closes the stream where it is
  suspended (\<open>abandon\<close>: its \<^verbatim>\<open>finally\<close> blocks run, its exception is discarded).
\<close>

definition abandon :: "'a gen \<Rightarrow> exn \<Rightarrow> 'b gen" where
  "abandon c e = gcatch (gbind c (\<lambda>_. Raise e)) (\<lambda>_. Raise e)"

primrec pulls :: "environment \<Rightarrow> bool \<Rightarrow> 'a gen \<Rightarrow> 'a gen" where
  "pulls env idle (Ret a) = Ret a"
| "pulls env idle (Raise e) = Raise e"
| "pulls env idle (Yield ev g c) =
     Yield ev (gbind (gcatch (act (wait_for env idle)) (\<lambda>e. abandon c e)) (\<lambda>_. pulls env idle g)) c"
| "pulls env idle (Step u n) = Step u (\<lambda>s. pulls env idle (n s))"

definition iterate_cancellable :: "environment \<Rightarrow> bool \<Rightarrow> 'a gen \<Rightarrow> 'a gen" where
  "iterate_cancellable env idle g = gbind (act (wait_for env idle)) (\<lambda>_. pulls env idle g)"

text \<open>
  \<^verbatim>\<open>wait_cancellable\<close>: stopped before it starts, or while the coroutine is suspended.  A coroutine that ends
  with asyncio's own \<^verbatim>\<open>CancelledError\<close> counts as stopped, for want of a reason by the host.
\<close>

definition cancelled_work :: "exn \<Rightarrow> 'a gen" where
  "cancelled_work e =
     (if isinstance_exn e AsyncioCancelledError
      then act (\<lambda>s. (Inl (raised CancelledRunError (stop_reason_value
             (case stop_reason_now s of Some reason \<Rightarrow> reason | None \<Rightarrow> HOST_CANCEL))), s))
      else Raise e)"

definition wait_cancellable :: "environment \<Rightarrow> 'a gen \<Rightarrow> 'a gen" where
  "wait_cancellable env g =
     gbind (act raise_if_stopped) (\<lambda>_. gbind (act (wait_for env False)) (\<lambda>_. gcatch g cancelled_work))"

text \<open>\<^verbatim>\<open>sleep_cancellable\<close>: unlike the other waits a stop wins over the finished sleep.\<close>

definition sleep_cancellable :: "environment \<Rightarrow> rat \<Rightarrow> run_state \<Rightarrow> (exn, unit, run_state) outcome" where
  "sleep_cancellable env delay s =
     (if delay \<le> 0 then raise_if_stopped s
      else raise_if_stopped (pause env s))"

section \<open>Strict streams\<close>

definition protocol_error :: "string \<Rightarrow> exn" where
  "protocol_error = raised CompletionProtocolError"

text \<open>The \<^verbatim>\<open>except\<close> clauses of \<^verbatim>\<open>iterate_strict\<close>.\<close>

definition late_error :: "runtime_event option \<Rightarrow> exn \<Rightarrow> exn" where
  "late_error completion e =
     (if isinstance_exn e CompletionProtocolError \<or> isinstance_exn e AsyncioCancelledError then e
      else if completion \<noteq> None then raised_from CompletionProtocolError ''error after completion event'' e
      else e)"

primrec strict :: "(runtime_event \<Rightarrow> bool) \<Rightarrow> unit gen \<Rightarrow> runtime_event option \<Rightarrow> runtime_event option \<Rightarrow> unit gen" where
  "strict is_completion (Ret _) completion final =
     (if completion = None then Raise (protocol_error ''missing completion event'')
      else if (case final of None \<Rightarrow> True | Some l \<Rightarrow> \<not> is_completion l)
      then Raise (protocol_error ''completion event must be last'')
      else Ret ())"
| "strict is_completion (Raise e) completion final = Raise (late_error completion e)"
| "strict is_completion (Yield ev g c) completion final =
     (if completion \<noteq> None then Raise (protocol_error ''trailing event after completion'')
      else
        let completion = (if is_completion ev then Some ev else completion) in
        Yield ev (strict is_completion g completion (Some ev))
          (Raise (late_error completion (raised GeneratorExit []))))"
| "strict is_completion (Step u n) completion final = Step u (\<lambda>s. strict is_completion (n s) completion final)"

definition iterate_strict :: "environment \<Rightarrow> bool \<Rightarrow> (runtime_event \<Rightarrow> bool) \<Rightarrow> unit gen \<Rightarrow> unit gen" where
  "iterate_strict env idle is_completion g = strict is_completion (iterate_cancellable env idle g) None None"

definition consume_strict :: "environment \<Rightarrow> bool \<Rightarrow> (runtime_event \<Rightarrow> bool) \<Rightarrow> unit gen \<Rightarrow>
    (runtime_event \<times> runtime_event list) gen" where
  "consume_strict env idle is_completion g =
     gbind (each (iterate_strict env idle is_completion g)
         (\<lambda>ev (completion, items). Ret (if is_completion ev then Some ev else completion, items @ [ev])) (None, []))
       (\<lambda>(completion, items).
          case completion of None \<Rightarrow> Raise (protocol_error ''missing completion event'')
          | Some ev \<Rightarrow> Ret (ev, items))"

section \<open>Calls on the stores\<close>

definition on_transcript :: "(transcript \<Rightarrow> (exn, 'a, transcript) outcome) \<Rightarrow> run_state \<Rightarrow> (exn, 'a, run_state) outcome" where
  "on_transcript f s = (fst (f (rs_transcript s)), s\<lparr>rs_transcript := snd (f (rs_transcript s))\<rparr>)"

text \<open>
  A recording call of a pipeline: the wait for the transcript's lock can lose to a stop, in which case
  nothing was recorded; under the lock the call is atomic.
\<close>

definition recording :: "environment \<Rightarrow> (transcript \<Rightarrow> (exn, 'a, transcript) outcome) \<Rightarrow> 'a gen" where
  "recording env f = gbind (act (wait_for env False)) (\<lambda>_. act (on_transcript f))"

section \<open>Draining\<close>

text \<open>Running two parts after each other, and the equations of \<open>drain\<close>.\<close>

definition after :: "runtime_event list \<times> (exn + 'a) \<times> run_state \<Rightarrow>
    ('a \<Rightarrow> run_state \<Rightarrow> runtime_event list \<times> (exn + 'b) \<times> run_state) \<Rightarrow>
    runtime_event list \<times> (exn + 'b) \<times> run_state" where
  "after r k = (case r of
     (es, Inl e, s) \<Rightarrow> (es, Inl e, s)
   | (es, Inr a, s) \<Rightarrow> (case k a s of (es', r') \<Rightarrow> (es @ es', r')))"

lemma after_simps [simp]:
  "after (es, Inl e, s) k = (es, Inl e, s)"
  "after (es, Inr a, s) k = (es @ fst (k a s), snd (k a s))"
  by (simp_all add: after_def split: prod.splits)

named_theorems drain_simps

lemma drain_gbind [drain_simps]: "drain (gbind g k) s = after (drain g s) (\<lambda>a. drain (k a))"
  by (induction g arbitrary: s) (auto simp: after_def split: prod.splits sum.splits)

lemma drain_gcatch [drain_simps]:
  "drain (gcatch g h) s =
     (case drain g s of (es, Inl e, s') \<Rightarrow> (case drain (h e) s' of (es', r) \<Rightarrow> (es @ es', r))
      | (es, Inr a, s') \<Rightarrow> (es, Inr a, s'))"
  by (induction g arbitrary: s) (auto split: prod.splits sum.splits)

lemma drain_gfinally [drain_simps]:
  "drain (gfinally g f) s =
     (case drain g s of (es, r, s') \<Rightarrow>
        (case drain f s' of
           (es', Inl e, s'') \<Rightarrow> (es @ es', Inl e, s'') | (es', Inr _, s'') \<Rightarrow> (es @ es', r, s'')))"
proof (induction g arbitrary: s)
  case (Yield ev g c)
  show ?case by (simp add: Yield.IH(1) split: prod.split sum.split)
next
  case (Step u n)
  show ?case by (simp add: Step.IH)
qed (simp_all add: drain_gbind after_def split: prod.split sum.split)

lemma drain_act [drain_simps]: "drain (act f) s = ([], f s)"
  by (cases "f s") (simp add: act_def split: sum.split)

lemma drain_small [drain_simps]:
  "drain (effect u) s = ([], Inr (), u s)"
  "drain (reading f) s = ([], Inr (f s), s)"
  "drain (yield ev) s = ([ev], Inr (), s)"
  "drain (lift_sum r) s = ([], r, s)"
  by (simp_all add: effect_def reading_def yield_def lift_sum_def split: sum.splits)

text \<open>A loop that passes every event on.\<close>

lemma drain_pass:
  "drain (each g (\<lambda>ev c. gbind (yield ev) (\<lambda>_. Ret (f ev c))) c) s =
     (case drain g s of (es, Inl e, s') \<Rightarrow> (es, Inl e, s') | (es, Inr _, s') \<Rightarrow> (es, Inr (fold f es c), s'))"
  by (induction g arbitrary: s c) (auto simp: yield_def split: prod.splits sum.splits)

lemma drain_each_until_pass:
  "drain (each_until g (\<lambda>ev c. gbind (yield ev) (\<lambda>_. Ret (Go (f ev c)))) fin err c) s =
     (case drain g s of (es, r, s') \<Rightarrow>
        (case (case r of Inl e \<Rightarrow> drain (err e (fold f es c)) s' | Inr _ \<Rightarrow> drain (fin (fold f es c)) s') of
           (es', r') \<Rightarrow> (es @ es', r')))"
proof (induction g arbitrary: s c)
  case (Yield ev g q)
  show ?case by (simp add: yield_def Yield.IH(1) [unfolded yield_def gbind.simps] split: prod.split sum.split)
qed (auto split: prod.split)

text \<open>A loop that only collects.\<close>

lemma drain_collect:
  "drain (each g (\<lambda>ev c. Ret (f ev c)) c) s =
     (case drain g s of (es, r, s') \<Rightarrow> ([], (case r of Inl e \<Rightarrow> Inl e | Inr _ \<Rightarrow> Inr (fold f es c)), s'))"
  by (induction g arbitrary: s c) (auto split: prod.splits sum.splits)

section \<open>What strict iteration guarantees\<close>

text \<open>
  The events \<open>es\<close> and the result \<open>r\<close> of a drained strict stream: a completion is the last event, there is
  one when the stream ends normally, and after it only a protocol error can follow.
\<close>

definition is_late :: "exn \<Rightarrow> bool" where
  "is_late e \<longleftrightarrow> isinstance_exn e CompletionProtocolError \<or> isinstance_exn e AsyncioCancelledError"

fun strict_trace :: "(runtime_event \<Rightarrow> bool) \<Rightarrow> runtime_event list \<Rightarrow> exn + unit \<Rightarrow> bool" where
  "strict_trace P [] r = (case r of Inl _ \<Rightarrow> True | Inr _ \<Rightarrow> False)"
| "strict_trace P (ev # es) r =
     (if P ev then es = [] \<and> (case r of Inl e \<Rightarrow> is_late e | Inr _ \<Rightarrow> True) else strict_trace P es r)"

lemma late_error_late: "completion \<noteq> None \<Longrightarrow> is_late (late_error completion e)"
  by (simp add: late_error_def is_late_def)

lemma strict_completed:
  "drain (strict P g (Some c) final) s = (es, r, s') \<Longrightarrow> es = [] \<and> (case r of Inl e \<Rightarrow> is_late e | Inr _ \<Rightarrow> True)"
proof (induction g arbitrary: s)
  case (Ret a)
  then show ?case by (auto simp: protocol_error_def is_late_def split: if_splits)
next
  case (Raise e)
  then show ?case using late_error_late [of "Some c" e] by auto
next
  case (Yield ev g q)
  then show ?case by (auto simp: protocol_error_def is_late_def)
next
  case (Step u n)
  then show ?case using Step.IH [of "n s" "u s"] by simp
qed

lemma strict_drain: "drain (strict P g None final) s = (es, r, s') \<Longrightarrow> strict_trace P es r"
proof (induction g arbitrary: final s es)
  case (Yield ev g q)
  obtain es1 where es: "es = ev # es1"
    and rest: "drain (strict P g (if P ev then Some ev else None) (Some ev)) s = (es1, r, s')"
    using Yield.prems by (auto simp: Let_def split: prod.splits)
  show ?case
  proof (cases "P ev")
    case True
    then show ?thesis using strict_completed [of P g ev "Some ev" s es1 r s'] rest es by simp
  next
    case False
    then show ?thesis using Yield.IH(1) [of "Some ev" s es1] rest es by simp
  qed
next
  case (Step u n)
  then show ?case using Step.IH [of "n s" final "u s" es] by simp
qed (auto simp: protocol_error_def)

lemma strict_trace_Inr: "strict_trace P es (Inr ()) \<Longrightarrow> \<exists>front ev. es = front @ [ev] \<and> P ev \<and> filter P front = []"
proof (induction es)
  case (Cons ev es)
  show ?case
  proof (cases "P ev")
    case False
    then obtain front ev' where "es = front @ [ev'] \<and> P ev' \<and> filter P front = []" using Cons by auto
    then show ?thesis using False by (intro exI [of _ "ev # front"] exI [of _ ev']) simp
  qed (use Cons in \<open>auto intro: exI [of _ "[]"]\<close>)
qed simp

lemma strict_trace_atmost: "strict_trace P es r \<Longrightarrow> length (filter P es) \<le> 1"
  by (induction es) (auto split: if_splits)


section \<open>What every run of a generator keeps\<close>

text \<open>All events that any run yields satisfy \<open>P\<close>.\<close>

primrec all_events :: "(runtime_event \<Rightarrow> bool) \<Rightarrow> 'a gen \<Rightarrow> bool" where
  "all_events P (Ret a) \<longleftrightarrow> True"
| "all_events P (Raise e) \<longleftrightarrow> True"
| "all_events P (Yield ev g c) \<longleftrightarrow> P ev \<and> all_events P g \<and> all_events P c"
| "all_events P (Step u n) \<longleftrightarrow> (\<forall>s. all_events P (n s))"

named_theorems all_events_rules

lemma all_events_gbind [all_events_rules]:
  "all_events P g \<Longrightarrow> (\<And>a. all_events P (k a)) \<Longrightarrow> all_events P (gbind g k)"
  by (induction g) auto

lemma all_events_gcatch [all_events_rules]:
  "all_events P g \<Longrightarrow> (\<And>e. all_events P (h e)) \<Longrightarrow> all_events P (gcatch g h)"
  by (induction g) auto

lemma all_events_gfinally [all_events_rules]:
  "all_events P g \<Longrightarrow> all_events P f \<Longrightarrow> all_events P (gfinally g f)"
  by (induction g) (auto intro: all_events_gbind)

lemma all_events_small [all_events_rules, simp]:
  "all_events P (Ret a)" "all_events P (Raise e)" "all_events P (effect u)" "all_events P (reading f)"
  "all_events P (act h)" "all_events P (lift_sum r)" "all_events P (yield ev) \<longleftrightarrow> P ev"
  by (simp_all add: effect_def reading_def act_def lift_sum_def yield_def split: sum.split)

lemma all_events_cancelled_work [simp]: "all_events P (cancelled_work e)"
  by (simp add: cancelled_work_def)

lemma all_events_wait_cancellable [all_events_rules, simp]: "all_events P (wait_cancellable env (act f))"
  by (simp add: wait_cancellable_def all_events_gbind all_events_gcatch)

lemma all_events_recording [all_events_rules, simp]: "all_events P (recording env f)"
  by (simp add: recording_def all_events_gbind)

lemma all_events_each_until [all_events_rules]:
  "all_events Q g \<Longrightarrow> (\<And>ev c. Q ev \<Longrightarrow> all_events P (b ev c)) \<Longrightarrow> (\<And>c. all_events P (fin c)) \<Longrightarrow>
   (\<And>e c. all_events P (err e c)) \<Longrightarrow> all_events P (each_until g b fin err c)"
  by (induction g arbitrary: c) (auto intro!: all_events_gbind split: turn.split)

lemma all_events_True [simp]: "all_events (\<lambda>_. True) g"
  by (induction g) auto

lemma all_events_pulls [all_events_rules]: "all_events P g \<Longrightarrow> all_events P (pulls env idle g)"
  by (induction g) (auto intro!: all_events_gbind all_events_gcatch simp: abandon_def)

lemma all_events_iterate [all_events_rules]: "all_events P g \<Longrightarrow> all_events P (iterate_cancellable env idle g)"
  by (simp add: iterate_cancellable_def all_events_gbind all_events_pulls)

lemma all_events_strict: "all_events P g \<Longrightarrow> all_events P (strict C g completion final)"
  by (induction g arbitrary: completion final) (auto simp: Let_def)

lemma all_events_iterate_strict [all_events_rules]: "all_events P g \<Longrightarrow> all_events P (iterate_strict env idle C g)"
  by (simp add: iterate_strict_def all_events_strict all_events_iterate)

lemma all_events_drain: "all_events P g \<Longrightarrow> drain g s = (es, r) \<Longrightarrow> list_all P es"
proof (induction g arbitrary: s es)
  case (Step u n)
  then show ?case using Step.IH [of "n s" "u s" es] by simp
qed (auto split: prod.splits)

text \<open>A property of states that every step of the generator keeps.\<close>

primrec keeps :: "(run_state \<Rightarrow> bool) \<Rightarrow> 'a gen \<Rightarrow> bool" where
  "keeps J (Ret a) \<longleftrightarrow> True"
| "keeps J (Raise e) \<longleftrightarrow> True"
| "keeps J (Yield ev g c) \<longleftrightarrow> keeps J g \<and> keeps J c"
| "keeps J (Step u n) \<longleftrightarrow> (\<forall>s. J s \<longrightarrow> J (u s) \<and> keeps J (n s))"

named_theorems keeps_rules

lemma keeps_gbind [keeps_rules]: "keeps J g \<Longrightarrow> (\<And>a. keeps J (k a)) \<Longrightarrow> keeps J (gbind g k)"
  by (induction g) auto

lemma keeps_gcatch [keeps_rules]: "keeps J g \<Longrightarrow> (\<And>e. keeps J (h e)) \<Longrightarrow> keeps J (gcatch g h)"
  by (induction g) auto

lemma keeps_gfinally [keeps_rules]: "keeps J g \<Longrightarrow> keeps J f \<Longrightarrow> keeps J (gfinally g f)"
  by (induction g) (auto intro: keeps_gbind)

lemma keeps_small [keeps_rules]:
  "keeps J (Ret a)" "keeps J (Raise e)" "keeps J (reading f)" "keeps J (lift_sum r)" "keeps J (yield ev)"
  by (simp_all add: reading_def lift_sum_def yield_def split: sum.split)

lemma keeps_effect [keeps_rules]: "(\<And>s. J s \<Longrightarrow> J (u s)) \<Longrightarrow> keeps J (effect u)"
  by (simp add: effect_def)

lemma keeps_act [keeps_rules]: "(\<And>s. J s \<Longrightarrow> J (snd (f s))) \<Longrightarrow> keeps J (act f)"
  by (simp add: act_def split: sum.split)

lemma keeps_each_until [keeps_rules]:
  "keeps J g \<Longrightarrow> (\<And>ev c. keeps J (b ev c)) \<Longrightarrow> (\<And>c. keeps J (fin c)) \<Longrightarrow> (\<And>e c. keeps J (err e c)) \<Longrightarrow>
   keeps J (each_until g b fin err c)"
  by (induction g arbitrary: c) (auto intro!: keeps_gbind split: turn.split)

lemma wait_for_state: "snd (wait_for env idle s) = pause env s"
  by (simp add: wait_for_def Let_def split: option.split)

lemma keeps_wait [keeps_rules]: "(\<And>s. J s \<Longrightarrow> J (pause env s)) \<Longrightarrow> keeps J (act (wait_for env idle))"
  by (rule keeps_act) (simp add: wait_for_state)

lemma keeps_recording [keeps_rules]:
  "(\<And>s. J s \<Longrightarrow> J (pause env s)) \<Longrightarrow> (\<And>s. J s \<Longrightarrow> J (s\<lparr>rs_transcript := snd (f (rs_transcript s))\<rparr>)) \<Longrightarrow>
   keeps J (recording env f)"
  unfolding recording_def by (intro keeps_gbind keeps_wait keeps_act) (simp_all add: on_transcript_def)

lemma keeps_pulls [keeps_rules]:
  "(\<And>s. J s \<Longrightarrow> J (pause env s)) \<Longrightarrow> keeps J g \<Longrightarrow> keeps J (pulls env idle g)"
  by (induction g) (auto intro!: keeps_gbind keeps_gcatch keeps_wait simp: abandon_def keeps_small)

lemma keeps_iterate [keeps_rules]:
  "(\<And>s. J s \<Longrightarrow> J (pause env s)) \<Longrightarrow> keeps J g \<Longrightarrow> keeps J (iterate_cancellable env idle g)"
  by (simp add: iterate_cancellable_def keeps_gbind keeps_wait keeps_pulls)

lemma keeps_strict: "keeps J g \<Longrightarrow> keeps J (strict C g completion final)"
  by (induction g arbitrary: completion final) (auto simp: Let_def)

lemma keeps_iterate_strict [keeps_rules]:
  "(\<And>s. J s \<Longrightarrow> J (pause env s)) \<Longrightarrow> keeps J g \<Longrightarrow> keeps J (iterate_strict env idle C g)"
  by (simp add: iterate_strict_def keeps_strict keeps_iterate)

lemma keeps_of_events [keeps_rules, simp]: "keeps J (of_events evs e)"
  by (induction evs e rule: of_events.induct) auto

lemma keeps_drain: "keeps J g \<Longrightarrow> J s \<Longrightarrow> drain g s = (es, r, s') \<Longrightarrow> J s'"
proof (induction g arbitrary: s es)
  case (Step u n)
  then show ?case using Step.IH [of "n s" "u s" es] by simp
qed (auto split: prod.splits)


text \<open>The values a generator can return.\<close>

primrec results :: "('a \<Rightarrow> bool) \<Rightarrow> 'a gen \<Rightarrow> bool" where
  "results Q (Ret a) \<longleftrightarrow> Q a"
| "results Q (Raise e) \<longleftrightarrow> True"
| "results Q (Yield ev g c) \<longleftrightarrow> results Q g \<and> results Q c"
| "results Q (Step u n) \<longleftrightarrow> (\<forall>s. results Q (n s))"

named_theorems results_rules

lemma results_gbind: "results R g \<Longrightarrow> (\<And>a. R a \<Longrightarrow> results Q (k a)) \<Longrightarrow> results Q (gbind g k)"
  by (induction g) auto

lemma results_any: "(\<And>a. Q a) \<Longrightarrow> results Q g"
  by (induction g) auto

lemma results_then [results_rules]: "(\<And>a. results Q (k a)) \<Longrightarrow> results Q (gbind g k)"
  by (rule results_gbind [OF results_any, of "\<lambda>_. True"]) simp_all

lemma results_each_until:
  assumes "I c" and "\<And>ev c. I c \<Longrightarrow> results (\<lambda>t. case t of Go c \<Rightarrow> I c | Leave r \<Rightarrow> Q r) (b ev c)"
    and "\<And>c. I c \<Longrightarrow> results Q (fin c)" and "\<And>e c. I c \<Longrightarrow> results Q (err e c)"
  shows "results Q (each_until g b fin err c)"
  using assms(1)
proof (induction g arbitrary: c)
  case (Yield ev g q)
  show ?case
    by (simp, rule results_gbind [OF assms(2) [OF Yield.prems]]) (auto intro: Yield.IH(1) split: turn.splits)
qed (auto intro: assms)

lemma results_drain: "results Q g \<Longrightarrow> drain g s = (es, Inr a, s') \<Longrightarrow> Q a"
proof (induction g arbitrary: s es)
  case (Step u n)
  then show ?case using Step.IH [of "n s" "u s" es] by simp
qed (auto split: prod.splits)

end
