(* ===== verification/Trace_Logic.thy ===== *)
theory Trace_Logic imports Streams begin

text \<open>
  A weakest-precondition calculus for generators.  An automaton \<open>\<delta>\<close> reads the events that a drained
  generator yields; \<open>wp \<delta> g q s Q\<close> says that from the automaton's state \<open>q\<close> and the run state \<open>s\<close> the
  automaton accepts them all, and that \<open>Q\<close> holds of the result and the two final states.  The rules
  follow the constructs of the generators, \<open>wp_drain\<close> turns the outcome into a statement on \<open>drain\<close>.
\<close>

fun accepts :: "('q \<Rightarrow> runtime_event \<Rightarrow> 'q option) \<Rightarrow> 'q \<Rightarrow> runtime_event list \<Rightarrow> 'q option" where
  "accepts \<delta> q [] = Some q"
| "accepts \<delta> q (ev # es) = (case \<delta> q ev of None \<Rightarrow> None | Some q \<Rightarrow> accepts \<delta> q es)"

lemma accepts_append:
  "accepts \<delta> q (xs @ ys) = (case accepts \<delta> q xs of None \<Rightarrow> None | Some q \<Rightarrow> accepts \<delta> q ys)"
  by (induction xs arbitrary: q) (auto split: option.split)

primrec wp :: "('q \<Rightarrow> runtime_event \<Rightarrow> 'q option) \<Rightarrow> 'a gen \<Rightarrow> 'q \<Rightarrow> run_state \<Rightarrow>
    (exn + 'a \<Rightarrow> 'q \<Rightarrow> run_state \<Rightarrow> bool) \<Rightarrow> bool" where
  "wp \<delta> (Ret a) q s Q \<longleftrightarrow> Q (Inr a) q s"
| "wp \<delta> (Raise e) q s Q \<longleftrightarrow> Q (Inl e) q s"
| "wp \<delta> (Yield ev g c) q s Q \<longleftrightarrow> (case \<delta> q ev of None \<Rightarrow> False | Some q \<Rightarrow> wp \<delta> g q s Q)"
| "wp \<delta> (Step u n) q s Q \<longleftrightarrow> wp \<delta> (n s) q (u s) Q"

lemma wp_drain:
  "wp \<delta> g q s Q \<longleftrightarrow> (case drain g s of (es, r, s') \<Rightarrow>
     (case accepts \<delta> q es of None \<Rightarrow> False | Some q' \<Rightarrow> Q r q' s'))"
  by (induction g arbitrary: q s) (auto split: option.split prod.splits)

section \<open>Rules\<close>

lemma wp_mono: "wp \<delta> g q s Q \<Longrightarrow> (\<And>r q s. Q r q s \<Longrightarrow> R r q s) \<Longrightarrow> wp \<delta> g q s R"
  by (induction g arbitrary: q s) (auto split: option.splits)

named_theorems wp_simps

lemma wp_gbind [wp_simps]:
  "wp \<delta> (gbind g k) q s Q \<longleftrightarrow>
     wp \<delta> g q s (\<lambda>r q s. case r of Inl e \<Rightarrow> Q (Inl e) q s | Inr a \<Rightarrow> wp \<delta> (k a) q s Q)"
  by (induction g arbitrary: q s) (auto split: option.split)

lemma wp_gcatch [wp_simps]:
  "wp \<delta> (gcatch g h) q s Q \<longleftrightarrow>
     wp \<delta> g q s (\<lambda>r q s. case r of Inl e \<Rightarrow> wp \<delta> (h e) q s Q | Inr a \<Rightarrow> Q (Inr a) q s)"
  by (induction g arbitrary: q s) (auto split: option.split)

lemma wp_gfinally [wp_simps]:
  "wp \<delta> (gfinally g f) q s Q \<longleftrightarrow>
     wp \<delta> g q s (\<lambda>r q s. wp \<delta> f q s (\<lambda>r' q s. case r' of Inl e \<Rightarrow> Q (Inl e) q s | Inr _ \<Rightarrow> Q r q s))"
  by (induction g arbitrary: q s) (simp_all add: wp_gbind cong: sum.case_cong option.case_cong)

lemma wp_act [wp_simps]: "wp \<delta> (act f) q s Q \<longleftrightarrow> Q (fst (f s)) q (snd (f s))"
  by (simp add: act_def split: sum.split)

lemma wp_small [wp_simps]:
  "wp \<delta> (effect u) q s Q \<longleftrightarrow> Q (Inr ()) q (u s)"
  "wp \<delta> (reading f) q s Q' \<longleftrightarrow> Q' (Inr (f s)) q s"
  "wp \<delta> (yield ev) q s Q \<longleftrightarrow> (case \<delta> q ev of None \<Rightarrow> False | Some q \<Rightarrow> Q (Inr ()) q s)"
  "wp \<delta> (lift_sum r) q s Q' \<longleftrightarrow> Q' r q s"
  by (simp_all add: effect_def reading_def yield_def lift_sum_def split: sum.split cong: option.case_cong)

text \<open>A wait for a coroutine ends with an error or with the coroutine's own value.\<close>

lemma wp_wait_cancellable:
  assumes "\<And>e s. Q (Inl e) q s" and "\<And>a s. fst (f s) = Inr a \<Longrightarrow> Q (Inr a) q (snd (f s))"
  shows "wp \<delta> (wait_cancellable env (act f)) q s Q"
proof -
  have "wp \<delta> (gcatch (act f) cancelled_work) q t Q" for t
    using assms by (cases "fst (f t)") (simp_all add: wp_gcatch wp_act cancelled_work_def)
  then show ?thesis by (simp add: wait_cancellable_def wp_gbind wp_act assms(1) split: sum.split)
qed

text \<open>A generator that yields nothing leaves the automaton alone.\<close>

lemma wp_silent: "all_events (\<lambda>_. False) g \<Longrightarrow> (\<And>r s. Q r q s) \<Longrightarrow> wp \<delta> g q s Q"
  by (induction g arbitrary: s) auto

text \<open>An invariant of the state that a silent or transparent generator keeps.\<close>

lemma wp_keeps:
  "all_events E g \<Longrightarrow> keeps J g \<Longrightarrow> J s \<Longrightarrow> (\<And>ev. E ev \<Longrightarrow> \<delta> q ev = Some q) \<Longrightarrow>
   (\<And>r s. J s \<Longrightarrow> Q r q s) \<Longrightarrow> wp \<delta> g q s Q"
  by (induction g arbitrary: s) auto

text \<open>A generator that yields nothing and returns only values with \<open>R\<close>.\<close>

lemma wp_results:
  "all_events (\<lambda>_. False) g \<Longrightarrow> results R g \<Longrightarrow> (\<And>e s. Q (Inl e) q s) \<Longrightarrow> (\<And>a s. R a \<Longrightarrow> Q (Inr a) q s) \<Longrightarrow>
   wp \<delta> g q s Q"
  by (induction g arbitrary: s) auto

lemma wp_silent_then:
  "all_events (\<lambda>_. False) g \<Longrightarrow> (\<And>a s. wp \<delta> (k a) q s Q) \<Longrightarrow> (\<And>e s. Q (Inl e) q s) \<Longrightarrow> wp \<delta> (gbind g k) q s Q"
  by (induction g arbitrary: s) auto

end
