(* ===== verification/Guards.thy ===== *)
theory Guards imports Trace_Logic begin

text \<open>
  Rely-guarantee reasoning about generators.  \<open>guard \<delta> I g q s\<close>: from the automaton's state \<open>q\<close> and the run
  state \<open>s\<close> every step of \<open>g\<close> keeps \<open>I\<close>, every event it yields is accepted, and this holds whatever the
  consumer does to the state between two pulls as long as it keeps \<open>I\<close>, also when it closes \<open>g\<close>.
\<close>

primrec guard :: "('q \<Rightarrow> runtime_event \<Rightarrow> 'q option) \<Rightarrow> ('q \<Rightarrow> run_state \<Rightarrow> bool) \<Rightarrow> 'a gen \<Rightarrow> 'q \<Rightarrow> run_state \<Rightarrow> bool" where
  "guard \<delta> I (Ret a) q s \<longleftrightarrow> I q s"
| "guard \<delta> I (Raise e) q s \<longleftrightarrow> I q s"
| "guard \<delta> I (Yield ev g c) q s \<longleftrightarrow> I q s \<and>
     (\<exists>q'. \<delta> q ev = Some q' \<and> I q' s \<and> (\<forall>s'. I q' s' \<longrightarrow> guard \<delta> I g q' s' \<and> guard \<delta> I c q' s'))"
| "guard \<delta> I (Step u n) q s \<longleftrightarrow> I q s \<and> guard \<delta> I (n s) q (u s)"

lemma guard_start: "guard \<delta> I g q s \<Longrightarrow> I q s"
  by (cases g) auto

lemma guard_drain:
  "guard \<delta> I g q s \<Longrightarrow> drain g s = (es, r, s') \<Longrightarrow> \<exists>q'. accepts \<delta> q es = Some q' \<and> I q' s'"
proof (induction g arbitrary: q s es)
  case (Step u n)
  show ?case by (rule Step.IH) (use Step.prems in auto)
qed (auto split: prod.splits)

section \<open>Rules\<close>

named_theorems guard_rules

lemma guard_gbind [guard_rules]:
  "guard \<delta> I g q s \<Longrightarrow> (\<And>a q s. I q s \<Longrightarrow> guard \<delta> I (k a) q s) \<Longrightarrow> guard \<delta> I (gbind g k) q s"
  by (induction g arbitrary: q s) fastforce+

lemma guard_gcatch [guard_rules]:
  "guard \<delta> I g q s \<Longrightarrow> (\<And>e q s. I q s \<Longrightarrow> guard \<delta> I (h e) q s) \<Longrightarrow> guard \<delta> I (gcatch g h) q s"
  by (induction g arbitrary: q s) fastforce+

lemma guard_gfinally [guard_rules]:
  "guard \<delta> I g q s \<Longrightarrow> (\<And>q s. I q s \<Longrightarrow> guard \<delta> I f q s) \<Longrightarrow> guard \<delta> I (gfinally g f) q s"
  by (induction g arbitrary: q s) (fastforce intro: guard_gbind)+

lemma guard_act [guard_rules]: "I q s \<Longrightarrow> I q (snd (f s)) \<Longrightarrow> guard \<delta> I (act f) q s"
  by (simp add: act_def split: sum.split)

lemma guard_effect [guard_rules]: "I q s \<Longrightarrow> I q (u s) \<Longrightarrow> guard \<delta> I (effect u) q s"
  by (simp add: effect_def)

lemma guard_small [guard_rules, simp]:
  "guard \<delta> I (reading f) q s \<longleftrightarrow> I q s" "guard \<delta> I (lift_sum r) q s \<longleftrightarrow> I q s"
  by (auto simp: reading_def lift_sum_def split: sum.split)

lemma guard_yield [guard_rules]:
  "I q s \<Longrightarrow> \<delta> q ev = Some q' \<Longrightarrow> I q' s \<Longrightarrow> guard \<delta> I (yield ev) q s"
  by (simp add: yield_def)

text \<open>A silent part keeps the automaton's state for what follows.\<close>

lemma guard_silent:
  "all_events (\<lambda>_. False) g \<Longrightarrow> guard \<delta> I g q s \<Longrightarrow> (\<And>a s. I q s \<Longrightarrow> guard \<delta> I (k a) q s) \<Longrightarrow>
   guard \<delta> I (gbind g k) q s"
  by (induction g arbitrary: s) auto

lemma guard_act_then:
  "I q s \<Longrightarrow> (\<And>e s'. f s = (Inl e, s') \<Longrightarrow> I q s') \<Longrightarrow> (\<And>a s'. f s = (Inr a, s') \<Longrightarrow> guard \<delta> I (k a) q s') \<Longrightarrow>
   guard \<delta> I (gbind (act f) k) q s"
  by (cases "f s") (auto simp: act_def split: sum.split)

lemma guard_keeps:
  "all_events (\<lambda>_. False) g \<Longrightarrow> keeps (I q) g \<Longrightarrow> I q s \<Longrightarrow> guard \<delta> I g q s"
  by (induction g arbitrary: s) auto

section \<open>Iteration\<close>

lemma guard_pass [guard_rules]:
  "guard \<delta> I g q s \<Longrightarrow> guard \<delta> I (each g (\<lambda>ev c. gbind (yield ev) (\<lambda>_. Ret (f ev c))) c) q s"
  by (induction g arbitrary: q s c) (auto simp: yield_def)

lemma guard_pass_until:
  "guard \<delta> I g q s \<Longrightarrow> (\<And>c q s. I q s \<Longrightarrow> guard \<delta> I (fin c) q s) \<Longrightarrow> (\<And>e c q s. I q s \<Longrightarrow> guard \<delta> I (err e c) q s) \<Longrightarrow>
   guard \<delta> I (each_until g (\<lambda>ev c. gbind (yield ev) (\<lambda>_. Ret (Go (f ev c)))) fin err c) q s"
  by (induction g arbitrary: q s c) (auto simp: yield_def)

text \<open>A loop that consumes the events of \<open>g\<close> itself: every step of \<open>g\<close> keeps \<open>I\<close>.\<close>

primrec steady :: "('q \<Rightarrow> run_state \<Rightarrow> bool) \<Rightarrow> 'a gen \<Rightarrow> bool" where
  "steady I (Ret a) \<longleftrightarrow> True"
| "steady I (Raise e) \<longleftrightarrow> True"
| "steady I (Yield ev g c) \<longleftrightarrow> steady I g \<and> steady I c"
| "steady I (Step u n) \<longleftrightarrow> (\<forall>q s. I q s \<longrightarrow> I q (u s)) \<and> (\<forall>s. steady I (n s))"

lemma steady_gbind: "steady I g \<Longrightarrow> (\<And>a. steady I (k a)) \<Longrightarrow> steady I (gbind g k)"
  by (induction g) auto

lemma steady_gcatch: "steady I g \<Longrightarrow> (\<And>e. steady I (h e)) \<Longrightarrow> steady I (gcatch g h)"
  by (induction g) auto

lemma steady_act: "(\<And>q s. I q s \<Longrightarrow> I q (snd (f s))) \<Longrightarrow> steady I (act f)"
  by (simp add: act_def split: sum.split)

lemma steady_wait: "(\<And>q s. I q s \<Longrightarrow> I q (pause env s)) \<Longrightarrow> steady I (act (wait_for env idle))"
  by (rule steady_act) (simp add: wait_for_state)

lemma steady_pulls: "(\<And>q s. I q s \<Longrightarrow> I q (pause env s)) \<Longrightarrow> steady I g \<Longrightarrow> steady I (pulls env idle g)"
  by (induction g) (auto intro!: steady_gbind steady_gcatch steady_wait simp: abandon_def)

lemma steady_of_events [simp]: "steady I (of_events evs e)"
  by (induction evs e rule: of_events.induct) auto

lemma steady_iterate: "(\<And>q s. I q s \<Longrightarrow> I q (pause env s)) \<Longrightarrow> steady I (iterate_cancellable env idle (of_events evs e))"
  by (simp add: iterate_cancellable_def steady_gbind steady_wait steady_pulls)

lemma guard_consume:
  "steady I g \<Longrightarrow> (\<And>ev c q s. I q s \<Longrightarrow> guard \<delta> I (b ev c) q s) \<Longrightarrow>
   (\<And>c q s. I q s \<Longrightarrow> guard \<delta> I (fin c) q s) \<Longrightarrow> (\<And>e c q s. I q s \<Longrightarrow> guard \<delta> I (err e c) q s) \<Longrightarrow> I q s \<Longrightarrow>
   guard \<delta> I (each_until g b fin err c) q s"
  by (induction g arbitrary: q s c) (auto intro!: guard_gbind split: turn.split)

lemma guard_wait [guard_rules]: "I q s \<Longrightarrow> I q (pause env s) \<Longrightarrow> guard \<delta> I (act (wait_for env idle)) q s"
  by (rule guard_act) (simp_all add: wait_for_state)

lemma guard_wait_cancellable [guard_rules]:
  "(\<And>q s. I q s \<Longrightarrow> I q (pause env s)) \<Longrightarrow> (\<And>q s. I q s \<Longrightarrow> I q (snd (f s))) \<Longrightarrow> I q s \<Longrightarrow>
   guard \<delta> I (wait_cancellable env (act f)) q s"
  unfolding wait_cancellable_def cancelled_work_def
  by (auto intro!: guard_gbind guard_gcatch guard_act guard_wait)

lemma guard_never: "results (\<lambda>_. False) g \<Longrightarrow> guard \<delta> I g q s \<Longrightarrow> guard \<delta> I (gbind g k) q s"
  by (induction g arbitrary: q s) auto

lemma abandon_never: "results (\<lambda>_. False) (abandon c e)"
  by (simp add: abandon_def, induction c) auto

lemma guard_pulls [guard_rules]:
  "(\<And>q s. I q s \<Longrightarrow> I q (pause env s)) \<Longrightarrow> guard \<delta> I g q s \<Longrightarrow> guard \<delta> I (pulls env idle g) q s"
proof (induction g arbitrary: q s)
  case (Yield ev g c)
  then obtain q' where q': "\<delta> q ev = Some q'" "I q s" "I q' s" "\<And>t. I q' t \<Longrightarrow> guard \<delta> I g q' t \<and> guard \<delta> I c q' t" by auto
  have waited: "guard \<delta> I (gbind (gcatch (act (wait_for env idle)) (\<lambda>e. abandon c e)) (\<lambda>_. pulls env idle g)) q' t"
    if t: "I q' t" for t
  proof -
    have p: "I q' (pause env t)" by (rule Yield.prems(1)) (rule t)
    have c: "guard \<delta> I (gbind (abandon c e) (\<lambda>_. pulls env idle g)) q' (pause env t)" for e
      unfolding abandon_def
      by (rule guard_never [OF abandon_never [unfolded abandon_def]]) (intro guard_gcatch guard_gbind conjunct2 [OF q'(4)] p, auto)
    have g: "guard \<delta> I (pulls env idle g) q' (pause env t)"
      by (rule Yield.IH(1)) (use Yield.prems(1) q'(4) p in auto)
    show ?thesis
      using t c g by (cases "fst (wait_for env idle t)") (simp_all add: act_def wait_for_state)
  qed
  then show ?case using q' by auto
qed auto

lemma guard_strict [guard_rules]: "guard \<delta> I g q s \<Longrightarrow> guard \<delta> I (strict C g completion final) q s"
  by (induction g arbitrary: q s completion final) (auto simp: Let_def split: option.split)

lemma guard_iterate_strict:
  "(\<And>q s. I q s \<Longrightarrow> I q (pause env s)) \<Longrightarrow> (\<And>q s. I q s \<Longrightarrow> guard \<delta> I g q s) \<Longrightarrow> I q s \<Longrightarrow>
   guard \<delta> I (iterate_strict env idle C g) q s"
  unfolding iterate_strict_def iterate_cancellable_def
  by (rule guard_strict) (auto intro!: guard_gbind guard_wait guard_pulls)

end
