(* ===== verification/Agent_Loop.thy ===== *)
theory Agent_Loop imports Streams begin

text \<open>
  \<^verbatim>\<open>core.py\<close>: the agent loop over its four ports.  The ports are arguments (\<open>execution_ports\<close>), so that a host's
  replacement of a phase is covered too.  The \<^verbatim>\<open>while True\<close> of the loop has fuel: the result \<open>False\<close> means
  that it ran out, which a limit on the steps or the model rounds excludes.  \<open>ep_invalidate\<close> is the optional
  \<^verbatim>\<open>invalidate_summary\<close> of a step provider.
\<close>

record execution_ports =
  ep_prepare :: "step_identity \<Rightarrow> run_state \<Rightarrow> (exn, prepared_step, run_state) outcome"
  ep_model :: "prepared_step \<Rightarrow> unit gen"
  ep_tools :: "tool_batch_command \<Rightarrow> unit gen"
  ep_complete :: "completion_command \<Rightarrow> unit gen"
  ep_invalidate :: "(record_target \<Rightarrow> run_state \<Rightarrow> (exn, unit, run_state) outcome) option"

section \<open>Allocating steps\<close>

definition beyond :: "int option \<Rightarrow> int \<Rightarrow> bool" where
  "beyond limit n \<longleftrightarrow> (case limit of None \<Rightarrow> False | Some m \<Rightarrow> m < n)"

definition model_allowed :: "execution_limits \<Rightarrow> ledger \<Rightarrow> int \<Rightarrow> exn + unit" where
  "model_allowed limits l model_rounds =
     (if rb_remaining_attempts (el_recovery limits) \<le> 0
      then Inl (raised BudgetExhaustedError ''remaining_attempts exhausted'')
      else
        (case raise_if_exhausted l of
           Inl e \<Rightarrow> Inl e
         | Inr _ \<Rightarrow>
             if beyond (el_max_model_rounds limits) (model_rounds + 1)
             then Inl (raised BudgetExhaustedError ''max_model_rounds exhausted'')
             else Inr ()))"

text \<open>\<^verbatim>\<open>allocate\<close>; the counters of the loop are the pair \<open>(step_no, model_rounds)\<close>.\<close>

definition allocate :: "execution_limits \<Rightarrow> string \<Rightarrow> bool \<Rightarrow> int \<times> int \<Rightarrow> run_state \<Rightarrow>
    (exn, step_identity \<times> int \<times> int, run_state) outcome" where
  "allocate limits run_id consume_model counters s =
     andthen (raise_if_stopped s) (\<lambda>_ s.
       let (step_no, model_rounds) = counters in
       if beyond (el_max_steps limits) (step_no + 1)
       then (Inl (raised BudgetExhaustedError ''max_steps exhausted''), s)
       else
         (case (if consume_model then model_allowed limits (rs_ledger s) model_rounds else Inr ()) of
            Inl e \<Rightarrow> (Inl e, s)
          | Inr _ \<Rightarrow>
              let step_no = step_no + 1; model_rounds = (if consume_model then model_rounds + 1 else model_rounds)
              in (Inr (\<lparr>si_run_id = run_id, si_step_no = step_no, si_model_round = model_rounds\<rparr>,
                    step_no, model_rounds), s)))"

section \<open>The phases of a step\<close>

fun keep_result :: "runtime_event \<Rightarrow> model_result option \<Rightarrow> model_result option" where
  "keep_result (ModelCompleted _ result _) c = Some result"
| "keep_result _ c = c"

fun keep_batch :: "runtime_event \<Rightarrow> flow_decision option \<Rightarrow> flow_decision option" where
  "keep_batch (ToolBatchCompleted _ d _ _) c = Some d"
| "keep_batch _ c = c"

fun keep_completion :: "runtime_event \<Rightarrow> flow_decision option \<Rightarrow> flow_decision option" where
  "keep_completion (CompletionCompleted _ d _) c = Some d"
| "keep_completion _ c = c"

fun is_model_done :: "runtime_event \<Rightarrow> bool" where
  "is_model_done (ModelCompleted _ _ _) = True"
| "is_model_done _ = False"

fun is_batch_done :: "runtime_event \<Rightarrow> bool" where
  "is_batch_done (ToolBatchCompleted _ _ _ _) = True"
| "is_batch_done _ = False"

fun is_completion_done :: "runtime_event \<Rightarrow> bool" where
  "is_completion_done (CompletionCompleted _ _ _) = True"
| "is_completion_done _ = False"

text \<open>The three loops \<^verbatim>\<open>async for event in iterate_strict(...): yield event\<close> have one shape.\<close>

definition phase_loop :: "environment \<Rightarrow> bool \<Rightarrow> (runtime_event \<Rightarrow> bool) \<Rightarrow> (runtime_event \<Rightarrow> 'c option \<Rightarrow> 'c option) \<Rightarrow>
    string \<Rightarrow> unit gen \<Rightarrow> 'c gen" where
  "phase_loop env idle is_completion keep missing g =
     gbind (each (iterate_strict env idle is_completion g) (\<lambda>ev c. gbind (yield ev) (\<lambda>_. Ret (keep ev c))) None)
       (\<lambda>found. case found of None \<Rightarrow> Raise (protocol_error missing) | Some x \<Rightarrow> Ret x)"

definition model_phase :: "environment \<Rightarrow> execution_ports \<Rightarrow> prepared_step \<Rightarrow> model_result gen" where
  "model_phase env P prepared =
     phase_loop env False is_model_done keep_result ''model completion event has the wrong type'' (ep_model P prepared)"

definition tools_phase :: "environment \<Rightarrow> bool \<Rightarrow> execution_ports \<Rightarrow> tool_batch_command \<Rightarrow> flow_decision gen" where
  "tools_phase env idle P command =
     phase_loop env idle is_batch_done keep_batch ''tool batch completion event has the wrong type'' (ep_tools P command)"

definition completion_phase :: "environment \<Rightarrow> bool \<Rightarrow> execution_ports \<Rightarrow> completion_command \<Rightarrow> flow_decision gen" where
  "completion_phase env idle P command =
     phase_loop env idle is_completion_done keep_completion ''completion event has the wrong type'' (ep_complete P command)"

definition require_pending :: "flow_decision \<Rightarrow> exn + pending_ref" where
  "require_pending d =
     (case fd_pending_ref d of
        None \<Rightarrow> Inl (raised ProtocolError ''WAIT is missing a pending_ref'')
      | Some p \<Rightarrow> if pr_value p = [] then Inl (raised ProtocolError ''WAIT is missing a pending_ref'') else Inr p)"

definition wait_for_host :: "string \<Rightarrow> flow_decision \<Rightarrow> bool gen" where
  "wait_for_host run_id d =
     gbind (lift_sum (require_pending d)) (\<lambda>p. gbind (yield (RunWaiting run_id p d)) (\<lambda>_. Ret True))"

definition result_command :: "step_identity \<Rightarrow> prepared_step \<Rightarrow> model_result \<Rightarrow> tool_batch_command" where
  "result_command i prepared result =
     \<lparr>tb_identity = i, tb_record_target = ps_record_target prepared, tb_calls = mres_tool_calls result,
      tb_capabilities = ps_capabilities prepared, tb_assistant_text = mres_text result,
      tb_reasoning = mres_reasoning result, tb_previous_receipt = None, tb_attempt = mres_attempt result\<rparr>"

text \<open>What a model result leads to: its tool calls, or the completion of the turn.\<close>

definition decide_phase :: "environment \<Rightarrow> bool \<Rightarrow> execution_ports \<Rightarrow> step_identity \<Rightarrow> prepared_step \<Rightarrow> model_result \<Rightarrow>
    flow_decision gen" where
  "decide_phase env idle P i prepared result =
     (if mres_tool_calls result \<noteq> []
      then gbind (yield (StepStarted i ''tools'')) (\<lambda>_. tools_phase env idle P (result_command i prepared result))
      else gbind (yield (StepStarted i ''completion'')) (\<lambda>_.
        completion_phase env idle P \<lparr>cm_step = prepared, cm_result = result\<rparr>))"

fun agent_rounds :: "environment \<Rightarrow> bool \<Rightarrow> execution_ports \<Rightarrow> execution_limits \<Rightarrow> string \<Rightarrow> nat \<Rightarrow> int \<times> int \<Rightarrow> bool gen" where
  "agent_rounds env idle P limits run_id 0 counters = Ret False"
| "agent_rounds env idle P limits run_id (Suc fuel) counters =
     gbind (act (allocate limits run_id True counters)) (\<lambda>(i, counters).
     gbind (yield (StepStarted i ''model'')) (\<lambda>_.
     gbind (wait_cancellable env (act (ep_prepare P i))) (\<lambda>prepared.
     gbind (model_phase env P prepared) (\<lambda>result.
     gbind (decide_phase env idle P i prepared result) (\<lambda>d.
       case fd_flow d of
         CONTINUE \<Rightarrow> agent_rounds env idle P limits run_id fuel counters
       | WAIT \<Rightarrow> wait_for_host run_id d
       | FINISH \<Rightarrow> Ret True)))))"

definition entry_command :: "step_identity \<Rightarrow> prepared_step \<Rightarrow> execution_entry \<Rightarrow> tool_batch_command" where
  "entry_command i prepared entry =
     \<lparr>tb_identity = i, tb_record_target = ps_record_target prepared, tb_calls = te_calls entry,
      tb_capabilities = ps_capabilities prepared, tb_assistant_text = te_assistant_text entry,
      tb_reasoning = te_reasoning entry, tb_previous_receipt = te_previous_receipt entry, tb_attempt = 1\<rparr>"

definition agent_run :: "environment \<Rightarrow> bool \<Rightarrow> execution_ports \<Rightarrow> execution_limits \<Rightarrow> consumed_budget \<Rightarrow> run_request \<Rightarrow>
    nat \<Rightarrow> bool gen" where
  "agent_run env idle P limits consumed request fuel =
     (let counters = (cb_steps consumed, cb_model_rounds consumed); run_id = rq_run_id request in
      (case rq_entry request of
         CompletedEntry \<Rightarrow> Ret True
       | ModelEntry \<Rightarrow> agent_rounds env idle P limits run_id fuel counters
       | ToolBatchEntry _ _ _ _ continue_after \<Rightarrow>
           gbind (act (allocate limits run_id False counters)) (\<lambda>(i, counters).
           gbind (yield (StepStarted i ''tools'')) (\<lambda>_.
           gbind (wait_cancellable env (act (ep_prepare P i))) (\<lambda>prepared.
           gbind (tools_phase env idle P (entry_command i prepared (rq_entry request))) (\<lambda>d.
             case fd_flow d of
               FINISH \<Rightarrow> Ret True
             | WAIT \<Rightarrow> wait_for_host run_id d
             | CONTINUE \<Rightarrow>
                 if continue_after then agent_rounds env idle P limits run_id fuel counters else Ret True))))))"

section \<open>Termination\<close>

lemma allocate_state: "snd (allocate limits run_id b c s) = s"
proof -
  obtain x where "raise_if_stopped s = (x, s)"
    by (metis raise_if_stopped_def prod.collapse option.exhaust snd_conv option.simps(4) option.simps(5))
  then show ?thesis by (cases x) (auto simp: allocate_def Let_def split: prod.split sum.split)
qed

lemma allocate_Inr:
  assumes "allocate limits run_id consume (n, m) s = (Inr (i, c), s')"
  shows "\<not> beyond (el_max_steps limits) (n + 1) \<and> c = (n + 1, if consume then m + 1 else m) \<and>
    i = \<lparr>si_run_id = run_id, si_step_no = n + 1, si_model_round = snd c\<rparr> \<and>
    (consume \<longrightarrow> \<not> beyond (el_max_model_rounds limits) (m + 1)) \<and> s' = s"
  using assms allocate_state [of limits run_id consume "(n, m)" s]
  by (auto simp: allocate_def Let_def model_allowed_def elim!: andthen_InrE split: if_splits sum.splits)

text \<open>A gap to the limits that every round makes smaller.\<close>

definition steps_left :: "execution_limits \<Rightarrow> int \<times> int \<Rightarrow> nat option" where
  "steps_left limits c =
     (case (el_max_steps limits, el_max_model_rounds limits) of
        (Some n, Some m) \<Rightarrow> Some (min (nat (n - fst c)) (nat (m - snd c)))
      | (Some n, None) \<Rightarrow> Some (nat (n - fst c))
      | (None, Some m) \<Rightarrow> Some (nat (m - snd c))
      | (None, None) \<Rightarrow> None)"

lemma no_steps_left:
  assumes "steps_left limits c = Some 0"
  shows "\<exists>e. fst (allocate limits run_id True c s) = Inl e"
proof (cases "fst (allocate limits run_id True c s)")
  case (Inr r)
  obtain n m where c: "c = (n, m)" by (cases c)
  obtain i c' where "allocate limits run_id True (n, m) s = (Inr (i, c'), s)"
    using Inr allocate_state [of limits run_id True c s] c by (metis prod.collapse)
  from allocate_Inr [OF this] show ?thesis
    using assms c by (auto simp: steps_left_def beyond_def split: option.splits)
qed simp

lemma allocate_decreases:
  assumes "allocate limits run_id True c s = (Inr (i, c'), s')" and "steps_left limits c = Some k"
  shows "\<exists>k'. k = Suc k' \<and> steps_left limits c' = Some k'"
proof -
  obtain n m where c: "c = (n, m)" by (cases c)
  from allocate_Inr [OF assms(1) [unfolded c]] assms(2) c show ?thesis
    by (auto simp: steps_left_def beyond_def split: option.splits intro!: exI [of _ "k - 1"])
qed

lemma results_act: "(\<And>s a. fst (f s) = Inr a \<Longrightarrow> R a) \<Longrightarrow> results R (act f)"
  by (simp add: act_def split: sum.split)

text \<open>The bind of two continuations that agree on the values that can arise.\<close>

lemma gbind_cong: "results R g \<Longrightarrow> (\<And>a. R a \<Longrightarrow> k a = k' a) \<Longrightarrow> gbind g k = gbind g k'"
  by (induction g) auto

lemma gbind_cong_all: "(\<And>a. k a = k' a) \<Longrightarrow> gbind g k = gbind g k'"
  by (rule arg_cong [of k k']) auto

text \<open>The counters that can come back when \<open>k\<close> steps are left.\<close>

definition fewer_left :: "execution_limits \<Rightarrow> nat \<Rightarrow> step_identity \<times> int \<times> int \<Rightarrow> bool" where
  "fewer_left limits k r \<longleftrightarrow> (\<exists>k'. k = Suc k' \<and> steps_left limits (snd r) = Some k')"

lemma results_allocate:
  assumes "steps_left limits c = Some k"
  shows "results (fewer_left limits k) (act (allocate limits run_id True c))"
proof (rule results_act)
  fix s r assume r: "fst (allocate limits run_id True c s) = Inr r"
  obtain i c' where ic: "r = (i, c')" by (cases r)
  have "allocate limits run_id True c s = (Inr (i, c'), s)"
    using r ic allocate_state [of limits run_id True c s] by (simp add: prod_eq_iff)
  from allocate_decreases [OF this assms] show "fewer_left limits k r"
    by (simp add: fewer_left_def ic)
qed

lemma enough_fuel:
  "steps_left limits c = Some k \<Longrightarrow> k < fuel \<Longrightarrow> k < fuel' \<Longrightarrow>
   agent_rounds env idle P limits run_id fuel c = agent_rounds env idle P limits run_id fuel' c"
proof (induction k arbitrary: fuel fuel' c rule: less_induct)
  case (less k)
  obtain f f' where fs: "fuel = Suc f" "fuel' = Suc f'"
    using less.prems(2,3) by (cases fuel; cases fuel') simp_all
  have eq: "agent_rounds env idle P limits run_id f (snd r) = agent_rounds env idle P limits run_id f' (snd r)"
    if fewer: "fewer_left limits k r" for r
  proof -
    obtain k' where k': "k = Suc k'" "steps_left limits (snd r) = Some k'"
      using fewer by (auto simp: fewer_left_def)
    show ?thesis
      by (rule less.IH [OF _ k'(2)]) (use k'(1) fs less.prems(2,3) in simp_all)
  qed
  show ?case
    unfolding fs agent_rounds.simps
  proof (rule gbind_cong [OF results_allocate [OF less.prems(1)]])
    fix r assume "fewer_left limits k r"
    from eq [OF this]
    show "(case r of (i, counters) \<Rightarrow>
        gbind (yield (StepStarted i ''model'')) (\<lambda>_.
        gbind (wait_cancellable env (act (ep_prepare P i))) (\<lambda>prepared.
        gbind (model_phase env P prepared) (\<lambda>result.
        gbind (decide_phase env idle P i prepared result) (\<lambda>d.
          case fd_flow d of CONTINUE \<Rightarrow> agent_rounds env idle P limits run_id f counters
          | FINISH \<Rightarrow> Ret True | WAIT \<Rightarrow> wait_for_host run_id d))))) =
      (case r of (i, counters) \<Rightarrow>
        gbind (yield (StepStarted i ''model'')) (\<lambda>_.
        gbind (wait_cancellable env (act (ep_prepare P i))) (\<lambda>prepared.
        gbind (model_phase env P prepared) (\<lambda>result.
        gbind (decide_phase env idle P i prepared result) (\<lambda>d.
          case fd_flow d of CONTINUE \<Rightarrow> agent_rounds env idle P limits run_id f' counters
          | FINISH \<Rightarrow> Ret True | WAIT \<Rightarrow> wait_for_host run_id d)))))"
      by (cases r) (simp cong: flow.case_cong)
  qed
qed

lemma results_waiting: "results (\<lambda>x. x) (wait_for_host run_id d)"
  by (auto simp: wait_for_host_def intro!: results_then)

lemma fuel_suffices:
  "steps_left limits c = Some k \<Longrightarrow> k < fuel \<Longrightarrow> results (\<lambda>x. x) (agent_rounds env idle P limits run_id fuel c)"
proof (induction fuel arbitrary: k c)
  case (Suc fuel)
  have "results (\<lambda>x. x) (agent_rounds env idle P limits run_id fuel c')" if "fewer_left limits k (i, c')" for i c'
    using that Suc.IH [of c'] Suc.prems(2) by (auto simp: fewer_left_def)
  then show ?case
    unfolding agent_rounds.simps
    by (intro results_gbind [OF results_allocate [OF Suc.prems(1)]])
       (auto intro!: results_then split: flow.split simp: results_waiting)
qed simp

end
