(* ===== verification/Manager.thy ===== *)
theory Manager imports Session begin

text \<open>
  \<^verbatim>\<open>context/manager.py\<close>: the default step provider.  It reads the three stores consistently, merges
  the contributions, projects the history through the compressor with a stored projection as its
  cache, and prepares one model request.  The SHA-256 digest is the parameter \<open>sha\<close>, the rendering
  of floats the parameter \<open>fl\<close>.
\<close>

section \<open>The projection store and the contributors\<close>

definition summaries_get :: "record_target \<Rightarrow> (string \<rightharpoonup> summary_projection) \<Rightarrow> summary_projection option" where
  "summaries_get target d = d (rt_value target)"

definition summaries_put :: "record_target \<Rightarrow> summary_projection \<Rightarrow> (string \<rightharpoonup> summary_projection) \<Rightarrow>
    (string \<rightharpoonup> summary_projection)" where
  "summaries_put target p d = d(rt_value target \<mapsto> p)"

definition summaries_invalidate :: "record_target \<Rightarrow> (string \<rightharpoonup> summary_projection) \<Rightarrow> (string \<rightharpoonup> summary_projection)" where
  "summaries_invalidate target d = d(rt_value target := None)"

text \<open>A contributor; \<open>ct_cache_key\<close> is missing when it is no \<^verbatim>\<open>CacheableContributor\<close>.\<close>

record contributor =
  ct_contribute :: "run_request \<Rightarrow> record_target \<Rightarrow> application_snapshot \<Rightarrow> exn + context_contribution list"
  ct_cache_key :: "(run_request \<Rightarrow> record_target \<Rightarrow> application_snapshot \<Rightarrow> string option) option"

definition static_contributor :: "context_contribution list \<Rightarrow> string \<Rightarrow> contributor" where
  "static_contributor items key =
     \<lparr>ct_contribute = (\<lambda>_ _ _. Inr items),
      ct_cache_key = Some (\<lambda>_ target _. Some (key @ '':'' @ rt_value target))\<rparr>"

section \<open>Merging contributions\<close>

definition contribution_key :: "context_contribution \<Rightarrow> string \<times> string" where
  "contribution_key c = (cc_scope c, cc_dedupe_key c)"

definition contribution_rank :: "context_contribution \<Rightarrow> int \<times> string" where
  "contribution_rank c = (cc_priority c, cc_source c)"

fun pick_best :: "context_contribution list \<Rightarrow> ((string \<times> string) \<times> context_contribution) list \<Rightarrow>
    ((string \<times> string) \<times> context_contribution) list" where
  "pick_best [] chosen = chosen"
| "pick_best (c # cs) chosen =
     (case map_of chosen (contribution_key c) of
        None \<Rightarrow> pick_best cs (dict_set (contribution_key c) c chosen)
      | Some current \<Rightarrow>
          if contribution_rank current < contribution_rank c
          then pick_best cs (dict_set (contribution_key c) c chosen)
          else pick_best cs chosen)"

definition contribution_order :: "context_contribution \<Rightarrow> int \<times> string \<times> string \<times> string" where
  "contribution_order c = (- cc_priority c, cc_scope c, cc_source c, cc_dedupe_key c)"

definition merge_contributions :: "context_contribution list \<Rightarrow> context_contribution list" where
  "merge_contributions cs = sort_key contribution_order (map snd (pick_best cs []))"

section \<open>Digests\<close>

definition contribution_bytes :: "context_contribution \<Rightarrow> string" where
  "contribution_bytes c =
     cc_scope c @ [CHR 0x00] @ cc_dedupe_key c @ [CHR 0x00] @ int_str (cc_priority c) @ [CHR 0x00] @
     cc_source c @ [CHR 0x00] @ cc_content c @ [CHR 0x00]"

definition contribution_digest :: "(string \<Rightarrow> string) \<Rightarrow> context_contribution list \<Rightarrow> string" where
  "contribution_digest sha cs = take 16 (sha (concat (map contribution_bytes cs)))"

definition repr_opt :: "string option \<Rightarrow> string" where
  "repr_opt s = (case s of None \<Rightarrow> ''None'' | Some t \<Rightarrow> repr_str t)"

fun repr_role :: "role \<Rightarrow> string" where
  "repr_role SYSTEM = ''<Role.SYSTEM: '' @ repr_str ''system'' @ ''>''"
| "repr_role USER = ''<Role.USER: '' @ repr_str ''user'' @ ''>''"
| "repr_role ASSISTANT = ''<Role.ASSISTANT: '' @ repr_str ''assistant'' @ ''>''"
| "repr_role TOOL = ''<Role.TOOL: '' @ repr_str ''tool'' @ ''>''"

definition repr_tuple :: "string list \<Rightarrow> string" where
  "repr_tuple xs = ''('' @ join '', '' xs @ (if length xs = 1 then '','' else []) @ '')''"

definition repr_call :: "(rat \<Rightarrow> string) \<Rightarrow> tool_call \<Rightarrow> string" where
  "repr_call fl c =
     repr_tuple [repr_str (tc_call_id c), repr_str (tc_name c),
       repr_tuple (map (\<lambda>kv. repr_tuple [repr_str (fst kv), repr_json fl (snd kv)]) (sort_key fst (tc_arguments c)))]"

definition message_bytes :: "(rat \<Rightarrow> string) \<Rightarrow> message \<Rightarrow> string" where
  "message_bytes fl m =
     repr_tuple [repr_role (m_role m), repr_opt (m_content m), repr_tuple (map (repr_call fl) (m_tool_calls m)),
       repr_opt (m_tool_call_id m), repr_opt (m_name m), repr_opt (m_reasoning m), repr_opt (m_message_id m)] @ [CHR 0x00]"

definition message_digest :: "(string \<Rightarrow> string) \<Rightarrow> (rat \<Rightarrow> string) \<Rightarrow> message list \<Rightarrow> string" where
  "message_digest sha fl ms = take 16 (sha (concat (map (message_bytes fl) ms)))"

section \<open>The step provider\<close>

record step_provider =
  dp_request :: run_request
  dp_contributors :: "contributor list"
  dp_budget :: token_budget_policy
  dp_compress :: "message list \<Rightarrow> int \<Rightarrow> estimator \<Rightarrow> int \<Rightarrow> compression"
  dp_deadline :: "rat option"
  dp_sha :: "string \<Rightarrow> string"
  dp_float :: "rat \<Rightarrow> string"

text \<open>
  One round of \<^verbatim>\<open>_read_consistent\<close>.  The two readings of the application state await its lock; the
  other readings do not suspend.  The result is missing when the versions differ.
\<close>

definition read_round :: "environment \<Rightarrow> run_state \<Rightarrow>
    (exn, (transcript_snapshot \<times> capability_snapshot \<times> application_snapshot) option, run_state) outcome" where
  "read_round env s =
     (let target = rs_target s in
      (case snapshot target (rs_transcript s) of
         Inl e \<Rightarrow> (Inl e, s)
       | Inr history \<Rightarrow>
           let capabilities = cse_current (rs_caps s);
               s = pause env s;
               (application, app) = app_current target (rs_app s);
               s = s\<lparr>rs_app := app\<rparr>
           in
           (case snapshot target (rs_transcript s) of
              Inl e \<Rightarrow> (Inl e, s)
            | Inr history_again \<Rightarrow>
                let capabilities_again = cse_current (rs_caps s);
                    s = pause env s;
                    (application_again, app) = app_current target (rs_app s);
                    s = s\<lparr>rs_app := app\<rparr>
                in
                (Inr (if tsn_version history = tsn_version history_again \<and>
                         cs_version capabilities = cs_version capabilities_again \<and>
                         as_version application = as_version application_again \<and>
                         rt_value (rs_target s) = rt_value target
                      then Some (history, capabilities, application) else None), s))))"

fun read_loop :: "environment \<Rightarrow> nat \<Rightarrow> run_state \<Rightarrow>
    (exn, transcript_snapshot \<times> capability_snapshot \<times> application_snapshot, run_state) outcome" where
  "read_loop env 0 s =
     (Inl (raised VersionConflictError ''snapshot versions changed while preparing a step''), s)"
| "read_loop env (Suc n) s =
     andthen (read_round env s) (\<lambda>found s. case found of Some r \<Rightarrow> (Inr r, s) | None \<Rightarrow> read_loop env n s)"

definition read_consistent :: "environment \<Rightarrow> run_state \<Rightarrow>
    (exn, transcript_snapshot \<times> capability_snapshot \<times> application_snapshot, run_state) outcome" where
  "read_consistent env s = read_loop env 3 s"

fun collect :: "step_provider \<Rightarrow> environment \<Rightarrow> application_snapshot \<Rightarrow> nat \<Rightarrow> contributor list \<Rightarrow> run_state \<Rightarrow>
    (exn, context_contribution list, run_state) outcome" where
  "collect p env app index [] s = (Inr [], s)"
| "collect p env app index (c # cs) s =
     (let key = (case ct_cache_key c of
                   None \<Rightarrow> None | Some f \<Rightarrow> f (dp_request p) (rs_target s) app);
          cached = (case key of None \<Rightarrow> None
                    | Some k \<Rightarrow> (case rs_cache s index of
                                  Some (k', items) \<Rightarrow> if k' = k then Some items else None | None \<Rightarrow> None))
      in
      (case cached of
         Some items \<Rightarrow>
           andthen (collect p env app (index + 1) cs s) (\<lambda>rest s. (Inr (items @ rest), s))
       | None \<Rightarrow>
           let target = rs_target s; s = pause env s in
           (case ct_contribute c (dp_request p) target app of
              Inl e \<Rightarrow> (Inl e, s)
            | Inr items \<Rightarrow>
                let s = (case key of None \<Rightarrow> s | Some k \<Rightarrow> s\<lparr>rs_cache := (rs_cache s)(index \<mapsto> (k, items))\<rparr>)
                in andthen (collect p env app (index + 1) cs s) (\<lambda>rest s. (Inr (items @ rest), s)))))"

definition projection_key :: "step_provider \<Rightarrow> string \<Rightarrow> string \<Rightarrow> string \<Rightarrow> context_contribution list \<Rightarrow>
    message list \<Rightarrow> int \<Rightarrow> string" where
  "projection_key p history capability application merged prompt available =
     join ''|'' [history, capability, application, contribution_digest (dp_sha p) merged,
       message_digest (dp_sha p) (dp_float p) prompt, int_str available]"

definition project :: "step_provider \<Rightarrow> message list \<Rightarrow> string \<Rightarrow> int \<Rightarrow> run_state \<Rightarrow>
    (exn, message list \<times> bool, run_state) outcome" where
  "project p prompt key available s =
     (case summaries_get (rs_target s) (rs_summaries s) of
        Some stored \<Rightarrow>
          if sp_key stored = key then (Inr (sp_messages stored, True), s)
          else
            (case dp_compress p prompt available (tbp_estimator (dp_budget p)) 0 of
               Inl e \<Rightarrow> (Inl e, s)
             | Inr (messages, compressed) \<Rightarrow>
                 (Inr (messages, compressed),
                  if compressed
                  then s\<lparr>rs_summaries := summaries_put (rs_target s) \<lparr>sp_key = key, sp_messages = messages\<rparr> (rs_summaries s)\<rparr>
                  else s))
      | None \<Rightarrow>
          (case dp_compress p prompt available (tbp_estimator (dp_budget p)) 0 of
             Inl e \<Rightarrow> (Inl e, s)
           | Inr (messages, compressed) \<Rightarrow>
               (Inr (messages, compressed),
                if compressed
                then s\<lparr>rs_summaries := summaries_put (rs_target s) \<lparr>sp_key = key, sp_messages = messages\<rparr> (rs_summaries s)\<rparr>
                else s)))"

definition contribution_messages :: "context_contribution list \<Rightarrow> message list" where
  "contribution_messages merged =
     map (\<lambda>c. (plain_message SYSTEM (Some (cc_content c)))\<lparr>m_name := Some (cc_source c)\<rparr>)
       (filter (\<lambda>c. cc_content c \<noteq> []) merged)"

definition prepare :: "step_provider \<Rightarrow> environment \<Rightarrow> step_identity \<Rightarrow> run_state \<Rightarrow>
    (exn, prepared_step, run_state) outcome" where
  "prepare p env identity s =
     andthen (read_consistent env s) (\<lambda>(history_snapshot, capabilities, application) s.
       let history = pair_tool_messages (tsn_messages history_snapshot);
           own = cs_contributions capabilities @ rs_extra s
       in andthen (collect p env application 0 (dp_contributors p) s) (\<lambda>collected s.
       let merged = merge_contributions (own @ collected);
           prompt = contribution_messages merged @ history
       in (case available_for_prompt (dp_budget p) (cs_tools capabilities) of
             Inl e \<Rightarrow> (Inl e, s)
           | Inr available \<Rightarrow>
               let key = projection_key p (tsn_version history_snapshot) (cs_version capabilities)
                           (as_version application) merged prompt available
               in andthen (project p prompt key available s) (\<lambda>(view_messages, compressed) s.
                 (case policy_estimate_messages (dp_float p) (dp_budget p) view_messages of
                    Inl e \<Rightarrow> (Inl e, s)
                  | Inr estimated \<Rightarrow>
                      if available < estimated
                      then (Inl (raised ContextBudgetError ''prepared request exceeds the token budget''), s)
                      else
                        (case estimate_model_attempt (dp_float p) (dp_budget p) view_messages (cs_tools capabilities) of
                           Inl e \<Rightarrow> (Inl e, s)
                         | Inr attempt_tokens \<Rightarrow>
                             (Inr \<lparr>ps_identity = identity, ps_record_target = rs_target s,
                                ps_request =
                                  \<lparr>mr_messages = view_messages, mr_tools = cs_tools capabilities,
                                   mr_model = rq_model (dp_request p), mr_tool_choice = rq_tool_choice (dp_request p),
                                   mr_recovery = el_recovery (rq_limits (dp_request p)),
                                   mr_deadline_monotonic = dp_deadline p\<rparr>,
                                ps_capabilities = capabilities,
                                ps_context_version =
                                  \<lparr>cv_history_version = tsn_version history_snapshot,
                                   cv_capability_version = cs_version capabilities,
                                   cv_application_version = as_version application, cv_target = rs_target s\<rparr>,
                                ps_estimated_tokens = attempt_tokens,
                                ps_context =
                                  Some \<lparr>px_messages = view_messages, px_contributions = merged,
                                        px_estimated_tokens = estimated, px_compressed = compressed\<rparr>\<rparr>, s)))))))"

text \<open>\<^verbatim>\<open>invalidate_summary\<close>.\<close>

definition invalidate_summary :: "record_target \<Rightarrow> run_state \<Rightarrow> run_state" where
  "invalidate_summary target s = s\<lparr>rs_summaries := summaries_invalidate target (rs_summaries s)\<rparr>"

end
