(* ===== verification/Completion_Pipeline.thy ===== *)
theory Completion_Pipeline imports Streams begin

text \<open>
  \<^verbatim>\<open>pipelines/completion.py\<close>: the final text is committed, then the completion policy decides once.
  The policy of the host is the parameter \<open>policy\<close>; \<open>finish_policy\<close> is the default one.
\<close>

section \<open>Operation ids\<close>

text \<open>\<^verbatim>\<open>f"{run_id}:{step_no}:{target}"\<close>, the common front of the ids that the pipelines build.\<close>

definition step_op :: "step_identity \<Rightarrow> record_target \<Rightarrow> string" where
  "step_op i target = si_run_id i @ '':'' @ int_str (si_step_no i) @ '':'' @ rt_value target"

definition delta_op :: "step_identity \<Rightarrow> record_target \<Rightarrow> int \<Rightarrow> int \<Rightarrow> string" where
  "delta_op i target attempt delta_n = step_op i target @ '':a'' @ int_str attempt @ '':delta:'' @ int_str delta_n"

definition final_op :: "step_identity \<Rightarrow> record_target \<Rightarrow> int \<Rightarrow> string" where
  "final_op i target attempt = step_op i target @ '':a'' @ int_str attempt @ '':final''"

definition calls_op :: "step_identity \<Rightarrow> record_target \<Rightarrow> string" where
  "calls_op i target = step_op i target @ '':tool_calls''"

definition results_op :: "step_identity \<Rightarrow> record_target \<Rightarrow> string" where
  "results_op i target = step_op i target @ '':tool_results''"

section \<open>The pipeline\<close>

type_synonym completion_policy =
  "completion_command \<Rightarrow> message_receipt \<Rightarrow> run_state \<Rightarrow> (exn, flow_decision, run_state) outcome"

definition finish_policy :: completion_policy where
  "finish_policy command receipt s = (Inr (flow_decision FINISH ''default''), s)"

text \<open>\<^verbatim>\<open>except Exception as exc: raise RecordingError(...) from exc\<close>.\<close>

definition wrap_error :: "string \<Rightarrow> exn \<Rightarrow> exn" where
  "wrap_error msg e = (if isinstance_exn e Exception then raised_from RecordingError msg e else e)"

definition missing_pending :: "flow_decision \<Rightarrow> bool" where
  "missing_pending d \<longleftrightarrow> (case fd_pending_ref d of None \<Rightarrow> True | Some p \<Rightarrow> pr_value p = [])"

definition record_completion :: "completion_command \<Rightarrow> transcript \<Rightarrow> (exn, message_receipt, transcript) outcome" where
  "record_completion command =
     (let i = ps_identity (cm_step command); target = ps_record_target (cm_step command); result = cm_result command in
      record_text_final (si_run_id i) (si_step_no i) target (mres_text result) (mres_reasoning result)
        (mres_tool_calls result) (final_op i target (mres_attempt result)) (mres_attempt result) None)"

definition complete :: "environment \<Rightarrow> completion_policy \<Rightarrow> completion_command \<Rightarrow> unit gen" where
  "complete env policy command =
     gbind (act raise_if_stopped) (\<lambda>_.
     gbind (recording env (record_completion command)) (\<lambda>receipt.
     gbind (effect (\<lambda>s. s\<lparr>rs_completion_policy_calls := rs_completion_policy_calls s + 1\<rparr>)) (\<lambda>_.
     gbind (gcatch (act (policy command receipt))
         (\<lambda>e. Raise (wrap_error ''completion policy state commit failed'' e))) (\<lambda>decision.
     if fd_flow decision = WAIT \<and> missing_pending decision
     then Raise (raised RecordingError ''WAIT requires a pending_ref'')
     else yield (CompletionCompleted (ps_identity (cm_step command)) decision (Some receipt))))))"

section \<open>The ids do not collide\<close>

lemma step_op_front:
  "step_op i target = step_op i' target' \<Longrightarrow> CHR '':'' \<notin> set (rt_value target) \<Longrightarrow> CHR '':'' \<notin> set (rt_value target') \<Longrightarrow>
   si_run_id i = si_run_id i' \<and> si_step_no i = si_step_no i' \<and> rt_value target = rt_value target'"
proof -
  assume eq: "step_op i target = step_op i' target'" and
    clean: "CHR '':'' \<notin> set (rt_value target)" "CHR '':'' \<notin> set (rt_value target')"
  have "(si_run_id i @ CHR '':'' # int_str (si_step_no i)) @ CHR '':'' # rt_value target =
      (si_run_id i' @ CHR '':'' # int_str (si_step_no i')) @ CHR '':'' # rt_value target'"
    using eq by (simp add: step_op_def)
  from field_back [OF clean this]
  have "si_run_id i @ CHR '':'' # int_str (si_step_no i) = si_run_id i' @ CHR '':'' # int_str (si_step_no i')"
    and same: "rt_value target = rt_value target'" by blast+
  from field_back [OF int_str_no_colon int_str_no_colon this(1)] same show ?thesis using int_str_inj by blast
qed

text \<open>The last character tells the kinds of operations apart, or the last field.\<close>

lemma last_op:
  "last (final_op i t a) = CHR ''l''" "last (calls_op i t) = CHR ''s''" "last (results_op i t) = CHR ''s''"
  "last (delta_op i t a n) \<in> set digits"
  by (simp_all add: final_op_def calls_op_def results_op_def delta_op_def last_int_str_digit del: list.set)

lemma op_kinds:
  "final_op i t a \<noteq> delta_op i' t' a' n" "final_op i t a \<noteq> calls_op i' t'" "final_op i t a \<noteq> results_op i' t'"
  "calls_op i t \<noteq> delta_op i' t' a' n" "calls_op i t \<noteq> results_op i' t'" "results_op i t \<noteq> delta_op i' t' a' n"
proof -
  show "final_op i t a \<noteq> delta_op i' t' a' n" using last_op(1) [of i t a] last_op(4) [of i' t' a' n] by fastforce
  show "calls_op i t \<noteq> delta_op i' t' a' n" using last_op(2) [of i t] last_op(4) [of i' t' a' n] by fastforce
  show "results_op i t \<noteq> delta_op i' t' a' n" using last_op(3) [of i t] last_op(4) [of i' t' a' n] by fastforce
  show "final_op i t a \<noteq> calls_op i' t'" using last_op(1) [of i t a] last_op(2) [of i' t'] by fastforce
  show "final_op i t a \<noteq> results_op i' t'" using last_op(1) [of i t a] last_op(3) [of i' t'] by fastforce
  show "calls_op i t \<noteq> results_op i' t'"
  proof
    assume "calls_op i t = results_op i' t'"
    then have "rev (calls_op i t) = rev (results_op i' t')" by simp
    then show False by (simp add: calls_op_def results_op_def)
  qed
qed

end
