(* ===== verification/Model_Pipeline.thy ===== *)
theory Model_Pipeline imports Completion_Pipeline begin

text \<open>
  \<^verbatim>\<open>pipelines/model.py\<close>: one effective result per step, attempts in isolation, recovery within the
  budget.  The vendor model is the parameter \<open>lm\<close>: a call of its \<^verbatim>\<open>stream\<close> (numbered by the clock) gives
  the events and the exception that ends them, if any.
\<close>

type_synonym low_level_model = "nat \<Rightarrow> model_request \<Rightarrow> runtime_event list \<times> exn option"

fun event_class :: "runtime_event \<Rightarrow> string" where
  "event_class (TextDeltaEvent _ _ _ _) = ''TextDeltaEvent''"
| "event_class (ReasoningDeltaEvent _ _ _) = ''ReasoningDeltaEvent''"
| "event_class (ModelCompleted _ _ _) = ''ModelCompleted''"
| "event_class (ToolCallRecordedEvent _ _) = ''ToolCallRecordedEvent''"
| "event_class (ToolProgressEvent _ _ _) = ''ToolProgressEvent''"
| "event_class (ExternalWorkDeclared _ _) = ''ExternalWorkDeclared''"
| "event_class (ToolResultEvent _ _ _) = ''ToolResultEvent''"
| "event_class (ToolBatchCompleted _ _ _ _) = ''ToolBatchCompleted''"
| "event_class (CompletionCompleted _ _ _) = ''CompletionCompleted''"
| "event_class (RunStarted _ _) = ''RunStarted''"
| "event_class (StepStarted _ _) = ''StepStarted''"
| "event_class (RunSucceeded _) = ''RunSucceeded''"
| "event_class (RunFailed _ _ _) = ''RunFailed''"
| "event_class (RunCancelled _ _ _) = ''RunCancelled''"
| "event_class (RunWaiting _ _ _) = ''RunWaiting''"

definition unsupported_event :: "runtime_event \<Rightarrow> exn" where
  "unsupported_event ev =
     protocol_error (''unsupported model event: <class '' @ [CHR 0x27] @ ''agent_runtime.contracts.'' @
       event_class ev @ [CHR 0x27] @ ''>'')"

fun is_delta :: "runtime_event \<Rightarrow> bool" where
  "is_delta (TextDeltaEvent _ _ _ _) = True"
| "is_delta (ReasoningDeltaEvent _ _ _) = True"
| "is_delta _ = False"

fun is_model_completed :: "runtime_event \<Rightarrow> bool" where
  "is_model_completed (ModelCompleted _ _ _) = True"
| "is_model_completed _ = False"

section \<open>One attempt\<close>

text \<open>The local variables of \<^verbatim>\<open>_run_attempt\<close>.\<close>

record attempt_state =
  at_previous :: "message_receipt option"
  at_delta_n :: int
  at_pending :: "model_result option"
  at_emitted :: bool

definition attempt_start :: attempt_state where
  "attempt_start = \<lparr>at_previous = None, at_delta_n = 0, at_pending = None, at_emitted = False\<rparr>"

definition low_event :: "environment \<Rightarrow> prepared_step \<Rightarrow> int \<Rightarrow> runtime_event \<Rightarrow> attempt_state \<Rightarrow>
    (attempt_state, (message_receipt option \<times> model_result) option) turn gen" where
  "low_event env step attempt ev c =
     (let i = ps_identity step; target = ps_record_target step in
      if at_pending c \<noteq> None then Raise (protocol_error ''trailing event after model completion'')
      else
        (case ev of
           TextDeltaEvent _ body _ _ \<Rightarrow>
             let n = at_delta_n c + 1 in
             gbind (recording env (record_text_delta (si_run_id i) (si_step_no i) target body
                 (delta_op i target attempt n) attempt (at_previous c))) (\<lambda>receipt.
             gbind (yield (TextDeltaEvent i body attempt (Some receipt))) (\<lambda>_.
             Ret (Go (c\<lparr>at_previous := Some receipt, at_delta_n := n, at_emitted := True\<rparr>))))
         | ReasoningDeltaEvent _ body _ \<Rightarrow>
             gbind (yield (ReasoningDeltaEvent i body attempt)) (\<lambda>_. Ret (Go (c\<lparr>at_emitted := True\<rparr>)))
         | ModelCompleted _ result _ \<Rightarrow>
             Ret (Go (c\<lparr>at_pending :=
               if is_effective result then Some (result\<lparr>mres_attempt := attempt\<rparr>) else None\<rparr>))
         | _ \<Rightarrow> Raise (unsupported_event ev)))"

text \<open>The \<^verbatim>\<open>except\<close> clauses around the loop over the vendor's events.\<close>

definition failed_attempt :: "prepared_step \<Rightarrow> exn \<Rightarrow> attempt_state \<Rightarrow>
    (message_receipt option \<times> model_result) option gen" where
  "failed_attempt step e c =
     (if isinstance_exn e CompletionProtocolError then Raise e
      else if isinstance_exn e AdapterError
      then
        if at_emitted c \<and> \<not> rb_retry_partial_output (mr_recovery (ps_request step)) then Raise e
        else if isolate_attempts then Ret None else Raise e
      else Raise e)"

definition attempt_events :: "environment \<Rightarrow> bool \<Rightarrow> low_level_model \<Rightarrow> prepared_step \<Rightarrow> int \<Rightarrow>
    (message_receipt option \<times> model_result) option gen" where
  "attempt_events env idle lm step attempt =
     gbind (reading (\<lambda>s. lm (rs_clock s) (ps_request step))) (\<lambda>(events, failure).
     each_until (iterate_cancellable env idle (of_events events failure)) (low_event env step attempt)
       (\<lambda>c. Ret (map_option (Pair (at_previous c)) (at_pending c))) (failed_attempt step) attempt_start)"

definition record_final :: "prepared_step \<Rightarrow> int \<Rightarrow> message_receipt option \<Rightarrow> model_result \<Rightarrow> transcript \<Rightarrow>
    (exn, message_receipt, transcript) outcome" where
  "record_final step attempt previous result =
     (let i = ps_identity step; target = ps_record_target step in
      record_text_final (si_run_id i) (si_step_no i) target (mres_text result) (mres_reasoning result)
        (mres_tool_calls result) (final_op i target attempt) attempt previous)"

definition run_attempt :: "environment \<Rightarrow> bool \<Rightarrow> low_level_model \<Rightarrow> prepared_step \<Rightarrow> int \<Rightarrow> unit gen" where
  "run_attempt env idle lm step attempt =
     gbind (attempt_events env idle lm step attempt) (\<lambda>found.
       case found of
         None \<Rightarrow> Ret ()
       | Some (previous, result) \<Rightarrow>
           gbind (recording env (record_final step attempt previous result)) (\<lambda>receipt.
             yield (ModelCompleted (ps_identity step) result (Some receipt))))"

section \<open>Recovery\<close>

text \<open>The loop of \<^verbatim>\<open>_stream\<close> over one attempt: whether it completed, and a failure that allows a retry.\<close>

definition watch :: "runtime_event \<Rightarrow> bool \<times> bool \<Rightarrow> bool \<times> bool" where
  "watch ev c = (fst c \<or> is_model_completed ev, snd c \<or> is_delta ev)"

definition retry_error :: "recovery_budget \<Rightarrow> exn \<Rightarrow> bool \<times> bool \<Rightarrow> (bool \<times> exn option) gen" where
  "retry_error recovery e c =
     (if isinstance_exn e AdapterError \<and> \<not> (snd c \<and> \<not> rb_retry_partial_output recovery)
      then Ret (False, Some e) else Raise e)"

definition one_attempt :: "environment \<Rightarrow> bool \<Rightarrow> low_level_model \<Rightarrow> prepared_step \<Rightarrow> int \<Rightarrow> (bool \<times> exn option) gen" where
  "one_attempt env idle lm step attempt =
     gbind (reading rs_now) (\<lambda>started.
       gfinally
         (each_until (run_attempt env idle lm step attempt)
            (\<lambda>ev c. gbind (yield ev) (\<lambda>_. Ret (Go (watch ev c))))
            (\<lambda>c. Ret (fst c, None)) (retry_error (mr_recovery (ps_request step))) (False, False))
         (effect (\<lambda>s. observe (Timing (timed ''model_attempt'' (si_run_id (ps_identity step))
            (Some (si_step_no (ps_identity step))) None (Some attempt) started (rs_now s))) s)))"

definition reserve_tokens :: "int \<Rightarrow> run_state \<Rightarrow> (exn, unit, run_state) outcome" where
  "reserve_tokens estimated s =
     (fst (reserve estimated (rs_ledger s)), s\<lparr>rs_ledger := snd (reserve estimated (rs_ledger s))\<rparr>)"

definition backoff :: "recovery_budget \<Rightarrow> int \<Rightarrow> rat" where
  "backoff recovery attempt =
     (if rb_backoff_seconds recovery = [] then 0
      else rb_backoff_seconds recovery ! nat (min (attempt - 1) (int (length (rb_backoff_seconds recovery)) - 1)))"

fun attempt_loop :: "environment \<Rightarrow> bool \<Rightarrow> low_level_model \<Rightarrow> prepared_step \<Rightarrow> nat \<Rightarrow> int \<Rightarrow> exn option \<Rightarrow> unit gen" where
  "attempt_loop env idle lm step 0 attempt last_error =
     Raise (Exn AdapterError ''empty model response recovery exhausted'' last_error)"
| "attempt_loop env idle lm step (Suc left) attempt last_error =
     gbind (act raise_if_stopped) (\<lambda>_.
     gbind (act (reserve_tokens (ps_estimated_tokens step))) (\<lambda>_.
     gbind (one_attempt env idle lm step attempt) (\<lambda>(completed, failure).
       if completed then Ret ()
       else
         gbind (if left = 0 then Ret ()
                else act (sleep_cancellable env (backoff (mr_recovery (ps_request step)) attempt))) (\<lambda>_.
           attempt_loop env idle lm step left (attempt + 1)
             (case failure of Some e \<Rightarrow> Some e | None \<Rightarrow> last_error)))))"

definition model_stream :: "environment \<Rightarrow> bool \<Rightarrow> low_level_model \<Rightarrow> prepared_step \<Rightarrow> unit gen" where
  "model_stream env idle lm step =
     (let attempts = rb_remaining_attempts (mr_recovery (ps_request step)) in
      if attempts \<le> 0 then Raise (raised BudgetExhaustedError ''remaining_attempts exhausted'')
      else attempt_loop env idle lm step (nat attempts) 1 None)"

section \<open>The events of a model step\<close>

lemma attempt_events_deltas: "all_events is_delta (attempt_events env idle lm step attempt)"
  unfolding attempt_events_def
  by (rule all_events_gbind, simp, clarsimp, rule all_events_each_until [where Q = "\<lambda>_. True"])
    (auto simp: low_event_def failed_attempt_def Let_def split: runtime_event.split intro!: all_events_gbind)

definition found_ok :: "int \<Rightarrow> (message_receipt option \<times> model_result) option \<Rightarrow> bool" where
  "found_ok attempt found \<longleftrightarrow>
     (case found of None \<Rightarrow> True | Some (previous, result) \<Rightarrow> is_effective result \<and> mres_attempt result = attempt)"

lemma is_effective_attempt [simp]: "is_effective (r\<lparr>mres_attempt := a\<rparr>) = is_effective r"
  by (simp add: is_effective_def)

lemma attempt_events_found: "results (found_ok attempt) (attempt_events env idle lm step attempt)"
  unfolding attempt_events_def
proof (rule results_then, clarsimp)
  fix events failure
  let ?I = "\<lambda>c. case at_pending c of None \<Rightarrow> True | Some r \<Rightarrow> is_effective r \<and> mres_attempt r = attempt"
  show "results (found_ok attempt)
     (each_until (iterate_cancellable env idle (of_events events failure)) (low_event env step attempt)
       (\<lambda>c. Ret (map_option (Pair (at_previous c)) (at_pending c))) (failed_attempt step) attempt_start)"
    by (rule results_each_until [where I = ?I])
      (auto simp: low_event_def failed_attempt_def Let_def attempt_start_def found_ok_def
        split: runtime_event.split option.splits intro!: results_then)
qed

end
