(* ===== verification/Manager_Facts.thy ===== *)
theory Manager_Facts imports Manager "HOL-Library.Multiset" begin

text \<open>
  What the step provider guarantees: a deterministic merge of the contributions, snapshots that hold
  together at one moment, a projection cache that never answers for another prompt, and requests
  that fit the budget.
\<close>

section \<open>Merging\<close>

definition chosen_ok :: "context_contribution list \<Rightarrow> ((string \<times> string) \<times> context_contribution) list \<Rightarrow> bool" where
  "chosen_ok cs d \<longleftrightarrow>
     distinct (map fst d) \<and> (\<forall>(k, c) \<in> set d. k = contribution_key c \<and> c \<in> set cs) \<and>
     (\<forall>x \<in> set cs. \<exists>c. map_of d (contribution_key x) = Some c \<and> contribution_rank x \<le> contribution_rank c)"

lemma chosen_ok_set:
  assumes "chosen_ok cs d" and "\<forall>c. map_of d (contribution_key x) = Some c \<longrightarrow> contribution_rank c < contribution_rank x"
  shows "chosen_ok (cs @ [x]) (dict_set (contribution_key x) x d)"
proof -
  have "set (dict_set (contribution_key x) x d) \<subseteq> insert (contribution_key x, x) (set d)"
    by (induction "contribution_key x" x d rule: dict_set.induct) auto
  then have "\<forall>(k, c) \<in> set (dict_set (contribution_key x) x d). k = contribution_key c \<and> c \<in> set (cs @ [x])"
    using assms(1) by (fastforce simp: chosen_ok_def)
  moreover have "\<exists>c. map_of (dict_set (contribution_key x) x d) (contribution_key y) = Some c \<and>
      contribution_rank y \<le> contribution_rank c" if "y \<in> set (cs @ [x])" for y
  proof (cases "contribution_key y = contribution_key x")
    case True
    show ?thesis
    proof (cases "y = x")
      case False
      with that have "y \<in> set cs" by simp
      with assms(1) obtain c where "map_of d (contribution_key y) = Some c" "contribution_rank y \<le> contribution_rank c"
        by (auto simp: chosen_ok_def)
      with True assms(2) show ?thesis by (auto intro: order.strict_implies_order order.strict_trans1)
    qed simp
  next
    case False
    then have "y \<in> set cs" using that by auto
    then show ?thesis using assms(1) False by (auto simp: chosen_ok_def)
  qed
  ultimately show ?thesis using assms(1) by (simp add: chosen_ok_def)
qed

lemma chosen_ok_skip:
  assumes "chosen_ok cs d" and "map_of d (contribution_key x) = Some c" and "\<not> contribution_rank c < contribution_rank x"
  shows "chosen_ok (cs @ [x]) d"
  using assms by (fastforce simp: chosen_ok_def)

lemma pick_best_ok: "chosen_ok cs d \<Longrightarrow> chosen_ok (cs @ xs) (pick_best xs d)"
proof (induction xs arbitrary: cs d)
  case (Cons x xs)
  show ?case
  proof (cases "map_of d (contribution_key x)")
    case None
    then have "chosen_ok (cs @ [x]) (dict_set (contribution_key x) x d)"
      using chosen_ok_set [OF Cons.prems] by simp
    from Cons.IH [OF this] None show ?thesis by simp
  next
    case (Some c)
    show ?thesis
    proof (cases "contribution_rank c < contribution_rank x")
      case True
      then have "chosen_ok (cs @ [x]) (dict_set (contribution_key x) x d)"
        using chosen_ok_set [OF Cons.prems] Some by simp
      from Cons.IH [OF this] Some True show ?thesis by simp
    next
      case False
      from Cons.IH [OF chosen_ok_skip [OF Cons.prems Some False]] Some False show ?thesis by simp
    qed
  qed
qed simp

lemma merge_facts:
  shows merge_subset: "set (merge_contributions cs) \<subseteq> set cs"
    and merge_covers: "x \<in> set cs \<Longrightarrow>
      \<exists>c \<in> set (merge_contributions cs). contribution_key c = contribution_key x \<and> contribution_rank x \<le> contribution_rank c"
    and merge_distinct: "distinct (map contribution_key (merge_contributions cs))"
    and merge_sorted: "sorted (map contribution_order (merge_contributions cs))"
proof -
  have "chosen_ok [] []" by (simp add: chosen_ok_def)
  from pick_best_ok [OF this, of cs] have ok: "chosen_ok cs (pick_best cs [])" by simp
  show "set (merge_contributions cs) \<subseteq> set cs"
  proof -
    have "\<forall>(k, c) \<in> set (pick_best cs []). c \<in> set cs" using ok unfolding chosen_ok_def by blast
    then show ?thesis by (auto simp: merge_contributions_def)
  qed
  show "\<exists>c \<in> set (merge_contributions cs). contribution_key c = contribution_key x \<and> contribution_rank x \<le> contribution_rank c"
    if "x \<in> set cs"
  proof -
    from ok that obtain c where c: "map_of (pick_best cs []) (contribution_key x) = Some c" "contribution_rank x \<le> contribution_rank c"
      unfolding chosen_ok_def by blast
    from map_of_SomeD [OF c(1)] ok have "contribution_key c = contribution_key x" "c \<in> set (merge_contributions cs)"
      by (force simp: chosen_ok_def merge_contributions_def)+
    with c(2) show ?thesis by blast
  qed
  have "map contribution_key (map snd (pick_best cs [])) = map fst (pick_best cs [])"
    using ok by (auto simp: chosen_ok_def)
  then have "distinct (map contribution_key (map snd (pick_best cs [])))"
    using ok unfolding chosen_ok_def by metis
  then have "distinct (map snd (pick_best cs [])) \<and> inj_on contribution_key (set (map snd (pick_best cs [])))"
    by (simp only: distinct_map)
  then show "distinct (map contribution_key (merge_contributions cs))"
    by (simp add: merge_contributions_def distinct_map)
  show "sorted (map contribution_order (merge_contributions cs))"
    by (simp add: merge_contributions_def)
qed

text \<open>The order key determines the contribution key, so the merged list is strictly sorted.\<close>

lemma order_determines_key: "contribution_order a = contribution_order b \<Longrightarrow> contribution_key a = contribution_key b"
  by (simp add: contribution_order_def contribution_key_def)

lemma inj_on_order: "inj_on contribution_order (set (merge_contributions cs))"
proof (rule inj_onI)
  fix a b assume ab: "a \<in> set (merge_contributions cs)" "b \<in> set (merge_contributions cs)"
    and "contribution_order a = contribution_order b"
  then have "contribution_key a = contribution_key b" by (intro order_determines_key)
  moreover have "inj_on contribution_key (set (merge_contributions cs))"
    using merge_distinct [of cs] by (simp add: distinct_map)
  ultimately show "a = b" using ab by (auto dest: inj_onD)
qed

definition best_of :: "context_contribution set \<Rightarrow> context_contribution set" where
  "best_of A = {c \<in> A. \<forall>x \<in> A. contribution_key x = contribution_key c \<longrightarrow> contribution_rank x \<le> contribution_rank c}"

lemma merge_set:
  assumes "\<forall>a \<in> set cs. \<forall>b \<in> set cs. contribution_key a = contribution_key b \<and> contribution_rank a = contribution_rank b \<longrightarrow> a = b"
  shows "set (merge_contributions cs) = best_of (set cs)"
proof (rule equalityI; rule subsetI)
  fix c assume c: "c \<in> set (merge_contributions cs)"
  have "contribution_rank x \<le> contribution_rank c" if x: "x \<in> set cs" "contribution_key x = contribution_key c" for x
  proof -
    from merge_covers [OF x(1)] obtain b where b: "b \<in> set (merge_contributions cs)" "contribution_key b = contribution_key c"
      "contribution_rank x \<le> contribution_rank b" using x(2) by auto
    have "b = c" using merge_distinct [of cs] b(1,2) c by (auto simp: distinct_map dest: inj_onD)
    with b(3) show ?thesis by simp
  qed
  with c merge_subset show "c \<in> best_of (set cs)" by (auto simp: best_of_def)
next
  fix c assume c: "c \<in> best_of (set cs)"
  then have "c \<in> set cs" by (simp add: best_of_def)
  from merge_covers [OF this] obtain b where b: "b \<in> set (merge_contributions cs)" "contribution_key b = contribution_key c"
    "contribution_rank c \<le> contribution_rank b" by blast
  moreover have "b \<in> set cs" using b(1) merge_subset by blast
  ultimately have "contribution_rank b = contribution_rank c" using c by (auto simp: best_of_def)
  then have "b = c" using assms \<open>b \<in> set cs\<close> \<open>c \<in> set cs\<close> b(2) by blast
  with b(1) show "c \<in> set (merge_contributions cs)" by simp
qed

lemma merge_perm:
  assumes "mset xs = mset ys"
    and "\<forall>a \<in> set xs. \<forall>b \<in> set xs. contribution_key a = contribution_key b \<and> contribution_rank a = contribution_rank b \<longrightarrow> a = b"
  shows "merge_contributions xs = merge_contributions ys"
proof -
  have sets: "set xs = set ys" using assms(1) by (rule mset_eq_setD)
  then have same: "set (merge_contributions xs) = set (merge_contributions ys)"
    using merge_set [OF assms(2)] merge_set [of ys] assms(2) by simp
  have sd: "sorted (map contribution_order (merge_contributions zs)) \<and> distinct (map contribution_order (merge_contributions zs))" for zs
    using merge_sorted [of zs] inj_on_order [of zs] merge_distinct [of zs] by (simp add: distinct_map)
  have "map contribution_order (merge_contributions xs) = map contribution_order (merge_contributions ys)"
    using sd [of xs] sd [of ys] same by (intro sorted_distinct_set_unique) auto
  then show ?thesis
    using inj_on_order [of xs] same by (intro map_inj_on [of contribution_order]) auto
qed

section \<open>Consistent reading\<close>

lemma snapshot_runs_eq:
  assumes "transcript_call\<^sup>*\<^sup>* t t'" and "transcript_wf t"
    and "snapshot tgt t = Inr h" and "snapshot tgt t' = Inr h'" and "tsn_version h = tsn_version h'"
  shows "h' = h"
proof -
  have wf': "transcript_wf t'" using tv.runs_inv assms(1,2) by blast
  have "mt_version t' = mt_version t"
    using assms(3-5) by (auto simp: snapshot_wf [OF assms(2)] snapshot_wf [OF wf'])
  from tv.runs_contents [OF assms(1,2) this] this show ?thesis
    using assms(3,4) by (auto simp: snapshot_wf [OF assms(2)] snapshot_wf [OF wf'] view_def)
qed

lemma app_read_run: "app_current tgt a = (x, a') \<Longrightarrow> app_step\<^sup>*\<^sup>* a a'"
  by (rule r_into_rtranclp) (rule app_step.step_current)

lemma app_current_again: "app_current tgt a = (x, a') \<Longrightarrow> app_current tgt a' = (x, a')"
  by (auto simp: app_current_def Let_def split: option.splits)

definition consistent_at :: "record_target \<Rightarrow> run_state \<Rightarrow>
    transcript_snapshot \<times> capability_snapshot \<times> application_snapshot \<Rightarrow> bool" where
  "consistent_at tgt m r \<longleftrightarrow>
     snapshot tgt (rs_transcript m) = Inr (fst r) \<and> cse_current (rs_caps m) = fst (snd r) \<and>
     app_current tgt (rs_app m) = (snd (snd r), rs_app m)"

lemma read_round_facts:
  assumes env: "env_ok jv env" and wf: "stores_wf s" and run: "read_round env s = (x, s')"
  shows "stores_run jv s s' \<and>
    (\<forall>r. x = Inr (Some r) \<longrightarrow> rt_value (rs_target s') = rt_value (rs_target s) \<and>
      (\<exists>m. stores_run jv s m \<and> stores_run jv m s' \<and> consistent_at (rs_target s) m r))"
proof -
  let ?tgt = "rs_target s" and ?s1 = "pause env s"
  obtain h where h: "snapshot ?tgt (rs_transcript s) = Inr h"
    using snapshot_wf wf by (auto simp: stores_wf_def)
  have r1: "stores_run jv s ?s1" by (rule pause_run [OF env])
  obtain a app where a: "app_current ?tgt (rs_app ?s1) = (a, app)" by (cases "app_current ?tgt (rs_app ?s1)")
  let ?m = "?s1\<lparr>rs_app := app\<rparr>"
  have rm: "stores_run jv ?s1 ?m" using app_read_run [OF a] by (simp add: stores_run_def)
  have sm: "stores_run jv s ?m" by (rule stores_run_trans [OF r1 rm])
  have wfm: "stores_wf ?m" by (rule stores_run_wf [OF sm wf])
  obtain h' where h': "snapshot ?tgt (rs_transcript ?s1) = Inr h'"
    using snapshot_wf wfm by (auto simp: stores_wf_def)
  let ?s2 = "pause env ?m"
  have r2: "stores_run jv ?m ?s2" by (rule pause_run [OF env])
  obtain a' app' where a': "app_current ?tgt (rs_app ?s2) = (a', app')" by (cases "app_current ?tgt (rs_app ?s2)")
  let ?s3 = "?s2\<lparr>rs_app := app'\<rparr>"
  have r3: "stores_run jv ?s2 ?s3" using app_read_run [OF a'] by (simp add: stores_run_def)
  have ms: "stores_run jv ?m ?s3" by (rule stores_run_trans [OF r2 r3])
  let ?same = "tsn_version h = tsn_version h' \<and>
      cs_version (cse_current (rs_caps s)) = cs_version (cse_current (rs_caps ?m)) \<and> as_version a = as_version a' \<and>
      rt_value (rs_target ?s3) = rt_value ?tgt"
  have x: "x = Inr (if ?same then Some (h, cse_current (rs_caps s), a) else None)" and s': "s' = ?s3"
    using run h h' a a' by (auto simp: read_round_def Let_def)
  have "consistent_at ?tgt ?m r \<and> rt_value (rs_target s') = rt_value ?tgt" if "x = Inr (Some r)" for r
  proof -
    from that x have same: ?same and r: "r = (h, cse_current (rs_caps s), a)" by (auto split: if_splits)
    have "h' = h"
      using snapshot_runs_eq [OF _ _ h h'] r1 wf same by (simp add: stores_run_def stores_wf_def)
    moreover have "cse_current (rs_caps ?m) = cse_current (rs_caps s)"
    proof -
      have runs: "(session_step jv)\<^sup>*\<^sup>* (rs_caps s, rs_registry s) (rs_caps ?m, rs_registry ?m)"
        using sm by (simp add: stores_run_def)
      have "cse_seq (fst (rs_caps ?m, rs_registry ?m)) = cse_seq (fst (rs_caps s, rs_registry s))"
        using session_version_rank [of "(rs_caps ?m, rs_registry ?m)" "(rs_caps s, rs_registry s)"] wf wfm same
        by (simp add: stores_wf_def)
      from sv.runs_contents [OF runs _ this] wf show ?thesis by (simp add: stores_wf_def)
    qed
    ultimately show ?thesis
      using r h' same app_current_again [OF a] s' by (simp add: consistent_at_def)
  qed
  then show ?thesis
    using stores_run_trans [OF sm ms] sm ms s' by blast
qed

lemma read_loop_facts:
  assumes env: "env_ok jv env"
  shows "stores_wf s \<Longrightarrow> read_loop env n s = (x, s') \<Longrightarrow> stores_run jv s s' \<and>
    (\<forall>r. x = Inr r \<longrightarrow> (\<exists>tgt m. stores_run jv s m \<and> stores_run jv m s' \<and> consistent_at tgt m r \<and>
       rt_value (rs_target s') = rt_value tgt))"
proof (induction n arbitrary: s)
  case (Suc n)
  obtain y s1 where rd: "read_round env s = (y, s1)" by (cases "read_round env s")
  note facts = read_round_facts [OF env Suc.prems(1) rd]
  consider e where "y = Inl e" | r where "y = Inr (Some r)" | "y = Inr None"
    by (cases y) (auto, case_tac b, auto)
  then show ?case
  proof cases
    case (1 e)
    then show ?thesis using Suc.prems(2) rd facts by auto
  next
    case (2 r)
    then show ?thesis using Suc.prems(2) rd facts by auto
  next
    case 3
    then have rest: "read_loop env n s1 = (x, s')" using Suc.prems(2) rd by simp
    have wf1: "stores_wf s1" using facts stores_run_wf Suc.prems(1) by blast
    have first: "stores_run jv s s1" using facts by blast
    from Suc.IH [OF wf1 rest] have run: "stores_run jv s1 s'"
      and found: "\<And>r. x = Inr r \<Longrightarrow> \<exists>tgt m. stores_run jv s1 m \<and> stores_run jv m s' \<and> consistent_at tgt m r \<and>
        rt_value (rs_target s') = rt_value tgt" by blast+
    show ?thesis
    proof (intro conjI allI impI)
      show "stores_run jv s s'" by (rule stores_run_trans [OF first run])
      fix r assume "x = Inr r"
      from found [OF this] stores_run_trans [OF first] show "\<exists>tgt m. stores_run jv s m \<and> stores_run jv m s' \<and>
        consistent_at tgt m r \<and> rt_value (rs_target s') = rt_value tgt" by blast
    qed
  qed
qed auto

section \<open>Preparing a step\<close>

text \<open>A property of states that suspensions and cache updates keep.\<close>

lemma collect_keeps:
  assumes suspend: "\<And>s. P s \<Longrightarrow> P (pause env s)" and cache: "\<And>s y. P s \<Longrightarrow> P (s\<lparr>rs_cache := y\<rparr>)"
  shows "P s \<Longrightarrow> P (snd (collect p env app index cs s))"
proof (induction cs arbitrary: index s)
  case (Cons c cs)
  have rest: "P (snd (andthen (collect p env app (Suc index) cs t) (\<lambda>rest s. (Inr (items @ rest), s))))" if "P t" for t items
    by (rule andthen_keeps) (simp_all add: Cons.IH that)
  show ?case
    using Cons.prems by (simp add: Let_def rest suspend cache split: option.splits sum.splits)
qed simp

lemma collect_run:
  assumes "env_ok jv env" and "collect p env app index cs s = (x, s')"
  shows "stores_run jv s s'"
proof -
  have "stores_run jv s (snd (collect p env app index cs s))"
    by (rule collect_keeps [where P = "stores_run jv s"])
      (blast intro: stores_run_trans pause_run [OF assms(1)], simp_all add: stores_run_def)
  then show ?thesis using assms(2) by simp
qed

lemma project_run: "project p prompt key available s = (x, s') \<Longrightarrow> stores_run jv s s' \<and> rs_target s' = rs_target s"
  by (auto simp: project_def stores_run_def split: option.splits sum.splits if_splits)

text \<open>A prepared step, read off the code: the stages and the state each one started in.\<close>

definition prepared_from :: "step_provider \<Rightarrow> environment \<Rightarrow> run_state \<Rightarrow> prepared_step \<Rightarrow> run_state \<Rightarrow>
    transcript_snapshot \<Rightarrow> capability_snapshot \<Rightarrow> application_snapshot \<Rightarrow> message list \<Rightarrow> int \<Rightarrow> run_state \<Rightarrow> run_state \<Rightarrow> bool" where
  "prepared_from p env s step s' h c a prompt available s1 s2 \<longleftrightarrow>
     read_consistent env s = (Inr (h, c, a), s1) \<and>
     (\<exists>collected merged shown compressed estimated.
        collect p env a 0 (dp_contributors p) s1 = (Inr collected, s2) \<and>
        merged = merge_contributions (cs_contributions c @ rs_extra s1 @ collected) \<and>
        prompt = contribution_messages merged @ pair_tool_messages (tsn_messages h) \<and>
        available_for_prompt (dp_budget p) (cs_tools c) = Inr available \<and>
        project p prompt (projection_key p (tsn_version h) (cs_version c) (as_version a) merged prompt available)
          available s2 = (Inr (shown, compressed), s') \<and>
        policy_estimate_messages (dp_float p) (dp_budget p) shown = Inr estimated \<and> estimated \<le> available \<and>
        estimate_model_attempt (dp_float p) (dp_budget p) shown (cs_tools c) = Inr (ps_estimated_tokens step) \<and>
        mr_messages (ps_request step) = shown \<and> mr_tools (ps_request step) = cs_tools c \<and> ps_capabilities step = c \<and>
        ps_record_target step = rs_target s' \<and>
        cv_history_version (ps_context_version step) = tsn_version h)"

lemma prepare_Inr:
  assumes "prepare p env identity s = (Inr step, s')"
  obtains h c a prompt available s1 s2 where "prepared_from p env s step s' h c a prompt available s1 s2"
proof -
  obtain h c a s1 where rd: "read_consistent env s = (Inr (h, c, a), s1)"
    using assms by (cases "read_consistent env s"; cases "fst (read_consistent env s)") (auto simp: prepare_def)
  obtain collected s2 where co: "collect p env a 0 (dp_contributors p) s1 = (Inr collected, s2)"
    using assms rd
    by (cases "collect p env a 0 (dp_contributors p) s1"; cases "fst (collect p env a 0 (dp_contributors p) s1)")
      (auto simp: prepare_def Let_def)
  define merged where "merged = merge_contributions (cs_contributions c @ rs_extra s1 @ collected)"
  define prompt where "prompt = contribution_messages merged @ pair_tool_messages (tsn_messages h)"
  note code = assms [unfolded prepare_def rd andthen_simps prod.case Let_def co append_assoc, folded merged_def, folded prompt_def]
  obtain available where av: "available_for_prompt (dp_budget p) (cs_tools c) = Inr available"
    using code by (cases "available_for_prompt (dp_budget p) (cs_tools c)") simp_all
  let ?key = "projection_key p (tsn_version h) (cs_version c) (as_version a) merged prompt available"
  note code = code [unfolded av sum.case]
  obtain shown compressed s3 where pr: "project p prompt ?key available s2 = (Inr (shown, compressed), s3)"
    using code by (cases "project p prompt ?key available s2"; cases "fst (project p prompt ?key available s2)") auto
  note code = code [unfolded pr andthen_simps prod.case]
  obtain estimated where es: "policy_estimate_messages (dp_float p) (dp_budget p) shown = Inr estimated" "estimated \<le> available"
    using code by (auto split: sum.splits if_splits)
  obtain tokens where at: "estimate_model_attempt (dp_float p) (dp_budget p) shown (cs_tools c) = Inr tokens"
    using code es by (auto split: sum.splits)
  have "prepared_from p env s step s' h c a prompt available s1 s2"
    unfolding prepared_from_def
    using code rd co merged_def prompt_def av pr es at
    by (intro conjI exI [of _ collected] exI [of _ merged] exI [of _ shown] exI [of _ compressed] exI [of _ estimated]) auto
  then show ?thesis by (rule that)
qed

text \<open>The stored projections of a run are views.\<close>

definition summaries_wf :: "run_state \<Rightarrow> bool" where
  "summaries_wf s \<longleftrightarrow> (\<forall>v x. rs_summaries s v = Some x \<longrightarrow> well_paired (sp_messages x))"

lemma project_facts:
  assumes "compressor (dp_compress p) (dp_float p)" and "summaries_wf s"
    and "project p prompt key available s = (Inr (shown, compressed), s')"
  shows "well_paired shown \<and> summaries_wf s'"
proof -
  have fresh: "well_paired v" if "dp_compress p prompt available (tbp_estimator (dp_budget p)) 0 = Inr (v, c)" for v c
    using compressor.result_paired [OF assms(1) that] .
  show ?thesis
    using assms(2,3) fresh
    by (auto simp: project_def summaries_wf_def summaries_get_def summaries_put_def split: option.splits sum.splits if_splits)
qed

lemma collect_summaries:
  assumes "\<And>s. summaries_wf s \<Longrightarrow> summaries_wf (pause env s)" and "summaries_wf s"
    and "collect p env app index cs s = (x, s')"
  shows "summaries_wf s'"
  using collect_keeps [where P = summaries_wf, OF assms(1) _ assms(2), of p app index cs] assms(3)
  by (simp add: summaries_wf_def)

lemma read_loop_summaries:
  assumes "\<And>s. summaries_wf s \<Longrightarrow> summaries_wf (pause env s)"
  shows "summaries_wf s \<Longrightarrow> read_loop env n s = (x, s') \<Longrightarrow> summaries_wf s'"
proof (induction n arbitrary: s)
  case (Suc n)
  have app: "summaries_wf t \<Longrightarrow> summaries_wf (t\<lparr>rs_app := y\<rparr>)" for t y by (simp add: summaries_wf_def)
  have round: "summaries_wf s1" if "read_round env s = (y, s1)" for y s1
    using that Suc.prems(1) assms app by (auto simp: read_round_def Let_def split: sum.splits prod.splits)
  obtain y s1 where rd: "read_round env s = (y, s1)" by (cases "read_round env s")
  then show ?case
    using Suc.prems(2) Suc.IH [OF round [OF rd]] round [OF rd] by (cases y) (auto split: option.splits)
qed simp

section \<open>Properties\<close>

text \<open>No two contributions of a list tie: equal key and rank mean the same contribution.\<close>

definition untied :: "context_contribution list \<Rightarrow> bool" where
  "untied cs \<longleftrightarrow>
     (\<forall>a \<in> set cs. \<forall>b \<in> set cs. contribution_key a = contribution_key b \<and> contribution_rank a = contribution_rank b \<longrightarrow> a = b)"

text \<open>Merging is deterministic: the merged contributions do not depend on the order in which they
arrive as long as no two tie, each is the best of its scope and key, no key appears
twice, and they come in the order of falling priority.\<close>

theorem merge_is_deterministic:
  assumes "mset xs = mset ys" and "untied xs"
  shows "merge_contributions xs = merge_contributions ys \<and> set (merge_contributions xs) = best_of (set xs) \<and>
    distinct (map contribution_key (merge_contributions xs)) \<and>
    sorted (map contribution_order (merge_contributions xs))"
  using assms merge_perm [OF assms(1)] merge_set [of xs] by (simp add: untied_def merge_distinct merge_sorted)

definition demo_contribution :: "int \<Rightarrow> string \<Rightarrow> context_contribution" where
  "demo_contribution priority content =
     \<lparr>cc_source = ''host'', cc_content = content, cc_scope = ''step'', cc_priority = priority, cc_dedupe_key = ''k''\<rparr>"

theorem merge_is_deterministic_witness:
  "merge_contributions [demo_contribution 1 ''a'', demo_contribution 2 ''b''] =
   merge_contributions [demo_contribution 2 ''b'', demo_contribution 1 ''a'']"
  using merge_is_deterministic [of "[demo_contribution 1 ''a'', demo_contribution 2 ''b'']"
      "[demo_contribution 2 ''b'', demo_contribution 1 ''a'']"]
  by (simp add: untied_def demo_contribution_def contribution_rank_def)

text \<open>C14: A step is prepared from one moment: whatever other tasks do to the stores between the
readings, the transcript, capability and application snapshots that the step provider settles on
all held in one state of the run, which it passed through while it was reading.\<close>

theorem snapshots_coexist:
  assumes "env_ok jv env" and "stores_wf s" and "read_consistent env s = (Inr (h, c, a), s')"
  shows "\<exists>target m. stores_run jv s m \<and> stores_run jv m s' \<and> rt_value (rs_target s') = rt_value target \<and>
    snapshot target (rs_transcript m) = Inr h \<and> cse_current (rs_caps m) = c \<and> fst (app_current target (rs_app m)) = a"
  using read_loop_facts [OF assms(1,2)] assms(3)
  unfolding read_consistent_def consistent_at_def by fastforce

text \<open>C18: A prepared request fits: when a step is prepared, the estimate of its model attempt is the
one the ledger will be asked for and is at most \<^verbatim>\<open>max_prompt_tokens\<close>, and its messages are a well-paired view, provided
the compressor keeps its contract and the stored projections are views.\<close>

theorem prepared_request_fits:
  assumes "compressor (dp_compress p) (dp_float p)" and "summaries_wf s"
    and "\<And>t. summaries_wf t \<Longrightarrow> summaries_wf (pause env t)"
    and "prepare p env identity s = (Inr step, s')"
  shows "estimate_model_attempt (dp_float p) (dp_budget p) (mr_messages (ps_request step)) (mr_tools (ps_request step)) =
      Inr (ps_estimated_tokens step) \<and>
    ps_estimated_tokens step \<le> tbp_max_prompt_tokens (dp_budget p) \<and>
    well_paired (mr_messages (ps_request step)) \<and> summaries_wf s'"
proof -
  obtain h c a prompt available s1 s2 where "prepared_from p env s step s' h c a prompt available s1 s2"
    by (rule prepare_Inr [OF assms(4)])
  then obtain collected merged shown compressed estimated where
    steps: "read_consistent env s = (Inr (h, c, a), s1)" "collect p env a 0 (dp_contributors p) s1 = (Inr collected, s2)"
    and budget: "available_for_prompt (dp_budget p) (cs_tools c) = Inr available"
    and projected: "project p prompt (projection_key p (tsn_version h) (cs_version c) (as_version a) merged prompt available)
          available s2 = (Inr (shown, compressed), s')"
    and fits: "policy_estimate_messages (dp_float p) (dp_budget p) shown = Inr estimated" "estimated \<le> available"
    and request: "estimate_model_attempt (dp_float p) (dp_budget p) shown (cs_tools c) = Inr (ps_estimated_tokens step)"
      "mr_messages (ps_request step) = shown" "mr_tools (ps_request step) = cs_tools c"
    unfolding prepared_from_def by blast
  have "summaries_wf s1" using read_loop_summaries [OF assms(3)] assms(2) steps(1) unfolding read_consistent_def by blast
  then have "summaries_wf s2" using collect_summaries [OF assms(3) _ steps(2)] by blast
  from project_facts [OF assms(1) this projected] have "well_paired shown \<and> summaries_wf s'" .
  moreover have "ps_estimated_tokens step \<le> tbp_max_prompt_tokens (dp_budget p)"
    using budget fits request(1)
    by (auto simp: available_for_prompt_def estimate_model_attempt_def Let_def split: sum.splits if_splits)
  ultimately show ?thesis using request by simp
qed

section \<open>The projection cache\<close>

text \<open>
  The prompts a run has projected, and stored projections that came from them.  SHA-256 truncated to
  sixteen digits cannot be injective, so what is assumed is that no two prompts of the run collide.
\<close>

definition projections_from :: "step_provider \<Rightarrow> message list set \<Rightarrow> run_state \<Rightarrow> bool" where
  "projections_from p D s \<longleftrightarrow>
     (\<forall>v x. rs_summaries s v = Some x \<longrightarrow>
        (\<exists>h c a merged prompt available. prompt \<in> D \<and> sp_key x = projection_key p h c a merged prompt available \<and>
           dp_compress p prompt available (tbp_estimator (dp_budget p)) 0 = Inr (sp_messages x, True)))"

lemma projection_key_fields:
  assumes "projection_key p h c a m prompt available = projection_key p h' c' a' m' prompt' available'"
    and "\<And>s. CHR ''|'' \<notin> set (dp_sha p s)"
  shows "available = available' \<and> message_digest (dp_sha p) (dp_float p) prompt = message_digest (dp_sha p) (dp_float p) prompt'"
proof -
  let ?front = "\<lambda>h c a m. join ''|'' [h, c, a, contribution_digest (dp_sha p) m]"
  let ?d = "message_digest (dp_sha p) (dp_float p)"
  have key: "projection_key p h c a m prompt available =
      (?front h c a m @ CHR ''|'' # ?d prompt) @ CHR ''|'' # int_str available" for h c a m prompt available
    by (simp add: projection_key_def)
  have bar: "CHR ''|'' \<notin> set (?d prompt)" for prompt
    using assms(2) by (auto simp: message_digest_def dest: in_set_takeD)
  have num: "CHR ''|'' \<notin> set (int_str i)" for i
    using nat_str_digits by (auto simp: int_str_def)
  from field_back [OF num num assms(1) [unfolded key]]
  have "int_str available = int_str available'"
    and front: "?front h c a m @ CHR ''|'' # ?d prompt = ?front h' c' a' m' @ CHR ''|'' # ?d prompt'" by blast+
  moreover from field_back [OF bar bar front] have "?d prompt = ?d prompt'" by blast
  ultimately show ?thesis using int_str_inj by blast
qed

text \<open>What is stored under the key of a prompt is the projection of that prompt.\<close>

lemma stored_projection:
  assumes "projections_from p D s" and "prompt \<in> D" and "inj_on (message_digest (dp_sha p) (dp_float p)) D"
    and "\<And>s. CHR ''|'' \<notin> set (dp_sha p s)"
    and "rs_summaries s v = Some y" and "sp_key y = projection_key p h c a merged prompt available"
  shows "dp_compress p prompt available (tbp_estimator (dp_budget p)) 0 = Inr (sp_messages y, True)"
proof -
  from assms(1,5) obtain h' c' a' m' q b where q: "q \<in> D" "sp_key y = projection_key p h' c' a' m' q b"
    "dp_compress p q b (tbp_estimator (dp_budget p)) 0 = Inr (sp_messages y, True)"
    unfolding projections_from_def by blast
  from projection_key_fields [OF _ assms(4), of h c a merged prompt available h' c' a' m' q b] q(2) assms(6)
  have "available = b" "message_digest (dp_sha p) (dp_float p) prompt = message_digest (dp_sha p) (dp_float p) q" by simp_all
  with inj_onD [OF assms(3) _ assms(2) q(1)] q(3) show ?thesis by simp
qed

lemma projections_from_put:
  assumes "projections_from p D s" and "prompt \<in> D"
    and "dp_compress p prompt available (tbp_estimator (dp_budget p)) 0 = Inr (ms, True)"
  shows "projections_from p D (s\<lparr>rs_summaries := summaries_put target
    \<lparr>sp_key = projection_key p h c a merged prompt available, sp_messages = ms\<rparr> (rs_summaries s)\<rparr>)"
  unfolding projections_from_def
proof (intro allI impI)
  let ?y = "\<lparr>sp_key = projection_key p h c a merged prompt available, sp_messages = ms\<rparr>"
  fix w y assume "rs_summaries (s\<lparr>rs_summaries := summaries_put target ?y (rs_summaries s)\<rparr>) w = Some y"
  then have "y = ?y \<or> rs_summaries s w = Some y" by (cases "w = rt_value target") (simp_all add: summaries_put_def)
  then consider "y = ?y" | "rs_summaries s w = Some y" by (elim disjE)
  then show "\<exists>h c a merged prompt available. prompt \<in> D \<and> sp_key y = projection_key p h c a merged prompt available \<and>
      dp_compress p prompt available (tbp_estimator (dp_budget p)) 0 = Inr (sp_messages y, True)"
  proof cases
    case 1
    with assms(2,3) show ?thesis
      by (intro exI [of _ h] exI [of _ c] exI [of _ a] exI [of _ merged] exI [of _ prompt] exI [of _ available]) simp
  next
    case 2
    then show ?thesis using assms(1) unfolding projections_from_def by blast
  qed
qed

lemma project_miss:
  "\<nexists>y. rs_summaries s (rt_value (rs_target s)) = Some y \<and> sp_key y = key \<Longrightarrow>
   project p prompt key available s =
     (case dp_compress p prompt available (tbp_estimator (dp_budget p)) 0 of
        Inl e \<Rightarrow> (Inl e, s)
      | Inr (ms, compressed) \<Rightarrow> (Inr (ms, compressed),
          if compressed then s\<lparr>rs_summaries := summaries_put (rs_target s) \<lparr>sp_key = key, sp_messages = ms\<rparr> (rs_summaries s)\<rparr>
          else s))"
  by (simp add: project_def summaries_get_def split: option.split)

text \<open>C15: The projection cache is transparent: as long as no two prompts of the run have the same digest, a
projection returns what the compressor returns for this prompt and this budget, whether or not it is
answered from the store, and it stores only such projections.\<close>

theorem projection_cache_transparent:
  assumes "projections_from p D s" and "prompt \<in> D" and "inj_on (message_digest (dp_sha p) (dp_float p)) D"
    and "\<And>s. CHR ''|'' \<notin> set (dp_sha p s)"
    and "project p prompt (projection_key p h c a merged prompt available) available s = (x, s')"
  shows "x = dp_compress p prompt available (tbp_estimator (dp_budget p)) 0 \<and> projections_from p D s'"
proof (cases "\<exists>y. rs_summaries s (rt_value (rs_target s)) = Some y \<and> sp_key y = projection_key p h c a merged prompt available")
  case True
  then obtain y where y: "rs_summaries s (rt_value (rs_target s)) = Some y"
    "sp_key y = projection_key p h c a merged prompt available" by blast
  with assms(5) have "x = Inr (sp_messages y, True)" "s' = s" by (simp_all add: project_def summaries_get_def)
  with stored_projection [OF assms(1-4) y] assms(1) show ?thesis by simp
next
  case False
  note call = assms(5) [unfolded project_miss [OF False]]
  show ?thesis
  proof (cases "dp_compress p prompt available (tbp_estimator (dp_budget p)) 0")
    case (Inr r)
    then show ?thesis
      using call assms(1) projections_from_put [OF assms(1,2)] by (cases r; cases "snd r") auto
  qed (use assms(1) call in simp)
qed

section \<open>Concrete runs\<close>

definition demo_state :: run_state where
  "demo_state = new_run_state demo_request demo_transcript demo_fixed demo_registry demo_app Map.empty
     (new_control None) 0 (new_observer 256) 0"

lemma demo_state_wf: "stores_wf demo_state"
  using demo_transcript_wf demo_session_wf
  by (simp add: stores_wf_def demo_state_def new_run_state_def demo_app_def)

definition demo_provider :: step_provider where
  "demo_provider = \<lparr>dp_request = demo_request, dp_contributors = [static_contributor [demo_contribution 1 ''be brief''] ''k''],
     dp_budget = demo_policy, dp_compress = tool_group_compress (\<lambda>_. []), dp_deadline = None,
     dp_sha = (\<lambda>_. ''0123456789abcdef''), dp_float = (\<lambda>_. [])\<rparr>"
theorem snapshots_coexist_witness:
  "\<exists>h c a s'. read_consistent quiet demo_state = (Inr (h, c, a), s') \<and> tsn_version h = ''v2:chat'' \<and>
     (\<exists>target m. stores_run accept_all demo_state m \<and> stores_run accept_all m s' \<and>
        rt_value (rs_target s') = rt_value target \<and>
        snapshot target (rs_transcript m) = Inr h \<and> cse_current (rs_caps m) = c \<and> fst (app_current target (rs_app m)) = a)"
proof -
  have "case fst (read_consistent quiet demo_state) of Inl _ \<Rightarrow> False | Inr (h, c, a) \<Rightarrow> tsn_version h = ''v2:chat''"
    by code_simp
  then obtain h c a s' where run: "read_consistent quiet demo_state = (Inr (h, c, a), s')" "tsn_version h = ''v2:chat''"
    by (cases "read_consistent quiet demo_state"; cases "fst (read_consistent quiet demo_state)") auto
  from snapshots_coexist [OF quiet_ok demo_state_wf run(1)] run show ?thesis by blast
qed

definition demo_identity :: step_identity where
  "demo_identity = \<lparr>si_run_id = ''r'', si_step_no = 1, si_model_round = 1\<rparr>"

theorem prepared_request_fits_witness:
  "\<exists>step s'. prepare demo_provider quiet demo_identity demo_state = (Inr step, s') \<and>
     well_paired (mr_messages (ps_request step)) \<and> ps_estimated_tokens step = 261 \<and> (261::int) \<le> 300"
proof -
  have "case fst (prepare demo_provider quiet demo_identity demo_state) of Inl _ \<Rightarrow> False
        | Inr step \<Rightarrow> ps_estimated_tokens step = 261"
    by code_simp
  then obtain step s' where run: "prepare demo_provider quiet demo_identity demo_state = (Inr step, s')"
    and size: "ps_estimated_tokens step = 261"
    by (cases "prepare demo_provider quiet demo_identity demo_state";
        cases "fst (prepare demo_provider quiet demo_identity demo_state)") auto
  have contract: "compressor (dp_compress demo_provider) (dp_float demo_provider)"
    unfolding demo_provider_def using tg.compressor_axioms by simp
  have empty: "summaries_wf demo_state"
    by (simp add: summaries_wf_def demo_state_def new_run_state_def)
  have "summaries_wf (pause quiet t)" if "summaries_wf t" for t
    using that by (simp add: summaries_wf_def)
  from prepared_request_fits [OF contract empty this run] run size show ?thesis
    by (auto simp: demo_provider_def demo_policy_def)
qed

theorem projection_cache_transparent_witness:
  "fst (project demo_provider demo_history (projection_key demo_provider [] [] [] [] demo_history 3) 3 demo_state) =
   tool_group_compress (\<lambda>_. []) demo_history 3 (char_quarter (\<lambda>_. [])) 0"
proof -
  have start: "projections_from demo_provider {demo_history} demo_state"
    by (simp add: projections_from_def demo_state_def new_run_state_def)
  have "CHR ''|'' \<notin> set (dp_sha demo_provider s)" for s by (simp add: demo_provider_def)
  from projection_cache_transparent [OF start _ _ this surjective_pairing] show ?thesis
    by (simp add: demo_provider_def demo_policy_def)
qed

end
