(* ===== verification/Model_Facts.thy ===== *)
theory Model_Facts imports Model_Pipeline Manager_Facts begin

text \<open>
  What a model step guarantees: its events, the one effective result and its recording, what it
  reserves, and that the completion of the step finds its text already recorded.
\<close>

section \<open>The stores\<close>

lemma snd_lift_result [simp]: "snd (lift_result f r) = snd r"
  by (simp add: lift_result_def split: prod.split sum.split)

lemma stores_wf_transcript: "stores_wf s \<Longrightarrow> transcript_wf t \<Longrightarrow> stores_wf (s\<lparr>rs_transcript := t\<rparr>)"
  by (simp add: stores_wf_def)

lemma stores_wf_call:
  "stores_wf s \<Longrightarrow> snd (f (rs_transcript s)) = snd (apply_op c (rs_transcript s)) \<Longrightarrow>
   stores_wf (s\<lparr>rs_transcript := snd (f (rs_transcript s))\<rparr>)"
  by (simp add: stores_wf_transcript apply_op_wf_grows(1) stores_wf_def)

lemma stores_wf_delta:
  "stores_wf s \<Longrightarrow> stores_wf (s\<lparr>rs_transcript := snd (record_text_delta run n tgt body op a prev (rs_transcript s))\<rparr>)"
  by (rule stores_wf_call [where c = "OpTextDelta run n tgt body op a prev"]) simp_all

lemma stores_wf_final:
  "stores_wf s \<Longrightarrow> stores_wf (s\<lparr>rs_transcript := snd (record_text_final run n tgt body reas calls op a prev (rs_transcript s))\<rparr>)"
  by (rule stores_wf_call [where c = "OpTextFinal run n tgt body reas calls op a prev"]) simp_all

lemma stores_wf_other [simp]:
  "stores_wf (observe ev s) = stores_wf s" "stores_wf (s\<lparr>rs_ledger := l\<rparr>) = stores_wf s"
  "stores_wf (s\<lparr>rs_completion_policy_calls := n\<rparr>) = stores_wf s"
  "stores_wf (s\<lparr>rs_policy_calls := n\<rparr>) = stores_wf s"
  "stores_wf (s\<lparr>rs_external_work := w\<rparr>) = stores_wf s"
  "stores_wf (s\<lparr>rs_yielded_terminal := y\<rparr>) = stores_wf s"
  by (simp_all add: stores_wf_def observe_def)

lemma stores_wf_pause: "env_ok jv env \<Longrightarrow> stores_wf s \<Longrightarrow> stores_wf (pause env s)"
  using stores_run_wf pause_run by blast

lemma sleep_state: "snd (sleep_cancellable env d s) = (if d \<le> 0 then s else pause env s)"
  by (simp add: sleep_cancellable_def)

lemma attempt_events_wf: "env_ok jv env \<Longrightarrow> keeps stores_wf (attempt_events env idle lm step attempt)"
  unfolding attempt_events_def
  by (rule keeps_gbind, rule keeps_small, clarsimp, rule keeps_each_until)
    (auto simp: low_event_def failed_attempt_def Let_def keeps_small stores_wf_delta stores_wf_pause
      split: runtime_event.split intro!: keeps_gbind keeps_recording keeps_iterate)

section \<open>One attempt\<close>

definition completes :: "prepared_step \<Rightarrow> runtime_event list \<Rightarrow> run_state \<Rightarrow> bool" where
  "completes step es s' \<longleftrightarrow>
     (\<exists>front result rc previous t. es = front @ [ModelCompleted (ps_identity step) result (Some rc)] \<and>
        list_all is_delta front \<and> is_effective result \<and> transcript_wf t \<and>
        record_final step (mres_attempt result) previous result t = (Inr rc, rs_transcript s'))"

text \<open>A failing step yields deltas only, a returning one deltas only or a completion.\<close>

definition attempt_ok :: "prepared_step \<Rightarrow> runtime_event list \<Rightarrow> exn + unit \<Rightarrow> run_state \<Rightarrow> bool" where
  "attempt_ok step es r s' \<longleftrightarrow> list_all is_delta es \<or> r = Inr () \<and> completes step es s'"

lemma run_attempt_ok:
  assumes env: "env_ok jv env" and wf: "stores_wf s" and run: "drain (run_attempt env idle lm step attempt) s = (es, r, s')"
  shows "attempt_ok step es r s'"
proof -
  obtain es1 r1 s1 where ev: "drain (attempt_events env idle lm step attempt) s = (es1, r1, s1)"
    by (cases "drain (attempt_events env idle lm step attempt) s")
  have deltas: "list_all is_delta es1" using all_events_drain [OF attempt_events_deltas ev] .
  have wf1: "stores_wf s1" using keeps_drain [OF attempt_events_wf [OF env] wf ev] .
  show ?thesis
  proof (cases r1)
    case (Inl e)
    then show ?thesis using run ev deltas by (simp add: run_attempt_def drain_gbind attempt_ok_def)
  next
    case (Inr found)
    show ?thesis
    proof (cases found)
      case None
      then show ?thesis using run ev Inr deltas by (simp add: run_attempt_def drain_gbind attempt_ok_def)
    next
      case (Some pr)
      obtain previous result where pr: "pr = (previous, result)" by (cases pr)
      have ok: "is_effective result" "mres_attempt result = attempt"
        using results_drain [OF attempt_events_found, of env idle lm step attempt s es1 found s1] ev Inr Some pr
        by (auto simp: found_ok_def)
      obtain w s2 where w: "wait_for env False s1 = (w, s2)" by (cases "wait_for env False s1")
      have wf2: "stores_wf s2" using wait_for_state [of env False s1] w stores_wf_pause [OF env wf1] by simp
      obtain x t where rec: "record_final step attempt previous result (rs_transcript s2) = (x, t)"
        by (cases "record_final step attempt previous result (rs_transcript s2)")
      show ?thesis
      proof (cases w; cases x)
        fix u rc assume "w = Inr u" "x = Inr rc"
        then have "es = es1 @ [ModelCompleted (ps_identity step) result (Some rc)]" "r = Inr ()"
          "s' = s2\<lparr>rs_transcript := t\<rparr>"
          using run ev Inr Some pr w rec
          by (simp_all add: run_attempt_def drain_simps recording_def on_transcript_def)
        moreover have "completes step (es1 @ [ModelCompleted (ps_identity step) result (Some rc)]) (s2\<lparr>rs_transcript := t\<rparr>)"
          unfolding completes_def
        proof (intro exI conjI)
          show "record_final step (mres_attempt result) previous result (rs_transcript s2) =
              (Inr rc, rs_transcript (s2\<lparr>rs_transcript := t\<rparr>))"
            using rec ok \<open>x = Inr rc\<close> by simp
        qed (use deltas ok wf2 in \<open>simp_all add: stores_wf_def\<close>)
        ultimately show ?thesis by (simp add: attempt_ok_def)
      qed (use run ev Inr Some pr w rec deltas in
          \<open>auto simp: run_attempt_def drain_simps recording_def on_transcript_def attempt_ok_def\<close>)
    qed
  qed
qed

lemma run_attempt_wf: "env_ok jv env \<Longrightarrow> keeps stores_wf (run_attempt env idle lm step attempt)"
  unfolding run_attempt_def
  by (rule keeps_gbind [OF attempt_events_wf])
    (auto simp: keeps_small record_final_def Let_def stores_wf_final stores_wf_pause split: option.split
      intro!: keeps_gbind keeps_recording)

lemma fold_watch: "fst (fold watch es c) \<longleftrightarrow> fst c \<or> list_ex is_model_completed es"
  by (induction es arbitrary: c) (auto simp: watch_def)

lemma delta_not_completed: "list_all is_delta es \<Longrightarrow> \<not> list_ex is_model_completed es"
proof (induction es)
  case (Cons ev es)
  then show ?case by (cases ev) auto
qed simp

text \<open>The attempt as the retry loop sees it.\<close>

lemma one_attempt_ok:
  assumes "env_ok jv env" and "stores_wf s" and run: "drain (one_attempt env idle lm step attempt) s = (es, r, s')"
  shows "stores_wf s' \<and>
    (case r of Inl e \<Rightarrow> list_all is_delta es
     | Inr (completed, failure) \<Rightarrow> if completed then completes step es s' else list_all is_delta es)"
proof -
  let ?f = "\<lambda>s'. observe (Timing (timed ''model_attempt'' (si_run_id (ps_identity step))
            (Some (si_step_no (ps_identity step))) None (Some attempt) (rs_now s) (rs_now s'))) s'"
  obtain es1 r1 s1 where a: "drain (run_attempt env idle lm step attempt) s = (es1, r1, s1)"
    by (cases "drain (run_attempt env idle lm step attempt) s")
  note ok = run_attempt_ok [OF assms(1,2) a]
  have wf1: "stores_wf s1" using keeps_drain [OF run_attempt_wf [OF assms(1)] assms(2) a] .
  have late: "completes step es1 (?f s1) = completes step es1 s1" by (simp add: completes_def observe_def)
  show ?thesis
  proof (cases r1)
    case (Inl e)
    then have "es = es1 \<and> s' = ?f s1 \<and> (r = Inl e \<or> (\<exists>x. r = Inr (False, x)))"
      using run a
      by (auto simp: one_attempt_def drain_simps drain_each_until_pass retry_error_def split: if_splits)
    then show ?thesis using ok Inl wf1 by (auto simp: attempt_ok_def)
  next
    case (Inr u)
    then have "es = es1 \<and> s' = ?f s1 \<and> r = Inr (list_ex is_model_completed es1, None)"
      using run a by (auto simp: one_attempt_def drain_simps drain_each_until_pass fold_watch)
    moreover have "completes step es1 s1 \<Longrightarrow> list_ex is_model_completed es1" by (auto simp: completes_def)
    ultimately show ?thesis using ok Inr wf1 delta_not_completed late by (auto simp: attempt_ok_def)
  qed
qed

section \<open>The whole step\<close>

lemma completes_append: "list_all is_delta front \<Longrightarrow> completes step es s \<Longrightarrow> completes step (front @ es) s"
  unfolding completes_def by (metis append.assoc list_all_append)

text \<open>One round of the retry loop, by how far it gets; \<open>s1\<close> is the state after the reservation.\<close>

lemma attempt_loop_round:
  assumes run: "drain (attempt_loop env idle lm step (Suc left) attempt last_error) s = (es, r, s')"
  obtains (refused) e where "es = []" "r = Inl e" "s' = s" "rs_ledger s' = rs_ledger s"
  | (attempted) s1 es1 r1 s2 where "reserve_tokens (ps_estimated_tokens step) s = (Inr (), s1)"
      "drain (one_attempt env idle lm step attempt) s1 = (es1, r1, s2)"
      "(case r1 of Inl e \<Rightarrow> es = es1 \<and> r = Inl e \<and> s' = s2
        | Inr (True, _) \<Rightarrow> es = es1 \<and> r = Inr () \<and> s' = s2
        | Inr (False, _) \<Rightarrow>
            (\<exists>s3 es3 last. (s3 = s2 \<or> s3 = pause env s2) \<and> es = es1 @ es3 \<and>
               ((\<exists>e. es3 = [] \<and> r = Inl e \<and> s' = s3) \<or>
                drain (attempt_loop env idle lm step left (attempt + 1) last) s3 = (es3, r, s'))))"
proof -
  obtain x where go: "raise_if_stopped s = (x, s)"
    using raise_if_stopped_state [of s] by (metis prod.collapse)
  obtain y s1 where res: "reserve_tokens (ps_estimated_tokens step) s = (y, s1)"
    by (cases "reserve_tokens (ps_estimated_tokens step) s")
  have same: "s1 = s" if "y = Inl e" for e
    using res that by (auto simp: reserve_tokens_def reserve_def split: option.splits if_splits)
  show ?thesis
  proof (cases "\<exists>e. x = Inl e \<or> y = Inl e")
    case True
    then have "es = [] \<and> s' = s \<and> (\<exists>e. r = Inl e)" using run go res same by (cases x; cases y) (auto simp: drain_simps)
    then show ?thesis using refused by blast
  next
    case False
    have ok: "x = Inr ()" using False by (cases x) auto
    have res: "reserve_tokens (ps_estimated_tokens step) s = (Inr (), s1)" using res False by (cases y) auto
    obtain es1 r1 s2 where a: "drain (one_attempt env idle lm step attempt) s1 = (es1, r1, s2)"
      by (cases "drain (one_attempt env idle lm step attempt) s1")
    let ?wait = "if left = 0 then Ret () else act (sleep_cancellable env (backoff (mr_recovery (ps_request step)) attempt))"
    obtain es2 r2 s3 where w: "drain ?wait s2 = (es2, r2, s3)" by (cases "drain ?wait s2")
    have quiet: "es2 = []" using w by (auto simp: drain_act split: if_splits)
    have s3: "s3 = s2 \<or> s3 = pause env s2"
    proof (cases "left = 0")
      case False
      then have "s3 = snd (sleep_cancellable env (backoff (mr_recovery (ps_request step)) attempt) s2)"
        using w by (auto simp: drain_act)
      then show ?thesis by (simp add: sleep_state)
    qed (use w in simp)
    have code: "after (es1, r1, s2) (\<lambda>(completed, failure). drain
          (if completed then Ret ()
           else gbind ?wait (\<lambda>_. attempt_loop env idle lm step left (attempt + 1)
                 (case failure of Some e \<Rightarrow> Some e | None \<Rightarrow> last_error)))) = (es, r, s')"
      using run go res ok a by (simp add: drain_gbind drain_act case_prod_unfold)
    show ?thesis
    proof (rule attempted [of s1 es1 r1 s2])
      show "reserve_tokens (ps_estimated_tokens step) s = (Inr (), s1)" by (rule res)
      show "drain (one_attempt env idle lm step attempt) s1 = (es1, r1, s2)" by (rule a)
      show "case r1 of Inl e \<Rightarrow> es = es1 \<and> r = Inl e \<and> s' = s2
        | Inr (True, _) \<Rightarrow> es = es1 \<and> r = Inr () \<and> s' = s2
        | Inr (False, _) \<Rightarrow>
            (\<exists>s3 es3 last. (s3 = s2 \<or> s3 = pause env s2) \<and> es = es1 @ es3 \<and>
               ((\<exists>e. es3 = [] \<and> r = Inl e \<and> s' = s3) \<or>
                drain (attempt_loop env idle lm step left (attempt + 1) last) s3 = (es3, r, s')))"
      proof (cases r1)
        case (Inr cf)
        obtain completed failure where cf: "cf = (completed, failure)" by (cases cf)
        show ?thesis
        proof (cases completed)
          case False
          let ?last = "case failure of Some e \<Rightarrow> Some e | None \<Rightarrow> last_error"
          have "after (es2, r2, s3) (\<lambda>_. drain (attempt_loop env idle lm step left (attempt + 1) ?last)) =
              (drop (length es1) es, r, s') \<and> es = es1 @ drop (length es1) es"
            using code Inr cf False w by (auto simp: drain_gbind) (metis prod.collapse)
          then show ?thesis using Inr cf False quiet s3
            by (cases r2) (auto intro!: exI [of _ s3] exI [of _ "drop (length es1) es"])
        qed (use code Inr cf in auto)
      qed (use code in auto)
    qed
  qed
qed

lemma attempt_loop_ok:
  assumes env: "env_ok jv env"
  shows "stores_wf s \<Longrightarrow> drain (attempt_loop env idle lm step left attempt last_error) s = (es, r, s') \<Longrightarrow>
    (case r of Inl e \<Rightarrow> list_all is_delta es | Inr _ \<Rightarrow> completes step es s')"
proof (induction left arbitrary: s es attempt last_error)
  case (Suc left)
  from Suc.prems(2) show ?case
  proof (cases rule: attempt_loop_round)
    case (refused e)
    then show ?thesis by simp
  next
    case (attempted s1 es1 r1 s2)
    have "stores_wf s1" using attempted(1) Suc.prems(1) by (auto simp: reserve_tokens_def)
    note ok = one_attempt_ok [OF env this attempted(2)]
    show ?thesis
    proof (cases r1)
      case (Inr cf)
      obtain completed failure where cf: "cf = (completed, failure)" by (cases cf)
      show ?thesis
      proof (cases completed)
        case False
        then have deltas: "list_all is_delta es1" using ok Inr cf by simp
        from attempted(3) Inr cf False obtain s3 es3 last where s3: "s3 = s2 \<or> s3 = pause env s2" and es: "es = es1 @ es3"
          and rest: "(\<exists>e. es3 = [] \<and> r = Inl e \<and> s' = s3) \<or>
            drain (attempt_loop env idle lm step left (attempt + 1) last) s3 = (es3, r, s')" by auto
        have "stores_wf s3" using s3 ok stores_wf_pause [OF env] by blast
        then show ?thesis using rest es deltas Suc.IH [of s3 "attempt + 1" last es3]
          by (auto split: sum.splits intro: completes_append)
      qed (use attempted(3) ok Inr cf in auto)
    qed (use attempted(3) ok in auto)
  qed
qed auto

lemma model_stream_ok:
  assumes "env_ok jv env" and "stores_wf s" and "drain (model_stream env idle lm step) s = (es, r, s')"
  shows "case r of Inl e \<Rightarrow> list_all is_delta es | Inr _ \<Rightarrow> completes step es s'"
  using assms(3) attempt_loop_ok [OF assms(1,2)] by (auto simp: model_stream_def Let_def split: if_splits)

section \<open>Completion after the model step\<close>

lemma transcript_calls_grow: "transcript_call\<^sup>*\<^sup>* t t' \<Longrightarrow> transcript_wf t \<Longrightarrow> transcript_wf t' \<and> mt_ops t \<subseteq>\<^sub>m mt_ops t'"
proof (induction rule: rtranclp_induct)
  case (step t' t'')
  then obtain c where "t'' = snd (apply_op c t')" by (auto simp: transcript_call_def)
  then show ?case
    using step apply_op_wf_grows [of t' c] growsD(4) map_le_trans by metis
qed simp

lemma record_final_commits:
  assumes "record_final step attempt previous result t = (Inr rc, t')"
  shows "mt_ops t' (final_op (ps_identity step) (ps_record_target step) attempt) \<noteq> None"
  using assms
  by (auto simp: record_final_def Let_def record_text_final_def again_message_def
      elim!: andthen_InrE dest!: check_fail_Inr [THEN iffD1] split: if_splits sum.splits option.splits)

text \<open>A final that was recorded is found again by every later recording of the same text.\<close>

lemma record_final_again:
  assumes wf: "transcript_wf t" and run: "record_final step attempt previous result t = (Inr rc, t')"
    and later: "transcript_call\<^sup>*\<^sup>* t' u" and ok: "final_op (ps_identity step) (ps_record_target step) attempt \<notin> mt_fail_ops u"
  shows "record_final step attempt None result u = (Inr (rc\<lparr>rc_created := False\<rparr>), u)"
proof -
  let ?op = "final_op (ps_identity step) (ps_record_target step) attempt"
  let ?call = "\<lambda>prev. OpTextFinal (si_run_id (ps_identity step)) (si_step_no (ps_identity step)) (ps_record_target step)
      (mres_text result) (mres_reasoning result) (mres_tool_calls result) ?op attempt prev"
  have ap: "apply_op (?call prev) t = lift_result ReMessage (record_final step attempt prev result t)" for prev t
    by (simp add: record_final_def Let_def)
  have call: "apply_op (?call previous) t = (Inr (ReMessage rc), t')"
    unfolding ap run by (simp add: lift_result_def)
  obtain e where e: "mt_ops t' ?op = Some e" using record_final_commits [OF run] by blast
  have by_c: "committed_by (?call previous) (ReMessage rc) e"
    by (rule apply_op_committed_by [OF wf _ call e]) simp
  have "transcript_wf t'" using apply_op_wf_grows(1) [OF wf, of "?call previous", unfolded call] by simp
  from transcript_calls_grow [OF later this] have wf_u: "transcript_wf u" and e_u: "mt_ops u ?op = Some e"
    using e by (auto simp: map_le_def dom_def)
  have "committed_by (?call None) (ReMessage rc) e" using by_c by (simp add: committed_by_def)
  from repeat_op_committed [OF this e_u] have "apply_op (?call None) u = (Inr (not_created (ReMessage rc)), u)"
    using apply_op_known [OF wf_u _ e_u ok, of "?call None"] by simp
  then show ?thesis
    unfolding ap by (auto simp: lift_result_def split: prod.splits sum.splits)
qed

text \<open>C9: A finished model step yields its deltas and then exactly one effective result, which is
recorded: when the completion pipeline records the final text of that result, at any later state of
the transcript, it finds the model's own record and adds nothing.  A model step that fails
yields deltas only.\<close>

theorem completion_finds_the_text:
  assumes "env_ok jv env" and "stores_wf s" and "drain (model_stream env idle lm step) s = (es, r, s')"
    and "transcript_call\<^sup>*\<^sup>* (rs_transcript s') u" and "mt_fail_ops u = {}"
  shows "case r of Inl e \<Rightarrow> list_all is_delta es
    | Inr _ \<Rightarrow> (\<exists>front result rc. es = front @ [ModelCompleted (ps_identity step) result (Some rc)] \<and>
        list_all is_delta front \<and> is_effective result \<and>
        record_completion \<lparr>cm_step = step, cm_result = result\<rparr> u = (Inr (rc\<lparr>rc_created := False\<rparr>), u))"
proof (cases r)
  case (Inr z)
  with model_stream_ok [OF assms(1-3)] obtain front result rc previous t where
    found: "es = front @ [ModelCompleted (ps_identity step) result (Some rc)]" "list_all is_delta front" "is_effective result"
    and wf: "transcript_wf t" and rec: "record_final step (mres_attempt result) previous result t = (Inr rc, rs_transcript s')"
    by (auto simp: completes_def)
  from record_final_again [OF wf rec assms(4)] assms(5)
  have "record_completion \<lparr>cm_step = step, cm_result = result\<rparr> u = (Inr (rc\<lparr>rc_created := False\<rparr>), u)"
    by (simp add: record_completion_def record_final_def Let_def)
  with found Inr show ?thesis by auto
qed (use model_stream_ok [OF assms(1-3)] in auto)

section \<open>Reservations\<close>

definition ledger_private :: "environment \<Rightarrow> bool" where
  "ledger_private env \<longleftrightarrow> (\<forall>n s. rs_ledger (env_stores env n s) = rs_ledger s)"

lemma pause_ledger: "ledger_private env \<Longrightarrow> rs_ledger (pause env s) = rs_ledger s"
  by (simp add: ledger_private_def pause_def Let_def)

lemma one_attempt_ledger:
  assumes "ledger_private env"
  shows "keeps (\<lambda>s. rs_ledger s = l) (one_attempt env idle lm step attempt)"
proof -
  have p: "rs_ledger (pause env s) = l" if "rs_ledger s = l" for s using pause_ledger [OF assms] that by simp
  have "keeps (\<lambda>s. rs_ledger s = l) (attempt_events env idle lm step attempt)"
    unfolding attempt_events_def
    by (rule keeps_gbind, rule keeps_small, clarsimp, rule keeps_each_until)
      (auto simp: low_event_def failed_attempt_def Let_def keeps_small p split: runtime_event.split
        intro!: keeps_gbind keeps_recording keeps_iterate)
  then have "keeps (\<lambda>s. rs_ledger s = l) (run_attempt env idle lm step attempt)"
    unfolding run_attempt_def by (rule keeps_gbind)
      (auto simp: keeps_small p split: option.split intro!: keeps_gbind keeps_recording)
  then show ?thesis
    unfolding one_attempt_def
    by (intro keeps_gbind keeps_gfinally keeps_each_until keeps_effect)
      (auto simp: keeps_small retry_error_def observe_def)
qed

definition reserved_after :: "int \<Rightarrow> ledger \<Rightarrow> nat \<Rightarrow> ledger \<Rightarrow> bool" where
  "reserved_after estimated l k l' \<longleftrightarrow>
     l' = l\<lparr>lg_reserved := lg_reserved l + int k * estimated\<rparr> \<and>
     (k \<noteq> 0 \<longrightarrow> (case lg_limit l of None \<Rightarrow> True | Some limit \<Rightarrow> lg_reserved l' \<le> limit))"

lemma reserved_after_Suc:
  "reserve estimated l = (Inr (), l1) \<Longrightarrow> reserved_after estimated l1 k l' \<Longrightarrow> reserved_after estimated l (Suc k) l'"
  by (cases "k = 0") (auto simp: reserve_def reserved_after_def algebra_simps split: option.splits if_splits)

lemma reserved_after_0 [simp]: "reserved_after estimated l 0 l"
  by (simp add: reserved_after_def)

lemma attempt_loop_ledger:
  assumes env: "ledger_private env"
  shows "drain (attempt_loop env idle lm step left attempt last_error) s = (es, r, s') \<Longrightarrow>
    \<exists>k \<le> left. reserved_after (ps_estimated_tokens step) (rs_ledger s) k (rs_ledger s') \<and> (es \<noteq> [] \<or> r = Inr () \<longrightarrow> k \<noteq> 0)"
proof (induction left arbitrary: s es attempt last_error)
  case (Suc left)
  from Suc.prems show ?case
  proof (cases rule: attempt_loop_round)
    case (refused e)
    then show ?thesis by (intro exI [of _ 0]) simp
  next
    case (attempted s1 es1 r1 s2)
    let ?e = "ps_estimated_tokens step"
    have l1: "reserve ?e (rs_ledger s) = (Inr (), rs_ledger s1)"
      using attempted(1) by (auto simp: reserve_tokens_def prod_eq_iff)
    have l2: "rs_ledger s2 = rs_ledger s1"
      using keeps_drain [OF one_attempt_ledger [OF env, of "rs_ledger s1"] _ attempted(2)] by simp
    have once: "reserved_after ?e (rs_ledger s) (Suc 0) (rs_ledger s1)" using reserved_after_Suc [OF l1] by simp
    have "(s' = s2 \<or> s' = pause env s2) \<or> (\<exists>s3 es3 last at'. (s3 = s2 \<or> s3 = pause env s2) \<and>
        drain (attempt_loop env idle lm step left at' last) s3 = (es3, r, s'))"
      using attempted(3) by (auto split: sum.splits prod.splits bool.splits)
    then consider "s' = s2 \<or> s' = pause env s2" | s3 es3 last at' where "s3 = s2 \<or> s3 = pause env s2"
      "drain (attempt_loop env idle lm step left at' last) s3 = (es3, r, s')" by blast
    then show ?thesis
    proof cases
      case 1
      then have "rs_ledger s' = rs_ledger s1" using l2 pause_ledger [OF env, of s2] by auto
      then show ?thesis using once by (intro exI [of _ "Suc 0"]) simp
    next
      case 2
      have l3: "rs_ledger s3 = rs_ledger s1" using 2(1) l2 pause_ledger [OF env, of s2] by auto
      from Suc.IH [OF 2(2)] obtain k where "k \<le> left" "reserved_after ?e (rs_ledger s1) k (rs_ledger s')" using l3 by auto
      then show ?thesis using reserved_after_Suc [OF l1] by (intro exI [of _ "Suc k"]) simp
    qed
  qed
qed (auto intro!: exI [of _ "0::nat"])


section \<open>Concrete runs\<close>

definition demo_step :: prepared_step where
  "demo_step =
     \<lparr>ps_identity = demo_identity, ps_record_target = \<lparr>rt_value = ''chat''\<rparr>,
      ps_request = \<lparr>mr_messages = [plain_message USER (Some ''hi'')], mr_tools = [],
        mr_model = rq_model demo_request, mr_tool_choice = rq_tool_choice demo_request,
        mr_recovery = default_recovery_budget, mr_deadline_monotonic = None\<rparr>,
      ps_capabilities = demo_fixed,
      ps_context_version = \<lparr>cv_history_version = ''v2:chat'', cv_capability_version = ''cap-1'',
        cv_application_version = ''app-1'', cv_target = \<lparr>rt_value = ''chat''\<rparr>\<rparr>,
      ps_estimated_tokens = 10, ps_context = None\<rparr>"

definition demo_reply :: model_result where
  "demo_reply = \<lparr>mres_text = Some ''Hello'', mres_reasoning = None, mres_tool_calls = [],
     mres_usage = \<lparr>tu_input_tokens = None, tu_output_tokens = None, tu_total_tokens = None, tu_source = MISSING\<rparr>,
     mres_finish_reason = None, mres_attempt = 0\<rparr>"

text \<open>A vendor that fails at first and answers at the second call.\<close>

definition demo_low :: low_level_model where
  "demo_low n request =
     (if n = 0 then ([], Some (raised AdapterError ''unavailable''))
      else ([TextDeltaEvent demo_identity ''Hello'' 0 None, ModelCompleted demo_identity demo_reply None], None))"

lemma demo_model_run: "fst (snd (drain (model_stream quiet False demo_low demo_step) demo_state)) = Inr ()"
  by code_simp

theorem completion_finds_the_text_witness:
  "\<exists>front result rc. fst (drain (model_stream quiet False demo_low demo_step) demo_state) =
      front @ [ModelCompleted demo_identity result (Some rc)] \<and>
     record_completion \<lparr>cm_step = demo_step, cm_result = result\<rparr>
       (rs_transcript (snd (snd (drain (model_stream quiet False demo_low demo_step) demo_state)))) =
     (Inr (rc\<lparr>rc_created := False\<rparr>), rs_transcript (snd (snd (drain (model_stream quiet False demo_low demo_step) demo_state))))"
proof -
  let ?d = "drain (model_stream quiet False demo_low demo_step) demo_state"
  have run: "?d = (fst ?d, Inr (), snd (snd ?d))" using demo_model_run by (metis prod.collapse)
  have "mt_fail_ops (rs_transcript (snd (snd ?d))) = {}" by code_simp
  from completion_finds_the_text [OF quiet_ok demo_state_wf run rtranclp.rtrancl_refl this] show ?thesis
    by (auto simp: demo_step_def)
qed


end
