(* ===== verification/Tool_Pipeline.thy ===== *)
theory Tool_Pipeline imports Model_Facts begin

text \<open>
  \<^verbatim>\<open>pipelines/tools.py\<close>: a batch of tool calls is validated as a whole, recorded, invoked call by call,
  its results are recorded, and the result policy decides how the run goes on.  The invoker of the host
  is the parameter \<open>invoker\<close>: a call (numbered by the clock) reports external work and progress, and ends with
  an outcome or an exception.
\<close>

section \<open>Validation\<close>

fun validate_calls :: "json_validator \<Rightarrow> capability_snapshot \<Rightarrow> binding_registry \<Rightarrow> tool_call list \<Rightarrow> exn + unit" where
  "validate_calls jv caps registry [] = Inr ()"
| "validate_calls jv caps registry (call # calls) =
     (case capability_tool caps (tc_name call) of
        None \<Rightarrow> Inl (raised CapabilityError (''call '' @ tc_name call @ '' is not in this step'' @ [CHR 0x27] @ ''s capability snapshot''))
      | Some spec \<Rightarrow>
          (case validate_tool_call jv spec call None of
             Inl e \<Rightarrow> Inl e
           | Inr _ \<Rightarrow>
               (case resolve_binding (cs_binding_ref caps) (tc_name call) registry of
                  Inl e \<Rightarrow> Inl e | Inr _ \<Rightarrow> validate_calls jv caps registry calls)))"

definition validate_batch :: "json_validator \<Rightarrow> tool_batch_command \<Rightarrow> binding_registry \<Rightarrow> exn + unit" where
  "validate_batch jv command registry =
     (if tb_calls command = [] then Inl (raised SchemaValidationError ''tool batch contains no calls'')
      else validate_calls jv (tb_capabilities command) registry (tb_calls command))"

section \<open>The default result policy\<close>

definition activate_in :: "json_validator \<Rightarrow> tool_spec list \<Rightarrow> run_state \<Rightarrow> (exn, capability_snapshot, run_state) outcome" where
  "activate_in jv tools s =
     (case activate jv tools (rs_caps s, rs_registry s) of
        (r, caps, registry) \<Rightarrow> (r, s\<lparr>rs_caps := caps, rs_registry := registry\<rparr>))"

text \<open>The payload is frozen already; \<^verbatim>\<open>commit\<close> freezes what the outcome holds.\<close>

definition held_payload :: "jobj \<Rightarrow> (mkey \<times> pyobj) list" where
  "held_payload payload = map (\<lambda>kv. (MkStr (fst kv), held_json (snd kv))) payload"

definition commit_in :: "jobj \<Rightarrow> run_state \<Rightarrow> (exn, application_snapshot, run_state) outcome" where
  "commit_in payload s =
     (case app_commit (rs_target s) (held_payload payload) (rs_app s) of (r, app) \<Rightarrow> (r, s\<lparr>rs_app := app\<rparr>))"

definition apply_outcome :: "environment \<Rightarrow> json_validator \<Rightarrow> invocation_outcome \<Rightarrow> unit gen" where
  "apply_outcome env jv x =
     gbind (effect (\<lambda>s. s\<lparr>rs_policy_calls := rs_policy_calls s + 1\<rparr>)) (\<lambda>_.
     gbind (case io_next_record_target x of None \<Rightarrow> Ret () | Some target \<Rightarrow> effect (\<lambda>s. s\<lparr>rs_target := target\<rparr>)) (\<lambda>_.
     gbind (if io_activate_tools x = [] then Ret ()
            else gbind (act (activate_in jv (io_activate_tools x))) (\<lambda>_. Ret ())) (\<lambda>_.
     gbind (effect (\<lambda>s. s\<lparr>rs_extra := rs_extra s @ io_contributions x\<rparr>)) (\<lambda>_.
     (case io_state_payload x of
        None \<Rightarrow> Ret ()
      | Some payload \<Rightarrow>
          gbind (effect (pause env)) (\<lambda>_. gbind (act (commit_in payload)) (\<lambda>_. Ret ())))))))"

fun apply_outcomes :: "environment \<Rightarrow> json_validator \<Rightarrow> invocation_outcome list \<Rightarrow> flow_decision list gen" where
  "apply_outcomes env jv [] = Ret []"
| "apply_outcomes env jv (x # xs) =
     gbind (apply_outcome env jv x) (\<lambda>_.
     gbind (apply_outcomes env jv xs) (\<lambda>decisions.
       Ret (case io_flow_hint x of None \<Rightarrow> decisions | Some d \<Rightarrow> d # decisions)))"

type_synonym result_policy = "invocation_outcome list \<Rightarrow> tool_batch_command \<Rightarrow> flow_decision gen"

definition default_result_policy :: "environment \<Rightarrow> json_validator \<Rightarrow> result_policy" where
  "default_result_policy env jv outcomes command =
     gbind (apply_outcomes env jv outcomes) (\<lambda>decisions.
       Ret (if decisions = [] then flow_decision CONTINUE ''default'' else aggregate_flow_decisions decisions))"

section \<open>Invocation\<close>

datatype report = Declare external_work_ref | Progress jobj

text \<open>\<^verbatim>\<open>ToolInvocation\<close>: its two callbacks are the reports, its control the one of the run.\<close>

record tool_invocation =
  inv_call :: tool_call
  inv_binding :: binding_set_ref

type_synonym tool_invoker = "nat \<Rightarrow> tool_invocation \<Rightarrow> report list \<times> (exn + invocation_outcome)"

definition declare_work :: "external_work_ref \<Rightarrow> run_state \<Rightarrow> run_state" where
  "declare_work w s = s\<lparr>rs_external_work := rs_external_work s @ [w]\<rparr>"

definition forward :: "step_identity \<Rightarrow> tool_call \<Rightarrow> report \<Rightarrow> unit gen" where
  "forward i call report =
     (case report of
        Declare w \<Rightarrow> gbind (effect (declare_work w)) (\<lambda>_. yield (ExternalWorkDeclared i w))
      | Progress payload \<Rightarrow> yield (ToolProgressEvent i (tc_call_id call) payload))"

text \<open>The loop of \<^verbatim>\<open>_invoke\<close>: each wait is for a report, the result of the call, or a stop.\<close>

fun forward_all :: "environment \<Rightarrow> step_identity \<Rightarrow> tool_call \<Rightarrow> report list \<Rightarrow> unit gen" where
  "forward_all env i call [] = act (wait_for env False)"
| "forward_all env i call (report # reports) =
     gbind (act (wait_for env False)) (\<lambda>_. gbind (forward i call report) (\<lambda>_. forward_all env i call reports))"

definition invoke :: "environment \<Rightarrow> tool_invoker \<Rightarrow> tool_batch_command \<Rightarrow> tool_call \<Rightarrow> invocation_outcome gen" where
  "invoke env invoker command call =
     gbind (reading (\<lambda>s. invoker (rs_clock s) \<lparr>inv_call = call, inv_binding = cs_binding_ref (tb_capabilities command)\<rparr>)) (\<lambda>(reports, result).
     gbind (forward_all env (tb_identity command) call reports) (\<lambda>_. lift_sum result))"

definition visible_outcome :: "invocation_outcome \<Rightarrow> invocation_outcome" where
  "visible_outcome x =
     (if tr_is_error (io_result x) then x\<lparr>io_result := model_visible_tool_error (io_result x)\<rparr> else x)"

definition observe_since :: "string \<Rightarrow> step_identity \<Rightarrow> string option \<Rightarrow> rat \<Rightarrow> unit gen" where
  "observe_since name i call_id started =
     effect (\<lambda>s. observe (Timing (timed name (si_run_id i) (Some (si_step_no i)) call_id None started (rs_now s))) s)"

fun call_loop :: "environment \<Rightarrow> tool_invoker \<Rightarrow> tool_batch_command \<Rightarrow> tool_call list \<Rightarrow> invocation_outcome list \<Rightarrow>
    invocation_outcome list gen" where
  "call_loop env invoker command [] outcomes = Ret outcomes"
| "call_loop env invoker command (call # calls) outcomes =
     gbind (act raise_if_stopped) (\<lambda>_.
     gbind (reading rs_now) (\<lambda>started.
     gbind (invoke env invoker command call) (\<lambda>outcome.
     gbind (observe_since ''tool_call'' (tb_identity command) (Some (tc_call_id call)) started) (\<lambda>_.
     gbind (yield (ToolResultEvent (tb_identity command) (io_result (visible_outcome outcome)) None)) (\<lambda>_.
       call_loop env invoker command calls (outcomes @ [visible_outcome outcome]))))))"

section \<open>The pipeline\<close>

definition record_batch :: "tool_batch_command \<Rightarrow> transcript \<Rightarrow> (exn, batch_receipt, transcript) outcome" where
  "record_batch command =
     record_tool_calls (si_run_id (tb_identity command)) (si_step_no (tb_identity command)) (tb_record_target command)
       (tb_calls command) (tb_assistant_text command) (tb_reasoning command)
       (calls_op (tb_identity command) (tb_record_target command)) (tb_previous_receipt command) (tb_attempt command)"

definition record_outcomes :: "tool_batch_command \<Rightarrow> batch_receipt \<Rightarrow> invocation_outcome list \<Rightarrow> transcript \<Rightarrow>
    (exn, message_receipt list, transcript) outcome" where
  "record_outcomes command receipt outcomes =
     record_tool_results (si_run_id (tb_identity command)) (si_step_no (tb_identity command)) (tb_record_target command)
       (map io_result outcomes) (results_op (tb_identity command) (tb_record_target command)) receipt"

definition execute :: "environment \<Rightarrow> json_validator \<Rightarrow> tool_invoker \<Rightarrow> result_policy \<Rightarrow> tool_batch_command \<Rightarrow> unit gen" where
  "execute env jv invoker policy command =
     gbind (act raise_if_stopped) (\<lambda>_.
     gbind (act (\<lambda>s. (validate_batch jv command (rs_registry s), s))) (\<lambda>_.
     gbind (reading rs_now) (\<lambda>started.
     gbind (recording env (record_batch command)) (\<lambda>receipt.
     gbind (observe_since ''record_tool_calls'' (tb_identity command) None started) (\<lambda>_.
     gbind (yield (ToolCallRecordedEvent (tb_identity command) receipt)) (\<lambda>_.
     gbind (call_loop env invoker command (tb_calls command) []) (\<lambda>outcomes.
     gbind (reading rs_now) (\<lambda>started.
     gbind (if br_recording_required receipt then recording env (record_outcomes command receipt outcomes) else Ret []) (\<lambda>_.
     gbind (observe_since ''record_tool_results'' (tb_identity command) None started) (\<lambda>_.
     gbind (gcatch (policy outcomes command)
         (\<lambda>e. Raise (wrap_error ''required tool result state commit failed'' e))) (\<lambda>decision.
       yield (ToolBatchCompleted (tb_identity command) decision (map io_result outcomes) (Some receipt)))))))))))))"

section \<open>What a batch guarantees\<close>

text \<open>A call that may run: in the snapshot, valid for its schema, and bound.\<close>

definition executable :: "json_validator \<Rightarrow> capability_snapshot \<Rightarrow> binding_registry \<Rightarrow> tool_call \<Rightarrow> bool" where
  "executable jv caps registry call \<longleftrightarrow>
     (\<exists>spec key. capability_tool caps (tc_name call) = Some spec \<and> validate_tool_call jv spec call None = Inr () \<and>
        resolve_binding (cs_binding_ref caps) (tc_name call) registry = Inr key)"

lemma validate_calls_iff: "validate_calls jv caps registry calls = Inr () \<longleftrightarrow> list_all (executable jv caps registry) calls"
  by (induction calls) (auto simp: executable_def split: option.split sum.split)

fun is_report :: "runtime_event \<Rightarrow> bool" where
  "is_report (ToolProgressEvent _ _ _) = True"
| "is_report (ExternalWorkDeclared _ _) = True"
| "is_report _ = False"

definition unreported :: "runtime_event list \<Rightarrow> runtime_event list" where
  "unreported es = filter (\<lambda>ev. \<not> is_report ev) es"

lemma unreported_simps [simp]:
  "unreported [] = []" "unreported (xs @ ys) = unreported xs @ unreported ys"
  "unreported (ev # es) = (if is_report ev then unreported es else ev # unreported es)"
  by (simp_all add: unreported_def)

lemma unreported_Nil: "list_all is_report es \<Longrightarrow> unreported es = []"
  by (induction es) auto

lemma forward_all_reports: "all_events is_report (forward_all env i call reports)"
  by (induction reports) (auto simp: forward_def split: report.split intro!: all_events_gbind)

lemma invoke_reports: "all_events is_report (invoke env invoker command call)"
  by (auto simp: invoke_def intro!: all_events_gbind forward_all_reports)

text \<open>The results that a batch yields, in the order of its calls; a failing batch stops in between.\<close>

lemma call_loop_trace:
  "drain (call_loop env invoker command calls outcomes) s = (es, r, s') \<Longrightarrow>
   \<exists>more. unreported es = map (\<lambda>x. ToolResultEvent (tb_identity command) (io_result x) None) more \<and>
     (case r of Inl _ \<Rightarrow> length more \<le> length calls | Inr xs \<Rightarrow> xs = outcomes @ more \<and> length more = length calls)"
proof (induction calls arbitrary: outcomes s es)
  case (Cons call calls)
  obtain x where go: "raise_if_stopped s = (x, s)" using raise_if_stopped_state [of s] by (metis prod.collapse)
  obtain es1 r1 s1 where i: "drain (invoke env invoker command call) s = (es1, r1, s1)"
    by (cases "drain (invoke env invoker command call) s")
  have quiet: "unreported es1 = []" using all_events_drain [OF invoke_reports i] by (rule unreported_Nil)
  show ?case
  proof (cases x)
    case (Inl e)
    then show ?thesis using Cons.prems go by (auto simp: drain_simps)
  next
    case (Inr u)
    show ?thesis
    proof (cases r1)
      case (Inl e)
      then show ?thesis using Cons.prems go i quiet \<open>x = Inr u\<close> by (auto simp: drain_simps)
    next
      case (Inr outcome)
      let ?ob = "\<lambda>s1. observe (Timing (timed ''tool_call'' (si_run_id (tb_identity command))
          (Some (si_step_no (tb_identity command))) (Some (tc_call_id call)) None (rs_now s) (rs_now s1))) s1"
      obtain es2 r2 where rest: "drain (call_loop env invoker command calls (outcomes @ [visible_outcome outcome])) (?ob s1) = (es2, r2)"
        by (cases "drain (call_loop env invoker command calls (outcomes @ [visible_outcome outcome])) (?ob s1)")
      have es: "es = es1 @ ToolResultEvent (tb_identity command) (io_result (visible_outcome outcome)) None # es2" and r2: "r2 = (r, s')"
        using Cons.prems go i Inr \<open>x = Inr u\<close> rest by (auto simp: drain_simps observe_since_def)
      from Cons.IH [OF rest [unfolded r2]] obtain more where
        "unreported es2 = map (\<lambda>x. ToolResultEvent (tb_identity command) (io_result x) None) more"
        "case r of Inl _ \<Rightarrow> length more \<le> length calls
         | Inr xs \<Rightarrow> xs = (outcomes @ [visible_outcome outcome]) @ more \<and> length more = length calls" by blast
      then show ?thesis using es quiet
        by (intro exI [of _ "visible_outcome outcome # more"]) (auto split: sum.splits)
    qed
  qed
qed auto

end
