(* ===== verification/Runner.thy ===== *)
theory Runner imports Agent_Loop Manager Model_Pipeline Tool_Pipeline begin

text \<open>
  \<^verbatim>\<open>runner.py\<close>: the assembly of a run from a host's parts, and the generator \<^verbatim>\<open>_run\<close> around the agent
  loop: input recording, finalization, observation, errors and clean-up.  The stores that the host's
  factories return are the ones of the state the run starts in.  What \<open>agent_run\<close> says with \<open>False\<close>,
  that its fuel ran out, \<open>run_stream\<close> says as well.
\<close>

section \<open>Assembly\<close>

text \<open>\<^verbatim>\<open>PortOverrides\<close>: a factory sees the session and may raise; a step provider may offer invalidation.\<close>

type_synonym 'p factory = "run_state \<Rightarrow> exn + 'p"

record port_overrides =
  po_steps :: "((step_identity \<Rightarrow> run_state \<Rightarrow> (exn, prepared_step, run_state) outcome) \<times>
      (record_target \<Rightarrow> run_state \<Rightarrow> (exn, unit, run_state) outcome) option) factory option"
  po_model :: "(prepared_step \<Rightarrow> unit gen) factory option"
  po_tools :: "(tool_batch_command \<Rightarrow> unit gen) factory option"
  po_completion :: "(completion_command \<Rightarrow> unit gen) factory option"

definition no_overrides :: port_overrides where
  "no_overrides = \<lparr>po_steps = None, po_model = None, po_tools = None, po_completion = None\<rparr>"

text \<open>
  \<^verbatim>\<open>DefaultRuntime\<close>: the vendor model, the invoker, the capability provider and the policies of the host.
  \<open>rh_idle\<close> and \<open>rh_phase_idle\<close> say whether the idle timeouts are set, \<open>rh_observer\<close> is what the host's
  observer raises, \<open>rh_close_items\<close> how far its pump gets before the close times out; \<open>rh_sha\<close>,
  \<open>rh_float\<close> and \<open>rh_validator\<close> are the hash, the rendering of floats and the schema validator.
\<close>

record runtime_host =
  rh_model :: low_level_model
  rh_invoker :: tool_invoker
  rh_resolve :: "run_request \<Rightarrow> application_snapshot \<Rightarrow> run_state \<Rightarrow> (exn, resolution, run_state) outcome"
  rh_idle :: bool
  rh_phase_idle :: bool
  rh_completion_policy :: "completion_policy option"
  rh_result_policy :: "(invocation_outcome list \<Rightarrow> tool_batch_command \<Rightarrow> run_state \<Rightarrow>
      (exn, flow_decision, run_state) outcome) option"
  rh_contributors :: "contributor list"
  rh_compress :: "(message list \<Rightarrow> int \<Rightarrow> estimator \<Rightarrow> int \<Rightarrow> compression) option"
  rh_budget :: "token_budget_policy option"
  rh_observer :: "observed \<Rightarrow> exn option"
  rh_close_items :: nat
  rh_ports :: port_overrides
  rh_sha :: "string \<Rightarrow> string"
  rh_float :: "rat \<Rightarrow> string"
  rh_validator :: json_validator

text \<open>\<^verbatim>\<open>_binding_registry\<close>, on the numbers of the registries; \<open>fresh\<close> is the one a new registry gets.\<close>

definition runtime_registry :: "nat option \<Rightarrow> provider \<Rightarrow> nat \<Rightarrow> nat" where
  "runtime_registry explicit p fresh =
     (case explicit of Some r \<Rightarrow> r | None \<Rightarrow> (case pv_registry p of Some r \<Rightarrow> r | None \<Rightarrow> fresh))"

text \<open>The arguments and defaults of \<^verbatim>\<open>DefaultStepProvider\<close>; the deadline is the one of the control.\<close>

definition default_provider :: "runtime_host \<Rightarrow> run_request \<Rightarrow> run_state \<Rightarrow> step_provider" where
  "default_provider host request s =
     \<lparr>dp_request = request, dp_contributors = rh_contributors host,
      dp_budget = (case rh_budget host of
          Some b \<Rightarrow> b
        | None \<Rightarrow> \<lparr>tbp_max_prompt_tokens = 8000, tbp_reserved_output_tokens = 256,
                   tbp_estimator = char_quarter (rh_float host)\<rparr>),
      dp_compress = (case rh_compress host of Some c \<Rightarrow> c | None \<Rightarrow> tool_group_compress (rh_float host)),
      dp_deadline = deadline_monotonic (rs_control s), dp_sha = rh_sha host, dp_float = rh_float host\<rparr>"

definition default_ports :: "runtime_host \<Rightarrow> environment \<Rightarrow> run_request \<Rightarrow> execution_ports" where
  "default_ports host env request =
     \<lparr>ep_prepare = (\<lambda>i s. prepare (default_provider host request s) env i s),
      ep_model = model_stream env (rh_idle host) (rh_model host),
      ep_tools = execute env (rh_validator host) (rh_invoker host)
        (case rh_result_policy host of Some p \<Rightarrow> (\<lambda>outcomes command. act (p outcomes command)) | None \<Rightarrow> default_result_policy env (rh_validator host)),
      ep_complete = complete env (case rh_completion_policy host of Some p \<Rightarrow> p | None \<Rightarrow> finish_policy),
      ep_invalidate = Some (\<lambda>target s. (Inr (), invalidate_summary target s))\<rparr>"

definition from_factory :: "'p factory option \<Rightarrow> 'p \<Rightarrow> run_state \<Rightarrow> exn + 'p" where
  "from_factory override port s = (case override of None \<Rightarrow> Inr port | Some f \<Rightarrow> f s)"

text \<open>\<^verbatim>\<open>_assemble\<close>.\<close>

definition assemble :: "runtime_host \<Rightarrow> environment \<Rightarrow> run_request \<Rightarrow> run_state \<Rightarrow> exn + execution_ports" where
  "assemble host env request s =
     (let d = default_ports host env request; over = rh_ports host in
      case from_factory (po_steps over) (ep_prepare d, ep_invalidate d) s of
        Inl e \<Rightarrow> Inl e
      | Inr (steps, invalidate) \<Rightarrow>
          (case from_factory (po_model over) (ep_model d) s of
             Inl e \<Rightarrow> Inl e
           | Inr model \<Rightarrow>
               (case from_factory (po_tools over) (ep_tools d) s of
                  Inl e \<Rightarrow> Inl e
                | Inr tools \<Rightarrow>
                    (case from_factory (po_completion over) (ep_complete d) s of
                       Inl e \<Rightarrow> Inl e
                     | Inr completion \<Rightarrow>
                         Inr \<lparr>ep_prepare = steps, ep_model = model, ep_tools = tools, ep_complete = completion,
                              ep_invalidate = invalidate\<rparr>))))"

section \<open>Parts of a run\<close>

text \<open>An \<^verbatim>\<open>await\<close> of the runner itself, which no stop interrupts, and an event given to the consumer, whose
own time passes before it asks for the next one.\<close>

definition awaiting :: "environment \<Rightarrow> (run_state \<Rightarrow> (exn, 'a, run_state) outcome) \<Rightarrow> 'a gen" where
  "awaiting env f = gbind (effect (pause env)) (\<lambda>_. act f)"

definition emit :: "environment \<Rightarrow> runtime_event \<Rightarrow> unit gen" where
  "emit env ev = gbind (yield ev) (\<lambda>_. effect (pause env))"

definition consumer_closed :: "run_state \<Rightarrow> bool" where
  "consumer_closed s = reason_set (rs_now s) CONSUMER_CLOSED (rs_control s)"

text \<open>\<^verbatim>\<open>_commit_terminal\<close>; its event is already built when it is called.\<close>

definition commit_terminal :: "environment \<Rightarrow> string \<Rightarrow> run_status \<Rightarrow> runtime_event \<Rightarrow> unit gen" where
  "commit_terminal env run_id status ev =
     gbind (awaiting env (on_transcript (finalize_run run_id status))) (\<lambda>_. effect (observe (Runtime ev)))"

definition mark_terminal :: "unit gen" where
  "mark_terminal = effect (\<lambda>s. s\<lparr>rs_yielded_terminal := True\<rparr>)"

text \<open>The terminal event reaches a consumer that is still there; the handlers also ask that none went before.\<close>

definition hand_over :: "environment \<Rightarrow> bool \<Rightarrow> runtime_event \<Rightarrow> unit gen" where
  "hand_over env once ev =
     gbind (reading (\<lambda>s. consumer_closed s \<or> once \<and> rs_yielded_terminal s)) (\<lambda>skip.
       if skip then Ret () else gbind mark_terminal (\<lambda>_. emit env ev))"

fun record_inputs :: "environment \<Rightarrow> run_request \<Rightarrow> nat \<Rightarrow> message list \<Rightarrow> unit gen" where
  "record_inputs env request index [] = Ret ()"
| "record_inputs env request index (m # ms) =
     gbind (awaiting env (on_transcript (record_input (rq_run_id request) (rq_record_target request) m
         (rq_run_id request @ '':input:'' @ int_str (int index))))) (\<lambda>_.
       record_inputs env request (index + 1) ms)"

definition succeed :: "environment \<Rightarrow> run_request \<Rightarrow> unit gen" where
  "succeed env request =
     gbind (commit_terminal env (rq_run_id request) SUCCEEDED (RunSucceeded (rq_run_id request))) (\<lambda>_.
       hand_over env False (RunSucceeded (rq_run_id request)))"

text \<open>\<^verbatim>\<open>StopReason(exc.reason)\<close>, and the message of its \<^verbatim>\<open>ValueError\<close>.\<close>

definition stop_reason_named :: "string \<Rightarrow> exn + stop_reason" where
  "stop_reason_named v =
     (case find (\<lambda>r. stop_reason_value r = v) [USER_STOP, HOST_CANCEL, CONSUMER_CLOSED, DEADLINE, IDLE_TIMEOUT] of
        Some r \<Rightarrow> Inr r
      | None \<Rightarrow> Inl (raised ValueError (repr_str v @ '' is not a valid StopReason'')))"

definition cancelled_event :: "run_request \<Rightarrow> exn \<Rightarrow> run_state \<Rightarrow> exn + runtime_event" where
  "cancelled_event request e s =
     (case (case stop_reason_now s of Some reason \<Rightarrow> Inr reason | None \<Rightarrow> stop_reason_named (exn_message e)) of
        Inl e' \<Rightarrow> Inl e'
      | Inr reason \<Rightarrow> Inr (RunCancelled (rq_run_id request) reason (rs_external_work s)))"

definition cancel_run :: "environment \<Rightarrow> run_request \<Rightarrow> exn \<Rightarrow> unit gen" where
  "cancel_run env request e =
     gbind (act (\<lambda>s. (cancelled_event request e s, s))) (\<lambda>ev.
     gbind (commit_terminal env (rq_run_id request) CANCELLED ev) (\<lambda>_. hand_over env True ev))"

definition fail_run :: "environment \<Rightarrow> run_request \<Rightarrow> exn \<Rightarrow> unit gen" where
  "fail_run env request e =
     (let ev = RunFailed (rq_run_id request) (class_name (exn_kind e)) (exn_message e) in
      gbind (commit_terminal env (rq_run_id request) FAILED ev) (\<lambda>_. hand_over env True ev))"

text \<open>\<^verbatim>\<open>_invalidate_projection\<close>.\<close>

definition invalidate_projection :: "environment \<Rightarrow> execution_ports \<Rightarrow> unit gen" where
  "invalidate_projection env P =
     (case ep_invalidate P of
        None \<Rightarrow> Ret ()
      | Some f \<Rightarrow> gcatch (awaiting env (\<lambda>s. f (rs_target s) s))
                    (\<lambda>e. if isinstance_exn e Exception then Ret () else Raise e))"

section \<open>The loop over the agent's events\<close>

text \<open>\<^verbatim>\<open>async for event in loop.run(request)\<close>: the body may leave the loop with a value.\<close>

primrec each_to :: "'a gen \<Rightarrow> (runtime_event \<Rightarrow> 'r option gen) \<Rightarrow> ('a \<Rightarrow> 'r) \<Rightarrow> 'r gen" where
  "each_to (Ret a) b fin = Ret (fin a)"
| "each_to (Raise e) b fin = Raise e"
| "each_to (Yield ev g c) b fin =
     gbind (b ev) (\<lambda>t. case t of None \<Rightarrow> each_to g b fin | Some r \<Rightarrow> Ret r)"
| "each_to (Step u n) b fin = Step u (\<lambda>s. each_to (n s) b fin)"

datatype loop_exit = Broken | Returned | Ended bool

fun is_waiting :: "runtime_event \<Rightarrow> bool" where
  "is_waiting (RunWaiting _ _ _) = True"
| "is_waiting _ = False"

definition loop_body :: "environment \<Rightarrow> run_request \<Rightarrow> runtime_event \<Rightarrow> loop_exit option gen" where
  "loop_body env request ev =
     gbind (reading consumer_closed) (\<lambda>closed.
       if closed then Ret (Some Broken)
       else if is_waiting ev
       then
         gbind (commit_terminal env (rq_run_id request) WAITING ev) (\<lambda>_.
         gbind mark_terminal (\<lambda>_.
         gbind (reading consumer_closed) (\<lambda>closed.
         gbind (if closed then Ret () else emit env ev) (\<lambda>_. Ret (Some Returned)))))
       else gbind (effect (observe (Runtime ev))) (\<lambda>_. gbind (emit env ev) (\<lambda>_. Ret None)))"

definition run_loop :: "runtime_host \<Rightarrow> environment \<Rightarrow> run_request \<Rightarrow> nat \<Rightarrow> execution_ports \<Rightarrow> bool gen" where
  "run_loop host env request fuel P =
     gbind (each_to (agent_run env (rh_phase_idle host) P (rq_limits request) (rq_consumed request) request fuel)
         (loop_body env request) Ended) (\<lambda>exit.
       case exit of
         Returned \<Rightarrow> Ret True
       | Ended False \<Rightarrow> Ret False
       | _ \<Rightarrow> gbind (succeed env request) (\<lambda>_. Ret True))"

section \<open>The run\<close>

text \<open>The body of the inner \<^verbatim>\<open>try\<close>.\<close>

definition run_body :: "runtime_host \<Rightarrow> environment \<Rightarrow> run_request \<Rightarrow> nat \<Rightarrow> execution_ports \<Rightarrow> bool gen" where
  "run_body host env request fuel P =
     (let started = RunStarted (rq_run_id request) (rq_record_target request) in
      gbind (effect (observe (Runtime started))) (\<lambda>_.
      gbind (emit env started) (\<lambda>_.
      gbind (record_inputs env request 0 (rq_input_items request)) (\<lambda>_.
        if rq_entry request = CompletedEntry then gbind (succeed env request) (\<lambda>_. Ret True)
        else run_loop host env request fuel P))))"

text \<open>The \<^verbatim>\<open>except\<close> clauses of the inner and of the outer \<^verbatim>\<open>try\<close>.\<close>

definition inner_handler :: "environment \<Rightarrow> run_request \<Rightarrow> execution_ports \<Rightarrow> exn \<Rightarrow> bool gen" where
  "inner_handler env request P e =
     (if isinstance_exn e AsyncioCancelledError
      then gbind (awaiting env (on_transcript (finalize_run (rq_run_id request) CANCELLED))) (\<lambda>_. Raise e)
      else if isinstance_exn e CancelledRunError then gbind (cancel_run env request e) (\<lambda>_. Ret True)
      else if isinstance_exn e RecordingError
      then gbind (invalidate_projection env P) (\<lambda>_. gbind (fail_run env request e) (\<lambda>_. Ret True))
      else if isinstance_exn e Exception then gbind (fail_run env request e) (\<lambda>_. Ret True)
      else Raise e)"

definition outer_handler :: "environment \<Rightarrow> run_request \<Rightarrow> exn \<Rightarrow> bool gen" where
  "outer_handler env request e =
     (if isinstance_exn e CancelledRunError then gbind (cancel_run env request e) (\<lambda>_. Ret True)
      else if isinstance_exn e Exception then gbind (fail_run env request e) (\<lambda>_. Ret True)
      else Raise e)"

definition open_session :: "run_request \<Rightarrow> capability_snapshot \<Rightarrow> run_state \<Rightarrow> run_state" where
  "open_session request initial s =
     new_run_state request (rs_transcript s) initial (rs_registry s) (rs_app s) (rs_summaries s) (rs_control s)
       (rs_now s) (rs_observer s) (rs_clock s)"

text \<open>The outer \<^verbatim>\<open>try\<close>: the capabilities are resolved, the session is opened and the ports are assembled.\<close>

definition run_try :: "runtime_host \<Rightarrow> environment \<Rightarrow> run_request \<Rightarrow> nat \<Rightarrow> bool gen" where
  "run_try host env request fuel =
     gbind (effect (\<lambda>s. s\<lparr>rs_observer := observer_start (rs_observer s)\<rparr>)) (\<lambda>_.
     gbind (wait_cancellable env (act (\<lambda>s. case app_current (rq_record_target request) (rs_app s) of
         (current, app) \<Rightarrow> (Inr current, s\<lparr>rs_app := app\<rparr>)))) (\<lambda>application.
     gbind (wait_cancellable env (act (rh_resolve host request application))) (\<lambda>resolution.
     gbind (lift_sum (accept_resolution resolution)) (\<lambda>initial.
     gbind (effect (open_session request initial)) (\<lambda>_.
     gbind (act (\<lambda>s. (assemble host env request s, s))) (\<lambda>P.
       gcatch (run_body host env request fuel P) (inner_handler env request P)))))))"

text \<open>The \<^verbatim>\<open>finally\<close> block.  Closing the scope swallows its errors; the tasks and streams it closes act as
other tasks do.\<close>

definition clean_up :: "runtime_host \<Rightarrow> environment \<Rightarrow> run_request \<Rightarrow> rat \<Rightarrow> unit gen" where
  "clean_up host env request started =
     gbind (effect (\<lambda>s. observe (Timing (timed ''run'' (rq_run_id request) None None None started (rs_now s))) s)) (\<lambda>_.
     gbind (effect (\<lambda>s. s\<lparr>rs_observer := observer_aclose (rh_observer host) (rh_close_items host) (rs_observer s)\<rparr>)) (\<lambda>_.
     gbind (act (\<lambda>s.
        if \<not> rs_yielded_terminal s \<and> \<not> consumer_closed s
        then (case notify_consumer_closed (rs_control s) of (r, c) \<Rightarrow> (r, s\<lparr>rs_control := c\<rparr>))
        else (Inr (), s))) (\<lambda>_.
       effect (pause env))))"

definition arm_run :: "run_request \<Rightarrow> run_state \<Rightarrow> run_state" where
  "arm_run request s =
     (case el_deadline_seconds (rq_limits request) of
        None \<Rightarrow> s
      | Some seconds \<Rightarrow> s\<lparr>rs_control := snd (arm_deadline (rs_now s) seconds (rs_control s))\<rparr>)"

text \<open>The variables of the generator before the \<^verbatim>\<open>try\<close>: no session yet, hence no external work.\<close>

definition begin_run :: "run_state \<Rightarrow> run_state" where
  "begin_run s = s\<lparr>rs_observer := new_observer 256, rs_yielded_terminal := False, rs_external_work := []\<rparr>"

definition run_stream :: "runtime_host \<Rightarrow> environment \<Rightarrow> run_request \<Rightarrow> nat \<Rightarrow> bool gen" where
  "run_stream host env request fuel =
     gbind (effect (\<lambda>s. begin_run (arm_run request s))) (\<lambda>_.
     gbind (reading rs_now) (\<lambda>started.
       gfinally (gcatch (run_try host env request fuel) (outer_handler env request))
         (clean_up host env request started)))"

end
