(* ===== verification/Loop_Protocol.thy ===== *)
theory Loop_Protocol imports Agent_Loop Trace_Logic Model_Pipeline Tool_Pipeline begin

text \<open>
  What the agent loop promises to its consumer: an abstract machine that knows the phase, the step and
  the model round, and reads the events.  The contract of a port is a locale, the loop is verified
  against it once, and the default pipelines are instances.
\<close>

section \<open>The protocol\<close>

datatype loop_phase =
    Entering
  | Ready
  | InModel
  | Answered bool
  | InTools
  | InCompletion
  | Decided flow_decision
  | Waiting

record loop_protocol =
  lp_phase :: loop_phase
  lp_step :: int
  lp_round :: int

definition belongs :: "step_identity \<Rightarrow> runtime_event \<Rightarrow> bool" where
  "belongs i ev \<longleftrightarrow> event_identity (Runtime ev) = Some i"

fun is_model_event :: "runtime_event \<Rightarrow> bool" where
  "is_model_event (TextDeltaEvent _ _ _ _) = True"
| "is_model_event (ReasoningDeltaEvent _ _ _) = True"
| "is_model_event (ModelCompleted _ _ _) = True"
| "is_model_event _ = False"

fun is_batch_event :: "runtime_event \<Rightarrow> bool" where
  "is_batch_event (ToolCallRecordedEvent _ _) = True"
| "is_batch_event (ToolProgressEvent _ _ _) = True"
| "is_batch_event (ExternalWorkDeclared _ _) = True"
| "is_batch_event (ToolResultEvent _ _ _) = True"
| "is_batch_event (ToolBatchCompleted _ _ _ _) = True"
| "is_batch_event _ = False"

definition current_step :: "string \<Rightarrow> loop_protocol \<Rightarrow> step_identity" where
  "current_step run_id q = \<lparr>si_run_id = run_id, si_step_no = lp_step q, si_model_round = lp_round q\<rparr>"

text \<open>A new step: its number is the next one and within the limits, and so is its model round if it has one.\<close>

definition new_step :: "execution_limits \<Rightarrow> string \<Rightarrow> string \<Rightarrow> bool \<Rightarrow> loop_phase \<Rightarrow> loop_protocol \<Rightarrow> runtime_event \<Rightarrow>
    loop_protocol option" where
  "new_step limits run_id name consume phase q ev =
     (let q' = \<lparr>lp_phase = phase, lp_step = lp_step q + 1, lp_round = lp_round q + (if consume then 1 else 0)\<rparr> in
      if ev = StepStarted (current_step run_id q') name \<and> \<not> beyond (el_max_steps limits) (lp_step q') \<and>
         (consume \<longrightarrow> \<not> beyond (el_max_model_rounds limits) (lp_round q'))
      then Some q' else None)"

definition model_next :: "loop_protocol \<Rightarrow> runtime_event \<Rightarrow> loop_protocol option" where
  "model_next q ev =
     (case ev of
        ModelCompleted _ result _ \<Rightarrow> Some (q\<lparr>lp_phase := Answered (mres_tool_calls result \<noteq> [])\<rparr>)
      | _ \<Rightarrow> if is_model_event ev then Some q else None)"

definition tools_next :: "loop_protocol \<Rightarrow> runtime_event \<Rightarrow> loop_protocol option" where
  "tools_next q ev =
     (case ev of
        ToolBatchCompleted _ d _ _ \<Rightarrow> Some (q\<lparr>lp_phase := Decided d\<rparr>)
      | _ \<Rightarrow> if is_batch_event ev then Some q else None)"

definition completion_next :: "loop_protocol \<Rightarrow> runtime_event \<Rightarrow> loop_protocol option" where
  "completion_next q ev = (case ev of CompletionCompleted _ d _ \<Rightarrow> Some (q\<lparr>lp_phase := Decided d\<rparr>) | _ \<Rightarrow> None)"

definition loop_next :: "execution_limits \<Rightarrow> string \<Rightarrow> loop_protocol \<Rightarrow> runtime_event \<Rightarrow> loop_protocol option" where
  "loop_next limits run_id q ev =
     (case lp_phase q of
        Entering \<Rightarrow> new_step limits run_id ''tools'' False InTools q ev
      | Ready \<Rightarrow> new_step limits run_id ''model'' True InModel q ev
      | InModel \<Rightarrow> if belongs (current_step run_id q) ev then model_next q ev else None
      | Answered calls \<Rightarrow>
          if ev = StepStarted (current_step run_id q) (if calls then ''tools'' else ''completion'')
          then Some (q\<lparr>lp_phase := if calls then InTools else InCompletion\<rparr>) else None
      | InTools \<Rightarrow> if belongs (current_step run_id q) ev then tools_next q ev else None
      | InCompletion \<Rightarrow> if belongs (current_step run_id q) ev then completion_next q ev else None
      | Decided d \<Rightarrow>
          (case fd_flow d of
             CONTINUE \<Rightarrow> new_step limits run_id ''model'' True InModel q ev
           | FINISH \<Rightarrow> None
           | WAIT \<Rightarrow>
               (case fd_pending_ref d of
                  None \<Rightarrow> None
                | Some p \<Rightarrow> if ev = RunWaiting run_id p d \<and> pr_value p \<noteq> []
                            then Some (q\<lparr>lp_phase := Waiting\<rparr>) else None))
      | Waiting \<Rightarrow> None)"

definition loop_start :: "consumed_budget \<Rightarrow> execution_entry \<Rightarrow> loop_protocol" where
  "loop_start consumed entry =
     \<lparr>lp_phase = (case entry of ToolBatchEntry _ _ _ _ _ \<Rightarrow> Entering | _ \<Rightarrow> Ready),
      lp_step = cb_steps consumed, lp_round = cb_model_rounds consumed\<rparr>"

text \<open>Where a loop may return: after a decision to finish, after it told that it waits, and for the entries
that need no model, before the first step or after the entry's batch.\<close>

definition loop_final :: "execution_entry \<Rightarrow> loop_protocol \<Rightarrow> bool" where
  "loop_final entry q \<longleftrightarrow>
     (case lp_phase q of
        Ready \<Rightarrow> entry = CompletedEntry
      | Decided d \<Rightarrow> fd_flow d = FINISH \<or> fd_flow d = CONTINUE \<and>
          (case entry of ToolBatchEntry _ _ _ _ continue_after \<Rightarrow> \<not> continue_after | _ \<Rightarrow> False)
      | Waiting \<Rightarrow> True
      | _ \<Rightarrow> False)"

section \<open>The contract of the ports\<close>

locale phase_port =
  fixes port :: "'x \<Rightarrow> unit gen" and ident :: "'x \<Rightarrow> step_identity" and kind :: "runtime_event \<Rightarrow> bool"
  assumes only_kind: "all_events (\<lambda>ev. kind ev \<and> belongs (ident x) ev) (port x)"
begin

lemma strict_kind:
  assumes "drain (iterate_strict env idle C (port x)) s = (es, r, s')"
  shows "strict_trace C es r" "list_all (\<lambda>ev. kind ev \<and> belongs (ident x) ev) es"
proof -
  show "strict_trace C es r"
    using assms strict_drain unfolding iterate_strict_def by blast
  show "list_all (\<lambda>ev. kind ev \<and> belongs (ident x) ev) es"
    using all_events_drain [OF all_events_iterate_strict [OF only_kind] assms] .
qed

lemma wp_phase:
  assumes pass: "\<And>ev. kind ev \<Longrightarrow> belongs (ident x) ev \<Longrightarrow> \<not> C ev \<Longrightarrow> \<delta> q ev = Some q \<and> (\<forall>c. keep ev c = c)"
    and final: "\<And>ev. kind ev \<Longrightarrow> belongs (ident x) ev \<Longrightarrow> C ev \<Longrightarrow>
      \<exists>a q'. \<delta> q ev = Some q' \<and> keep ev None = Some a \<and> (\<forall>s. Q (Inr a) q' s)"
    and failed: "\<And>e q s. Q (Inl e) q s"
  shows "wp \<delta> (phase_loop env idle C keep missing (port x)) q s Q"
proof -
  obtain es r s' where d: "drain (iterate_strict env idle C (port x)) s = (es, r, s')"
    by (cases "drain (iterate_strict env idle C (port x)) s")
  have trace: "strict_trace C es r \<Longrightarrow> list_all (\<lambda>ev. kind ev \<and> belongs (ident x) ev) es \<Longrightarrow>
    \<exists>q'. accepts \<delta> q es = Some q' \<and> (r = Inr () \<longrightarrow> (\<exists>a. fold keep es None = Some a \<and> (\<forall>s. Q (Inr a) q' s)))"
  proof (induction es)
    case Nil
    then show ?case by (auto split: sum.splits)
  next
    case (Cons ev es)
    show ?case
    proof (cases "C ev")
      case True
      then show ?thesis using Cons.prems final [of ev] by auto
    next
      case False
      then show ?thesis using Cons pass [of ev] by auto
    qed
  qed
  from trace [OF strict_kind [OF d]] obtain q' where
    q': "accepts \<delta> q es = Some q'" "r = Inr () \<Longrightarrow> \<exists>a. fold keep es None = Some a \<and> (\<forall>s. Q (Inr a) q' s)" by blast
  show ?thesis
  proof (cases r)
    case (Inl e)
    have "drain (phase_loop env idle C keep missing (port x)) s = (es, Inl e, s')"
      by (simp add: phase_loop_def drain_gbind drain_pass d Inl)
    then show ?thesis using q'(1) failed by (simp add: wp_drain)
  next
    case (Inr u)
    obtain a where a: "fold keep es None = Some a" "\<forall>s. Q (Inr a) q' s" using q'(2) Inr by auto
    have "drain (phase_loop env idle C keep missing (port x)) s = (es, Inr a, s')"
      by (simp add: phase_loop_def drain_gbind drain_pass d Inr a(1))
    then show ?thesis using q'(1) a(2) by (simp add: wp_drain)
  qed
qed

end

text \<open>The laws of the four ports of a loop: preparing keeps the identity of the step.\<close>

locale execution_port_laws =
  m: phase_port "ep_model P" ps_identity is_model_event +
  t: phase_port "ep_tools P" tb_identity is_batch_event +
  c: phase_port "ep_complete P" "\<lambda>command. ps_identity (cm_step command)" "\<lambda>ev. is_completion_done ev"
  for P :: execution_ports +
  assumes prepare_identity: "fst (ep_prepare P i s) = Inr step \<Longrightarrow> ps_identity step = i"

lemma loop_final_simps [simp]:
  "loop_final entry (q\<lparr>lp_phase := Waiting\<rparr>)"
  "fd_flow d = FINISH \<Longrightarrow> loop_final entry (q\<lparr>lp_phase := Decided d\<rparr>)"
  by (simp_all add: loop_final_def)

lemma wp_waiting:
  assumes "lp_phase q = Decided d" and "fd_flow d = WAIT" and "\<And>e q s. Q (Inl e) q s"
    and "\<And>s. Q (Inr True) (q\<lparr>lp_phase := Waiting\<rparr>) s"
  shows "wp (loop_next limits run_id) (wait_for_host run_id d) q s Q"
  using assms by (auto simp: wait_for_host_def wp_simps require_pending_def loop_next_def split: option.split)

context execution_port_laws
begin

lemma wp_prepare:
  assumes "\<And>e s. Q (Inl e) q s" and "\<And>step s. ps_identity step = i \<Longrightarrow> Q (Inr step) q s"
  shows "wp \<delta> (wait_cancellable env (act (ep_prepare P i))) q s Q"
  by (rule wp_wait_cancellable) (auto intro: assms dest: prepare_identity)

lemma wp_model_phase:
  assumes "lp_phase q = InModel" and "ps_identity step = current_step run_id q" and "\<And>e q s. Q (Inl e) q s"
    and "\<And>result s. Q (Inr result) (q\<lparr>lp_phase := Answered (mres_tool_calls result \<noteq> [])\<rparr>) s"
  shows "wp (loop_next limits run_id) (model_phase env P step) q s Q"
  unfolding model_phase_def
proof (rule m.wp_phase)
  fix ev assume ev: "is_model_event ev" "belongs (ps_identity step) ev"
  show "\<not> is_model_done ev \<Longrightarrow> loop_next limits run_id q ev = Some q \<and> (\<forall>c. keep_result ev c = c)"
    using ev assms(1,2) by (cases ev) (simp_all add: loop_next_def model_next_def)
  show "is_model_done ev \<Longrightarrow> \<exists>a q'. loop_next limits run_id q ev = Some q' \<and> keep_result ev None = Some a \<and> (\<forall>s. Q (Inr a) q' s)"
    using ev assms(1,2,4) by (cases ev) (auto simp: loop_next_def model_next_def)
qed (rule assms(3))

lemma wp_tools_phase:
  assumes "lp_phase q = InTools" and "tb_identity command = current_step run_id q" and "\<And>e q s. Q (Inl e) q s"
    and "\<And>d s. Q (Inr d) (q\<lparr>lp_phase := Decided d\<rparr>) s"
  shows "wp (loop_next limits run_id) (tools_phase env idle P command) q s Q"
  unfolding tools_phase_def
proof (rule t.wp_phase)
  fix ev assume ev: "is_batch_event ev" "belongs (tb_identity command) ev"
  show "\<not> is_batch_done ev \<Longrightarrow> loop_next limits run_id q ev = Some q \<and> (\<forall>c. keep_batch ev c = c)"
    using ev assms(1,2) by (cases ev) (simp_all add: loop_next_def tools_next_def)
  show "is_batch_done ev \<Longrightarrow> \<exists>a q'. loop_next limits run_id q ev = Some q' \<and> keep_batch ev None = Some a \<and> (\<forall>s. Q (Inr a) q' s)"
    using ev assms(1,2,4) by (cases ev) (auto simp: loop_next_def tools_next_def)
qed (rule assms(3))

lemma wp_completion_phase:
  assumes "lp_phase q = InCompletion" and "ps_identity (cm_step command) = current_step run_id q" and "\<And>e q s. Q (Inl e) q s"
    and "\<And>d s. Q (Inr d) (q\<lparr>lp_phase := Decided d\<rparr>) s"
  shows "wp (loop_next limits run_id) (completion_phase env idle P command) q s Q"
  unfolding completion_phase_def
proof (rule c.wp_phase)
  fix ev assume ev: "is_completion_done ev" "belongs (ps_identity (cm_step command)) ev"
  show "\<not> is_completion_done ev \<Longrightarrow> loop_next limits run_id q ev = Some q \<and> (\<forall>c. keep_completion ev c = c)"
    using ev assms(1,2) by (cases ev) (simp_all add: loop_next_def completion_next_def)
  show "is_completion_done ev \<Longrightarrow> \<exists>a q'. loop_next limits run_id q ev = Some q' \<and> keep_completion ev None = Some a \<and> (\<forall>s. Q (Inr a) q' s)"
    using ev assms(1,2,4) by (cases ev) (auto simp: loop_next_def completion_next_def)
qed (rule assms(3))

lemma wp_decide:
  assumes "lp_phase q = Answered (mres_tool_calls result \<noteq> [])" and "i = current_step run_id q"
    and "ps_identity step = i" and "\<And>e q s. Q (Inl e) q s" and "\<And>d s. Q (Inr d) (q\<lparr>lp_phase := Decided d\<rparr>) s"
  shows "wp (loop_next limits run_id) (decide_phase env idle P i step result) q s Q"
proof (cases "mres_tool_calls result = []")
  case True
  then show ?thesis
    using assms by (auto simp: decide_phase_def wp_simps loop_next_def current_step_def intro!: wp_completion_phase)
next
  case False
  then show ?thesis
    using assms by (auto simp: decide_phase_def wp_simps loop_next_def current_step_def result_command_def intro!: wp_tools_phase)
qed

text \<open>A step that \<open>allocate\<close> grants is a new step of the protocol.\<close>

lemma new_step_allocated:
  assumes "allocate limits run_id consume (lp_step q, lp_round q) s = (Inr (i, c), s')"
  shows "\<exists>q'. new_step limits run_id name consume phase q (StepStarted i name) = Some q' \<and> lp_phase q' = phase \<and>
    i = current_step run_id q' \<and> c = (lp_step q', lp_round q') \<and> s' = s"
  using allocate_Inr [OF assms] by (auto simp: new_step_def current_step_def Let_def)

lemma wp_rounds:
  assumes "lp_phase q = Ready \<or> (\<exists>d. lp_phase q = Decided d \<and> fd_flow d = CONTINUE)"
  shows "wp (loop_next limits run_id) (agent_rounds env idle P limits run_id fuel (lp_step q, lp_round q)) q s
    (\<lambda>r q s. r = Inr True \<longrightarrow> loop_final entry q)"
  using assms
proof (induction fuel arbitrary: q s)
  case (Suc fuel)
  show ?case
  proof (cases "allocate limits run_id True (lp_step q, lp_round q) s")
    case (Pair x s')
    show ?thesis
    proof (cases x)
      case (Inl e)
      then show ?thesis using Pair by (simp add: wp_simps)
    next
      case (Inr ic)
      obtain i c where ic: "ic = (i, c)" by (cases ic)
      from new_step_allocated [OF Pair [unfolded Inr ic], of "''model''" InModel] obtain q' where
        q': "new_step limits run_id ''model'' True InModel q (StepStarted i ''model'') = Some q'" "lp_phase q' = InModel"
          "i = current_step run_id q'" "c = (lp_step q', lp_round q')" by blast
      have next_step: "loop_next limits run_id q (StepStarted i ''model'') = Some q'"
        using Suc.prems q'(1) by (auto simp: loop_next_def)
      have decided: "wp (loop_next limits run_id)
          (case fd_flow d of CONTINUE \<Rightarrow> agent_rounds env idle P limits run_id fuel c
           | FINISH \<Rightarrow> Ret True | WAIT \<Rightarrow> wait_for_host run_id d) (q'\<lparr>lp_phase := Decided d\<rparr>) t
          (\<lambda>r q s. r = Inr True \<longrightarrow> loop_final entry q)" for d t
        using Suc.IH [of "q'\<lparr>lp_phase := Decided d\<rparr>" t] q'(4)
        by (cases "fd_flow d") (auto intro!: wp_waiting)
      have answered: "wp (loop_next limits run_id) (gbind (decide_phase env idle P i step result) (\<lambda>d.
            case fd_flow d of CONTINUE \<Rightarrow> agent_rounds env idle P limits run_id fuel c
            | FINISH \<Rightarrow> Ret True | WAIT \<Rightarrow> wait_for_host run_id d))
          (q'\<lparr>lp_phase := Answered (mres_tool_calls result \<noteq> [])\<rparr>) t (\<lambda>r q s. r = Inr True \<longrightarrow> loop_final entry q)"
        if "ps_identity step = i" for step result t
        unfolding wp_gbind
        by (rule wp_decide) (use that q'(3) decided in \<open>simp_all add: current_step_def\<close>)
      show ?thesis
        using Pair Inr ic next_step q'(2,3) answered
        by (auto simp: wp_gbind wp_act wp_small intro!: wp_prepare wp_model_phase [OF q'(2)])
    qed
  qed
qed simp

lemma wp_entry_batch:
  assumes "entry = ToolBatchEntry calls body reasoning receipt continue_after"
  shows "wp (loop_next limits run_id)
    (gbind (act (allocate limits run_id False (cb_steps consumed, cb_model_rounds consumed))) (\<lambda>(i, counters).
     gbind (yield (StepStarted i ''tools'')) (\<lambda>_.
     gbind (wait_cancellable env (act (ep_prepare P i))) (\<lambda>prepared.
     gbind (tools_phase env idle P (entry_command i prepared entry)) (\<lambda>d.
       case fd_flow d of
         FINISH \<Rightarrow> Ret True
       | WAIT \<Rightarrow> wait_for_host run_id d
       | CONTINUE \<Rightarrow> if continue_after then agent_rounds env idle P limits run_id fuel counters else Ret True)))))
    (loop_start consumed entry) s (\<lambda>r q s. r = Inr True \<longrightarrow> loop_final entry q)"
proof -
  let ?q = "loop_start consumed entry"
  have q: "lp_phase ?q = Entering" "cb_steps consumed = lp_step ?q" "cb_model_rounds consumed = lp_round ?q"
    using assms by (simp_all add: loop_start_def)
  obtain x s' where al: "allocate limits run_id False (lp_step ?q, lp_round ?q) s = (x, s')"
    by (cases "allocate limits run_id False (lp_step ?q, lp_round ?q) s")
  show ?thesis
  proof (cases x)
    case (Inl e)
    then show ?thesis using al q by (simp add: wp_simps)
  next
    case (Inr ic)
    obtain i c where ic: "ic = (i, c)" by (cases ic)
    from new_step_allocated [OF al [unfolded Inr ic], of "''tools''" InTools] obtain q' where
      q': "new_step limits run_id ''tools'' False InTools ?q (StepStarted i ''tools'') = Some q'" "lp_phase q' = InTools"
        "i = current_step run_id q'" "c = (lp_step q', lp_round q')" by blast
    have decided: "wp (loop_next limits run_id)
        (case fd_flow d of FINISH \<Rightarrow> Ret True | WAIT \<Rightarrow> wait_for_host run_id d
         | CONTINUE \<Rightarrow> if continue_after then agent_rounds env idle P limits run_id fuel c else Ret True)
        (q'\<lparr>lp_phase := Decided d\<rparr>) t (\<lambda>r q s. r = Inr True \<longrightarrow> loop_final entry q)" for d t
      using wp_rounds [of "q'\<lparr>lp_phase := Decided d\<rparr>" limits run_id env idle fuel t entry] q'(4) assms
      by (cases "fd_flow d") (auto intro!: wp_waiting simp: loop_final_def)
    have "loop_next limits run_id ?q (StepStarted i ''tools'') = Some q'"
      using q q'(1) by (simp add: loop_next_def)
    then show ?thesis
      using al Inr ic q q'(3) decided
      by (auto simp: wp_gbind wp_act wp_small entry_command_def intro!: wp_prepare wp_tools_phase [OF q'(2)]
          split del: if_split)
  qed
qed

lemma wp_agent_run:
  "wp (loop_next limits (rq_run_id request)) (agent_run env idle P limits consumed request fuel)
     (loop_start consumed (rq_entry request)) s (\<lambda>r q s. r = Inr True \<longrightarrow> loop_final (rq_entry request) q)"
proof (cases "rq_entry request")
  case ModelEntry
  then show ?thesis
    using wp_rounds [of "loop_start consumed ModelEntry" limits "rq_run_id request" env idle fuel s ModelEntry]
    by (simp add: agent_run_def loop_start_def)
next
  case (ToolBatchEntry calls body reasoning receipt continue_after)
  from wp_entry_batch [OF this] show ?thesis by (simp add: agent_run_def ToolBatchEntry Let_def)
qed (simp add: agent_run_def loop_final_def loop_start_def)

end

text \<open>C4: The agent loop refines its protocol: with ports that yield only their own kind of events, whatever the
vendor model, the tools, the host and the other tasks do, the events of a run are accepted by the
abstract machine: numbered steps within the limits, a model phase, then the tool batch or the
completion that the model's result calls for, then what the decision of that phase says.  A loop
that returns does so in a final state of the machine.\<close>

theorem agent_loop_refines_protocol:
  assumes "execution_port_laws P" and "drain (agent_run env idle P limits consumed request fuel) s = (es, r, s')"
  shows "\<exists>q. accepts (loop_next limits (rq_run_id request)) (loop_start consumed (rq_entry request)) es = Some q \<and>
    (r = Inr True \<longrightarrow> loop_final (rq_entry request) q)"
  using execution_port_laws.wp_agent_run [OF assms(1), of limits request env idle consumed fuel s] assms(2)
  by (simp add: wp_drain split: option.splits)

end
