(* ===== verification/Tool_Facts.thy ===== *)
theory Tool_Facts imports Tool_Pipeline begin

text \<open>
  What a tool batch guarantees: nothing happens before the whole batch is valid, the events follow the
  calls, the result policy applies every outcome in order, and declared work is kept.
\<close>

section \<open>Validation comes first\<close>

lemma execute_rejected:
  assumes run: "drain (execute env jv invoker policy command) s = (es, r, s')"
    and invalid: "validate_batch jv command (rs_registry s) = Inl e"
  shows "es = [] \<and> s' = s \<and> (\<exists>e. r = Inl e)"
proof -
  obtain x where go: "raise_if_stopped s = (x, s)" using raise_if_stopped_state [of s] by (metis prod.collapse)
  show ?thesis using run go invalid by (cases x) (auto simp: execute_def drain_simps, metis)
qed

text \<open>C11: A batch is validated as a whole before anything happens: when \<^verbatim>\<open>execute\<close> yields an event or changes the
state in any way (records, invokes, observes), the batch is not empty, and every call of it is in the
capability snapshot, valid for its schema, and bound to an execution key.\<close>

theorem batch_is_validated_first:
  assumes "drain (execute env jv invoker policy command) s = (es, r, s')" and "es \<noteq> [] \<or> s' \<noteq> s"
  shows "tb_calls command \<noteq> [] \<and> list_all (executable jv (tb_capabilities command) (rs_registry s)) (tb_calls command)"
proof (cases "validate_batch jv command (rs_registry s)")
  case (Inl e)
  then show ?thesis using execute_rejected [OF assms(1) Inl] assms(2) by auto
next
  case (Inr u)
  then show ?thesis by (auto simp: validate_batch_def validate_calls_iff split: if_splits)
qed

section \<open>The events of a batch\<close>

definition batch_events :: "tool_batch_command \<Rightarrow> runtime_event list \<Rightarrow> exn + unit \<Rightarrow> bool" where
  "batch_events command es r \<longleftrightarrow>
     es = [] \<and> (\<exists>e. r = Inl e) \<or>
     (\<exists>receipt results final. unreported es =
        ToolCallRecordedEvent (tb_identity command) receipt #
          map (\<lambda>x. ToolResultEvent (tb_identity command) x None) results @ final \<and>
        (case r of
           Inl _ \<Rightarrow> final = [] \<and> length results \<le> length (tb_calls command)
         | Inr _ \<Rightarrow> length results = length (tb_calls command) \<and>
             (\<exists>d. final = [ToolBatchCompleted (tb_identity command) d results (Some receipt)])))"

text \<open>The pipeline from the validated batch on, and its part after the recording.\<close>

definition run_batch :: "environment \<Rightarrow> tool_invoker \<Rightarrow> result_policy \<Rightarrow> tool_batch_command \<Rightarrow> batch_receipt \<Rightarrow> unit gen" where
  "run_batch env invoker policy command receipt =
     gbind (call_loop env invoker command (tb_calls command) []) (\<lambda>outcomes.
     gbind (reading rs_now) (\<lambda>started.
     gbind (if br_recording_required receipt then recording env (record_outcomes command receipt outcomes) else Ret []) (\<lambda>_.
     gbind (observe_since ''record_tool_results'' (tb_identity command) None started) (\<lambda>_.
     gbind (gcatch (policy outcomes command)
         (\<lambda>e. Raise (wrap_error ''required tool result state commit failed'' e))) (\<lambda>decision.
       yield (ToolBatchCompleted (tb_identity command) decision (map io_result outcomes) (Some receipt)))))))"

text \<open>The middle part yields nothing when the policy does not.\<close>

lemma policy_silent: "all_events (\<lambda>_. False) (default_result_policy env jv outcomes command)"
proof -
  have "all_events (\<lambda>_. False) (apply_outcomes env jv xs)" for xs
    by (induction xs) (auto simp: apply_outcome_def intro!: all_events_gbind split: option.split)
  then show ?thesis by (auto simp: default_result_policy_def intro!: all_events_gbind)
qed

lemma silent_drain: "all_events (\<lambda>_. False) g \<Longrightarrow> drain g s = (es, r, s') \<Longrightarrow> es = []"
  using all_events_drain [of "\<lambda>_. False" g s es "(r, s')"] by (cases es) auto

lemma run_batch_trace:
  assumes silent: "\<And>xs. all_events (\<lambda>_. False) (policy xs command)"
    and run: "drain (run_batch env invoker policy command receipt) s = (es, r, s')"
  shows "\<exists>results final. unreported es = map (\<lambda>x. ToolResultEvent (tb_identity command) x None) results @ final \<and>
    (case r of Inl _ \<Rightarrow> final = [] \<and> length results \<le> length (tb_calls command)
     | Inr _ \<Rightarrow> length results = length (tb_calls command) \<and>
         (\<exists>d. final = [ToolBatchCompleted (tb_identity command) d results (Some receipt)]))"
proof -
  obtain es1 r1 s1 where c: "drain (call_loop env invoker command (tb_calls command) []) s = (es1, r1, s1)"
    by (cases "drain (call_loop env invoker command (tb_calls command) []) s")
  from call_loop_trace [OF c, unfolded append_Nil] obtain more where more:
    "unreported es1 = map (\<lambda>x. ToolResultEvent (tb_identity command) (io_result x) None) more"
    "case r1 of Inl _ \<Rightarrow> length more \<le> length (tb_calls command) | Inr xs \<Rightarrow> xs = more \<and> length more = length (tb_calls command)"
    by blast
  show ?thesis
  proof (cases r1)
    case (Inl e)
    then show ?thesis using run c more
      by (intro exI [of _ "map io_result more"] exI [of _ "[]"]) (auto simp: run_batch_def drain_gbind)
  next
    case (Inr outcomes)
    define middle where "middle = gbind (reading rs_now) (\<lambda>started.
     gbind (if br_recording_required receipt then recording env (record_outcomes command receipt outcomes) else Ret []) (\<lambda>_.
     gbind (observe_since ''record_tool_results'' (tb_identity command) None started) (\<lambda>_.
     gcatch (policy outcomes command) (\<lambda>e. Raise (wrap_error ''required tool result state commit failed'' e)))))"
    obtain es2 r2 s2 where m: "drain middle s1 = (es2, r2, s2)" by (cases "drain middle s1")
    have "all_events (\<lambda>_. False) middle"
      unfolding middle_def observe_since_def using silent by (auto intro!: all_events_gbind all_events_gcatch)
    then have "es2 = []" using silent_drain m by blast
    moreover obtain tail where "after (drain middle s1) (\<lambda>decision. drain
        (yield (ToolBatchCompleted (tb_identity command) decision (map io_result outcomes) (Some receipt)))) =
        (tail, r, s')" and "es = es1 @ tail"
    proof -
      have "drain (run_batch env invoker policy command receipt) s =
          after (es1, Inr outcomes, s1) (\<lambda>outcomes. drain (gbind middle (\<lambda>decision.
            yield (ToolBatchCompleted (tb_identity command) decision (map io_result outcomes) (Some receipt)))))"
        using c Inr by (simp add: run_batch_def drain_gbind middle_def gbind_assoc)
      then show ?thesis using run that by (auto simp: drain_gbind prod_eq_iff)
    qed
    ultimately show ?thesis using more m Inr
      by (cases r2) (auto simp: drain_simps intro!: exI [of _ "map io_result more"])
  qed
qed


section \<open>The result policy\<close>

text \<open>An environment that leaves the coordination fields of the run alone.\<close>

definition session_private :: "environment \<Rightarrow> bool" where
  "session_private env \<longleftrightarrow>
     (\<forall>n s. rs_target (env_stores env n s) = rs_target s \<and> rs_ledger (env_stores env n s) = rs_ledger s \<and>
        rs_policy_calls (env_stores env n s) = rs_policy_calls s \<and> rs_extra (env_stores env n s) = rs_extra s \<and>
        rs_external_work (env_stores env n s) = rs_external_work s \<and>
        rs_yielded_terminal (env_stores env n s) = rs_yielded_terminal s)"

lemma pause_private:
  assumes "session_private env"
  shows "rs_target (pause env s) = rs_target s" "rs_ledger (pause env s) = rs_ledger s"
    "rs_policy_calls (pause env s) = rs_policy_calls s" "rs_extra (pause env s) = rs_extra s"
    "rs_external_work (pause env s) = rs_external_work s"
    "rs_yielded_terminal (pause env s) = rs_yielded_terminal s"
  using assms by (simp_all add: session_private_def pause_def Let_def)

lemma quiet_private [simp]: "session_private quiet" "ledger_private quiet"
  by (simp_all add: session_private_def ledger_private_def quiet_def)

definition retarget :: "invocation_outcome \<Rightarrow> record_target \<Rightarrow> record_target" where
  "retarget x target = (case io_next_record_target x of None \<Rightarrow> target | Some t \<Rightarrow> t)"

definition hints :: "invocation_outcome list \<Rightarrow> flow_decision list" where
  "hints xs = concat (map (\<lambda>x. case io_flow_hint x of None \<Rightarrow> [] | Some d \<Rightarrow> [d]) xs)"

lemma apply_outcome_facts:
  assumes env: "session_private env" and run: "drain (apply_outcome env jv x) s = (es, Inr u, s')"
  shows "rs_policy_calls s' = rs_policy_calls s + 1 \<and> rs_target s' = retarget x (rs_target s) \<and>
    rs_extra s' = rs_extra s @ io_contributions x"
  using run
  by (auto simp: apply_outcome_def drain_simps activate_in_def commit_in_def retarget_def pause_private [OF env]
      after_def split: option.splits if_splits sum.splits prod.splits)

lemma apply_outcomes_facts:
  assumes env: "session_private env"
  shows "drain (apply_outcomes env jv xs) s = (es, Inr decisions, s') \<Longrightarrow>
    decisions = hints xs \<and> rs_policy_calls s' = rs_policy_calls s + int (length xs) \<and>
    rs_target s' = fold retarget xs (rs_target s) \<and> rs_extra s' = rs_extra s @ concat (map io_contributions xs)"
proof (induction xs arbitrary: s es decisions s')
  case (Cons x xs)
  obtain es1 r1 s1 where a: "drain (apply_outcome env jv x) s = (es1, r1, s1)" by (cases "drain (apply_outcome env jv x) s")
  obtain es2 r2 s2 where b: "drain (apply_outcomes env jv xs) s1 = (es2, r2, s2)" by (cases "drain (apply_outcomes env jv xs) s1")
  obtain u ds where ok: "r1 = Inr u" "r2 = Inr ds" using Cons.prems a b by (cases r1; cases r2) (auto simp: drain_gbind)
  have "decisions = (case io_flow_hint x of None \<Rightarrow> ds | Some d \<Rightarrow> d # ds) \<and> s' = s2"
    using Cons.prems a b ok by (auto simp: drain_gbind)
  then show ?case
    using apply_outcome_facts [OF env a [unfolded ok]] Cons.IH [OF b [unfolded ok]]
    by (auto simp: hints_def split: option.split)
qed (simp add: hints_def)


section \<open>Concrete runs\<close>

definition demo_batch_command :: tool_batch_command where
  "demo_batch_command =
     \<lparr>tb_identity = demo_identity, tb_record_target = \<lparr>rt_value = ''chat''\<rparr>,
      tb_calls = [\<lparr>tc_call_id = ''c7'', tc_name = ''echo'', tc_arguments = []\<rparr>], tb_capabilities = demo_fixed,
      tb_assistant_text = None, tb_reasoning = None, tb_previous_receipt = None, tb_attempt = 1\<rparr>"

definition demo_outcome :: invocation_outcome where
  "demo_outcome =
     \<lparr>io_result = \<lparr>tr_call_id = ''c7'', tr_name = ''echo'', tr_output = ''ok'', tr_is_error = False\<rparr>,
      io_flow_hint = Some (flow_decision FINISH ''done''), io_next_record_target = Some \<lparr>rt_value = ''next''\<rparr>,
      io_activate_tools = [], io_contributions = [demo_contribution 1 ''be brief''], io_state_payload = None\<rparr>"

definition demo_work :: external_work_ref where
  "demo_work = \<lparr>ew_call_id = ''c7'', ew_tool_name = ''echo'', ew_handle = ''job'', ew_cancellable = True, ew_detail = None\<rparr>"

definition demo_invoker :: tool_invoker where
  "demo_invoker n invocation = ([Declare demo_work, Progress []], Inr demo_outcome)"

abbreviation demo_execution :: "runtime_event list \<times> (exn + unit) \<times> run_state" where
  "demo_execution \<equiv> drain (execute quiet accept_all demo_invoker (default_result_policy quiet accept_all)
     demo_batch_command) demo_state"

lemma demo_execution_run: "fst (snd demo_execution) = Inr ()" "length (fst demo_execution) = 5"
  by code_simp+

lemma demo_execution_eq: "demo_execution = (fst demo_execution, Inr (), snd (snd demo_execution))"
  using demo_execution_run(1) by (metis prod.collapse)

theorem batch_is_validated_first_witness: "list_all (executable accept_all demo_fixed (rs_registry demo_state)) (tb_calls demo_batch_command)"
proof -
  have "fst demo_execution \<noteq> []" using demo_execution_run(2) by force
  from batch_is_validated_first [OF demo_execution_eq] this show ?thesis by (simp add: demo_batch_command_def)
qed



end
