(* ===== verification/Run_Protocol.thy ===== *)
theory Run_Protocol imports Runner Loop_Protocol Model_Facts Tool_Facts begin

text \<open>
  The ports of an assembled run satisfy the contract of the agent loop, and the loop is refined by a run
  with them.
\<close>

section \<open>The default pipelines as ports\<close>

lemma all_events_mono: "all_events P g \<Longrightarrow> (\<And>ev. P ev \<Longrightarrow> R ev) \<Longrightarrow> all_events R g"
  by (induction g) auto

lemma prepare_identity:
  assumes "prepare p env i s = (Inr step, s')"
  shows "ps_identity step = i"
  using assms
  by (auto simp: prepare_def Let_def elim!: andthen_InrE split: sum.splits prod.splits if_splits)

lemma model_events: "all_events (\<lambda>ev. is_model_event ev \<and> belongs (ps_identity step) ev) (model_stream env idle lm step)"
  (is "all_events ?P _")
proof -
  have low: "all_events ?P (low_event env step attempt ev c)" for attempt ev c
    by (cases ev) (auto simp: low_event_def Let_def belongs_def intro!: all_events_gbind)
  have events: "all_events ?P (attempt_events env idle lm step attempt)" for attempt
    unfolding attempt_events_def
    by (auto intro!: all_events_gbind all_events_each_until [where Q = "\<lambda>_. True"] low split: prod.split simp: failed_attempt_def)
  have run: "all_events ?P (run_attempt env idle lm step attempt)" for attempt
    unfolding run_attempt_def
    by (rule all_events_gbind [OF events]) (auto simp: belongs_def intro!: all_events_gbind split: option.split)
  have one: "all_events ?P (one_attempt env idle lm step attempt)" for attempt
    unfolding one_attempt_def
    by (auto intro!: all_events_gbind all_events_gfinally all_events_each_until [OF run] simp: retry_error_def)
  have "all_events ?P (attempt_loop env idle lm step n attempt e)" for n attempt e
    by (induction n arbitrary: attempt e) (auto intro!: all_events_gbind one split: if_splits)
  then show ?thesis by (simp add: model_stream_def Let_def)
qed

lemma batch_port_events:
  assumes silent: "\<And>outcomes. all_events (\<lambda>_. False) (policy outcomes command)"
  shows "all_events (\<lambda>ev. is_batch_event ev \<and> belongs (tb_identity command) ev) (execute env jv invoker policy command)"
    (is "all_events ?P _")
proof -
  have reports: "all_events ?P (forward_all env (tb_identity command) call reports)" for call reports
    by (induction reports) (auto simp: forward_def belongs_def intro!: all_events_gbind split: report.split)
  have calls: "all_events ?P (call_loop env invoker command calls outcomes)" for calls outcomes
    by (induction calls arbitrary: outcomes)
      (auto simp: invoke_def observe_since_def belongs_def [of _ "ToolResultEvent _ _ _"] intro!: all_events_gbind reports split: prod.split)
  have policy: "all_events ?P (policy outcomes command)" for outcomes
    using silent [of outcomes] by (rule all_events_mono) simp
  show ?thesis
    unfolding execute_def
    by (auto simp: observe_since_def belongs_def [of _ "ToolCallRecordedEvent _ _"] belongs_def [of _ "ToolBatchCompleted _ _ _ _"]
        intro!: all_events_gbind all_events_gcatch calls policy)
qed

lemma completion_events:
  "all_events (\<lambda>ev. is_completion_done ev \<and> belongs (ps_identity (cm_step command)) ev) (complete env policy command)"
  by (auto simp: complete_def belongs_def intro!: all_events_gbind all_events_gcatch)

interpretation dm: phase_port "model_stream env idle lm" ps_identity is_model_event for env idle lm
  by unfold_locales (rule model_events)

interpretation dt: phase_port "execute env jv invoker (\<lambda>outcomes command. act (p outcomes command))" tb_identity is_batch_event
  for env jv invoker p
  by unfold_locales (rule batch_port_events, simp)

interpretation dd: phase_port "execute env jv invoker (default_result_policy env jv)" tb_identity is_batch_event
  for env jv invoker
  by unfold_locales (rule batch_port_events, rule policy_silent)

interpretation dc: phase_port "complete env policy" "\<lambda>command. ps_identity (cm_step command)" is_completion_done
  for env policy
  by unfold_locales (rule completion_events)

interpretation dp: execution_port_laws "default_ports host env request" for host env request
proof unfold_locales
  fix i s step assume "fst (ep_prepare (default_ports host env request) i s) = Inr step"
  then have "prepare (default_provider host request s) env i s = (Inr step, snd (prepare (default_provider host request s) env i s))"
    by (simp add: default_ports_def prod_eq_iff)
  then show "ps_identity step = i" by (rule prepare_identity)
qed (auto simp: default_ports_def dm.only_kind dc.only_kind dt.only_kind dd.only_kind split: option.split)

text \<open>A run without overrides is assembled from the default pipelines.\<close>

lemma assemble_default:
  "rh_ports host = no_overrides \<Longrightarrow> assemble host env request s = Inr (default_ports host env request)"
  by (simp add: assemble_def no_overrides_def from_factory_def Let_def)

lemma default_laws: "execution_port_laws (default_ports host env request)"
  by (rule dp.execution_port_laws_axioms)

section \<open>Termination of the loop\<close>

lemma agent_run_fuel:
  assumes "steps_left limits (cb_steps consumed, cb_model_rounds consumed) = Some k" and "k < fuel" and "k < fuel'"
  shows "agent_run env idle P limits consumed request fuel = agent_run env idle P limits consumed request fuel' \<and>
    results (\<lambda>x. x) (agent_run env idle P limits consumed request fuel)"
proof -
  have entered: "\<exists>j. steps_left limits c = Some j \<and> j \<le> k"
    if al: "allocate limits run_id False (cb_steps consumed, cb_model_rounds consumed) s = (Inr (i, c), s')" for run_id s i c s'
    using allocate_Inr [OF al] assms(1) by (auto simp: steps_left_def split: option.splits)
  have batch: "results (\<lambda>r. \<exists>j. steps_left limits (snd r) = Some j \<and> j \<le> k)
      (act (allocate limits run_id False (cb_steps consumed, cb_model_rounds consumed)))" for run_id
  proof (rule results_act)
    fix s r assume r: "fst (allocate limits run_id False (cb_steps consumed, cb_model_rounds consumed) s) = Inr r"
    obtain i c where ic: "r = (i, c)" by (cases r)
    have "allocate limits run_id False (cb_steps consumed, cb_model_rounds consumed) s = (Inr (i, c), s)"
      using r ic allocate_state [of limits run_id False "(cb_steps consumed, cb_model_rounds consumed)" s]
      by (simp add: prod_eq_iff)
    from entered [OF this] show "\<exists>j. steps_left limits (snd r) = Some j \<and> j \<le> k" by (simp add: ic)
  qed
  have rounds: "agent_rounds env idle P limits run_id fuel c = agent_rounds env idle P limits run_id fuel' c"
      "results (\<lambda>x. x) (agent_rounds env idle P limits run_id fuel' c)"
    if "steps_left limits c = Some j" "j \<le> k" for run_id c j
    using enough_fuel [OF that(1), of fuel fuel'] fuel_suffices [OF that(1), of fuel'] that(2) assms(2,3) by auto
  show ?thesis
  proof (cases "rq_entry request")
    case (ToolBatchEntry calls body reasoning receipt continue_after)
    have "agent_run env idle P limits consumed request fuel = agent_run env idle P limits consumed request fuel'"
      unfolding agent_run_def Let_def ToolBatchEntry execution_entry.case
      by (rule gbind_cong [OF batch]) (auto simp: rounds(1) cong: flow.case_cong)
    moreover have "results (\<lambda>x. x) (agent_run env idle P limits consumed request fuel')"
      unfolding agent_run_def Let_def ToolBatchEntry execution_entry.case
      by (rule results_gbind [OF batch]) (auto intro!: results_then intro: rounds(2) split: flow.split simp: results_waiting)
    ultimately show ?thesis by simp
  qed (use rounds [OF assms(1)] in \<open>simp_all add: agent_run_def\<close>)
qed

text \<open>C13: The agent loop ends: with a limit on the steps or on the model rounds, \<open>k\<close> more than the budget has
consumed, the loop makes at most \<open>k\<close> rounds whatever the ports do.  With more fuel than that it never
runs out of it, and any two such amounts of fuel give the same generator.\<close>

theorem loop_terminates:
  assumes "steps_left limits (cb_steps consumed, cb_model_rounds consumed) = Some k" and "k < fuel"
    and "drain (agent_run env idle P limits consumed request fuel) s = (es, r, s')"
  shows "r \<noteq> Inr False \<and>
    agent_run env idle P limits consumed request fuel = agent_run env idle P limits consumed request (Suc k)"
  using agent_run_fuel [OF assms(1,2), of "Suc k" env idle P request] results_drain assms(3) by auto

section \<open>Concrete runs\<close>

definition demo_host :: runtime_host where
  "demo_host =
     \<lparr>rh_model = demo_low, rh_invoker = demo_invoker,
      rh_resolve = (\<lambda>request application s. (fixed_resolve demo_fixed request application, s)),
      rh_idle = False, rh_phase_idle = False, rh_completion_policy = None, rh_result_policy = None,
      rh_contributors = [], rh_compress = None, rh_budget = None, rh_observer = (\<lambda>_. None), rh_close_items = 9,
      rh_ports = no_overrides, rh_sha = (\<lambda>_. ''0123456789abcdef''), rh_float = (\<lambda>_. []), rh_validator = accept_all\<rparr>"

definition demo_limits :: execution_limits where
  "demo_limits = default_execution_limits\<lparr>el_max_model_rounds := Some 1\<rparr>"

definition demo_ports :: execution_ports where
  "demo_ports =
     \<lparr>ep_prepare = (\<lambda>i s. (Inr (demo_step\<lparr>ps_identity := i\<rparr>), s)),
      ep_model = (\<lambda>step. yield (ModelCompleted (ps_identity step) demo_reply None)),
      ep_tools = (\<lambda>command. yield (ToolBatchCompleted (tb_identity command) (flow_decision FINISH []) [] None)),
      ep_complete = (\<lambda>command. yield (CompletionCompleted (ps_identity (cm_step command)) (flow_decision FINISH []) None)),
      ep_invalidate = None\<rparr>"

lemma demo_laws: "execution_port_laws demo_ports"
  by unfold_locales (auto simp: demo_ports_def belongs_def)

abbreviation demo_loop :: "runtime_event list \<times> (exn + bool) \<times> run_state" where
  "demo_loop \<equiv> drain (agent_run quiet False demo_ports demo_limits (rq_consumed demo_request) demo_request 2) demo_state"

lemma demo_loop_eq: "demo_loop = (fst demo_loop, Inr True, snd (snd demo_loop))"
proof -
  have "fst (snd demo_loop) = Inr True" by code_simp
  then show ?thesis by (metis prod.collapse)
qed

theorem agent_loop_refines_protocol_witness:
  "\<exists>q. accepts (loop_next demo_limits ''r'') (loop_start (rq_consumed demo_request) ModelEntry) (fst demo_loop) = Some q \<and>
     loop_final ModelEntry q"
proof -
  have "rq_run_id demo_request = ''r''" "rq_entry demo_request = ModelEntry" by (simp_all add: demo_request_def)
  with agent_loop_refines_protocol [OF demo_laws demo_loop_eq] show ?thesis by simp
qed

theorem loop_terminates_witness:
  "agent_run quiet False demo_ports demo_limits (rq_consumed demo_request) demo_request 2 =
   agent_run quiet False demo_ports demo_limits (rq_consumed demo_request) demo_request (Suc 1)"
proof -
  have "steps_left demo_limits (cb_steps (rq_consumed demo_request), cb_model_rounds (rq_consumed demo_request)) = Some 1"
    by code_simp
  from loop_terminates [OF this _ demo_loop_eq] show ?thesis by simp
qed

end
