(* ===== verification/Runner_Facts.thy ===== *)
theory Runner_Facts imports Run_Protocol begin

text \<open>
  What a consumer can rely on at the end of a run.  An automaton remembers the terminal event; after it
  nothing is accepted.
\<close>

section \<open>Events of the agent loop\<close>

lemma all_events_each [all_events_rules]:
  "all_events Q g \<Longrightarrow> (\<And>ev c. Q ev \<Longrightarrow> all_events P (b ev c)) \<Longrightarrow> all_events P (each g b c)"
  by (induction g arbitrary: c) (auto intro!: all_events_gbind)

text \<open>Of the terminal events the loop yields only its own \<open>RunWaiting\<close>.\<close>

definition from_loop :: "string \<Rightarrow> runtime_event \<Rightarrow> bool" where
  "from_loop run_id ev \<longleftrightarrow> (is_terminal ev \<longrightarrow> (\<exists>p d. ev = RunWaiting run_id p d))"

lemma from_loop_simps [simp]:
  "is_model_event ev \<Longrightarrow> from_loop run_id ev" "is_batch_event ev \<Longrightarrow> from_loop run_id ev"
  "is_completion_done ev \<Longrightarrow> from_loop run_id ev" "from_loop run_id (StepStarted i p)" "from_loop run_id (RunWaiting run_id r d)"
  by (cases ev; simp add: from_loop_def)+

context execution_port_laws
begin

lemma phase_events:
  "all_events (from_loop run_id) (model_phase env P step)" "all_events (from_loop run_id) (tools_phase env idle P command)"
  "all_events (from_loop run_id) (completion_phase env idle P completion)"
proof -
  have phase: "all_events (from_loop run_id) (phase_loop env idle C keep missing g)" if "all_events (from_loop run_id) g"
    for idle C and keep :: "runtime_event \<Rightarrow> 'z option \<Rightarrow> 'z option" and missing g
    unfolding phase_loop_def
    by (auto intro!: all_events_gbind all_events_each [OF all_events_iterate_strict [OF that]] split: option.split)
  show "all_events (from_loop run_id) (model_phase env P step)"
    unfolding model_phase_def by (rule phase [OF all_events_mono [OF m.only_kind]]) simp
  show "all_events (from_loop run_id) (tools_phase env idle P command)"
    unfolding tools_phase_def by (rule phase [OF all_events_mono [OF t.only_kind]]) simp
  show "all_events (from_loop run_id) (completion_phase env idle P completion)"
    unfolding completion_phase_def by (rule phase [OF all_events_mono [OF c.only_kind]]) simp
qed

lemma loop_events: "all_events (from_loop (rq_run_id request)) (agent_run env idle P limits consumed request fuel)"
proof -
  have wait: "all_events (from_loop run_id) (wait_for_host run_id d)" for run_id d
    by (auto simp: wait_for_host_def intro!: all_events_gbind)
  have decide: "all_events (from_loop run_id) (decide_phase env idle P i step result)" for run_id i step result
    by (auto simp: decide_phase_def intro!: all_events_gbind phase_events)
  have rounds: "all_events (from_loop run_id) (agent_rounds env idle P limits run_id fuel c)" for run_id c
    by (induction fuel arbitrary: c)
      (auto intro!: all_events_gbind phase_events decide wait split: prod.split flow.split)
  show ?thesis
    by (auto simp: agent_run_def Let_def intro!: all_events_gbind phase_events rounds wait
        split: execution_entry.split prod.split flow.split)
qed

end

section \<open>The end of a run\<close>

fun ending :: "runtime_event option \<Rightarrow> runtime_event \<Rightarrow> runtime_event option option" where
  "ending None ev = Some (if is_terminal ev then Some ev else None)"
| "ending (Some _) ev = None"

fun status_of :: "runtime_event \<Rightarrow> run_status" where
  "status_of (RunSucceeded _) = SUCCEEDED"
| "status_of (RunFailed _ _ _) = FAILED"
| "status_of (RunCancelled _ _ _) = CANCELLED"
| "status_of (RunWaiting _ _ _) = WAITING"
| "status_of _ = RUNNING"

text \<open>The transcript holds the committed operation that ends the run with a status.\<close>

definition finalized :: "string \<Rightarrow> run_status \<Rightarrow> transcript \<Rightarrow> bool" where
  "finalized run_id status t \<longleftrightarrow>
     (\<exists>co. mt_ops t (finalize_op run_id status) = Some co \<and> co_kind co = RUN_FINAL \<and>
        co_payload co = KStr (run_status_value status) \<and> co_run_id co = Some run_id)"

lemma finalize_finalized: "finalize_run run_id status t = (Inr (), t') \<Longrightarrow> finalized run_id status t'"
  by (auto simp: finalize_run_def Let_def finalized_def store_op_def replay_def check_fail_def
      split: if_splits sum.splits option.splits)

text \<open>Other tasks never take a committed operation back.\<close>

definition durable :: "environment \<Rightarrow> bool" where
  "durable env \<longleftrightarrow> (\<forall>n s op co. mt_ops (rs_transcript s) op = Some co \<longrightarrow>
     mt_ops (rs_transcript (env_stores env n s)) op = Some co)"

lemma durable_pause: "durable env \<Longrightarrow> finalized run_id status (rs_transcript s) \<Longrightarrow>
    finalized run_id status (rs_transcript (pause env s))"
  by (auto simp: durable_def finalized_def pause_def Let_def)

text \<open>What holds at every exit: after a terminal event nothing is raised, and it is committed.\<close>

definition announced :: "environment \<Rightarrow> string \<Rightarrow> exn + 'a \<Rightarrow> runtime_event option \<Rightarrow> run_state \<Rightarrow> bool" where
  "announced env run_id r q s \<longleftrightarrow>
     (case q of
        None \<Rightarrow> True
      | Some ev \<Rightarrow> (\<exists>a. r = Inr a) \<and> event_run_id (Runtime ev) = Some run_id \<and> is_terminal ev \<and>
          (durable env \<longrightarrow> finalized run_id (status_of ev) (rs_transcript s)))"

lemma announced_None [simp]: "announced env run_id r None s"
  by (simp add: announced_def)

lemma announced_Inl [simp]: "announced env run_id (Inl e) q s \<longleftrightarrow> q = None"
  by (simp add: announced_def split: option.splits)

text \<open>A generator that yields no terminal event ends with none announced.\<close>

lemma wp_plain: "all_events (\<lambda>ev. \<not> is_terminal ev) g \<Longrightarrow> (\<And>r s. Q r None s) \<Longrightarrow> wp ending g None s Q"
  by (induction g arbitrary: s) auto

text \<open>Committing the end and handing its event over.\<close>

lemma wp_commit:
  assumes "\<And>e s. Q (Inl e) None s"
    and "\<And>s. finalized run_id status (rs_transcript s) \<Longrightarrow> Q (Inr ()) None s"
  shows "wp ending (commit_terminal env run_id status ev) None s Q"
proof (cases "finalize_run run_id status (rs_transcript (pause env s))")
  case (Pair x t)
  then show ?thesis
    using assms finalize_finalized [of run_id status "rs_transcript (pause env s)" t]
    by (cases x) (simp_all add: commit_terminal_def awaiting_def on_transcript_def observe_def wp_simps)
qed

lemma announced_emit:
  assumes "is_terminal ev" and "event_run_id (Runtime ev) = Some run_id" and "finalized run_id (status_of ev) (rs_transcript s)"
  shows "announced env run_id (Inr a) (Some ev) (pause env s)"
  using assms durable_pause by (auto simp: announced_def)

lemma wp_hand_over:
  assumes "is_terminal ev" and "event_run_id (Runtime ev) = Some run_id" and "finalized run_id (status_of ev) (rs_transcript s)"
    and "\<And>q s. announced env run_id (Inr ()) q s \<Longrightarrow> Q (Inr ()) q s"
  shows "wp ending (hand_over env once ev) None s Q"
  using assms(1-3) announced_emit [of ev run_id "s\<lparr>rs_yielded_terminal := True\<rparr>" env "()"]
  by (auto simp: hand_over_def mark_terminal_def emit_def wp_simps intro!: assms(4))

lemma wp_end:
  assumes "is_terminal ev" and "event_run_id (Runtime ev) = Some run_id" and "status_of ev = status"
    and "\<And>e s. Q (Inl e) None s" and "\<And>q s. announced env run_id (Inr ()) q s \<Longrightarrow> Q (Inr ()) q s"
  shows "wp ending (gbind (commit_terminal env run_id status ev) (\<lambda>_. hand_over env once ev)) None s Q"
  unfolding wp_gbind
  by (rule wp_commit) (use assms in \<open>auto intro: wp_hand_over\<close>)

abbreviation run_post :: "environment \<Rightarrow> run_request \<Rightarrow> exn + 'a \<Rightarrow> runtime_event option \<Rightarrow> run_state \<Rightarrow> bool" where
  "run_post env request \<equiv> announced env (rq_run_id request)"

lemma announced_result: "announced env run_id (Inr a) q s \<Longrightarrow> announced env run_id (Inr b) q s"
  by (simp add: announced_def split: option.splits)

lemma wp_succeed: "wp ending (gbind (succeed env request) (\<lambda>_. Ret b)) None s (run_post env request)"
  unfolding succeed_def wp_gbind [of _ "gbind _ _"] by (rule wp_end) (auto intro: announced_result)

lemma wp_fail: "wp ending (gbind (fail_run env request e) (\<lambda>_. Ret b)) None s (run_post env request)"
  unfolding fail_run_def Let_def wp_gbind [of _ "gbind _ _"] by (rule wp_end) (auto intro: announced_result)

lemma wp_cancel: "wp ending (gbind (cancel_run env request e) (\<lambda>_. Ret b)) None s (run_post env request)"
proof (cases "cancelled_event request e s")
  case (Inr ev)
  then obtain reason where ev: "ev = RunCancelled (rq_run_id request) reason (rs_external_work s)"
    by (auto simp: cancelled_event_def split: sum.splits)
  have "wp ending (gbind (commit_terminal env (rq_run_id request) CANCELLED ev) (\<lambda>_. hand_over env True ev)) None s
      (\<lambda>r q s. case r of Inl e \<Rightarrow> run_post env request (Inl e) q s | Inr _ \<Rightarrow> run_post env request (Inr b) q s)"
    by (rule wp_end) (auto simp: ev intro: announced_result)
  then show ?thesis by (simp add: cancel_run_def wp_gbind wp_act Inr cong: sum.case_cong)
qed (simp add: cancel_run_def wp_gbind wp_act)

lemma wp_outer: "wp ending (outer_handler env request e) None s (run_post env request)"
  by (simp add: outer_handler_def wp_cancel wp_fail)

lemma wp_awaiting: "(\<And>r s. Q r None s) \<Longrightarrow> wp ending (awaiting env f) None s Q"
  by (simp add: awaiting_def wp_simps split: sum.split)

lemma wp_inner: "wp ending (inner_handler env request P e) None s (run_post env request)"
proof -
  have "all_events (\<lambda>ev. \<not> is_terminal ev) (invalidate_projection env P)"
    by (auto simp: invalidate_projection_def awaiting_def intro!: all_events_gbind all_events_gcatch split: option.split)
  then have invalidated: "wp ending (gbind (invalidate_projection env P) (\<lambda>_. gbind (fail_run env request e) (\<lambda>_. Ret b)))
      None s (run_post env request)" for b s
    unfolding wp_gbind [of _ "invalidate_projection env P"]
    by (rule wp_plain) (simp add: wp_fail split: sum.split)
  have "wp ending (gbind (awaiting env (on_transcript (finalize_run (rq_run_id request) CANCELLED))) (\<lambda>_. Raise e :: bool gen))
      None s (run_post env request)"
    by (subst wp_gbind, rule wp_awaiting) (simp split: sum.split)
  then show ?thesis by (simp add: inner_handler_def wp_cancel wp_fail invalidated)
qed

lemma wp_each_to:
  assumes "all_events E g"
    and "\<And>ev s. E ev \<Longrightarrow> wp \<delta> (b ev) q s (\<lambda>t q' s. case t of
        Inl e \<Rightarrow> Q (Inl e) q' s | Inr None \<Rightarrow> q' = q | Inr (Some r) \<Rightarrow> Q (Inr r) q' s)"
    and "\<And>a s. Q (Inr (fin a)) q s" and "\<And>e s. Q (Inl e) q s"
  shows "wp \<delta> (each_to g b fin) q s Q"
  using assms(1)
proof (induction g arbitrary: s)
  case (Yield ev g c)
  have next_event: "wp \<delta> (each_to g b fin) q s Q" for s using Yield by simp
  have "E ev" using Yield.prems by simp
  show ?case
    by (simp add: wp_gbind, rule wp_mono [OF assms(2) [OF \<open>E ev\<close>]])
      (auto simp: next_event split: sum.splits option.splits)
qed (use assms(3,4) in auto)

text \<open>The post-condition inside the loop: a terminal event only goes with leaving it.\<close>

lemma wp_loop_body:
  assumes "from_loop (rq_run_id request) ev"
  shows "wp ending (loop_body env request ev) None s (\<lambda>t q s. case t of
      Inl e \<Rightarrow> q = None | Inr None \<Rightarrow> q = None
    | Inr (Some x) \<Rightarrow> run_post env request (Inr ()) q s \<and> (q \<noteq> None \<longrightarrow> x = Returned))"
proof (cases "is_waiting ev")
  case True
  then obtain p d where ev: "ev = RunWaiting (rq_run_id request) p d"
    using assms by (cases ev) (auto simp: from_loop_def)
  have leave: "wp ending (gbind mark_terminal (\<lambda>_. gbind (reading consumer_closed) (\<lambda>closed.
        gbind (if closed then Ret () else emit env ev) (\<lambda>_. Ret (Some Returned))))) None s
      (\<lambda>t q s. case t of Inl e \<Rightarrow> q = None | Inr None \<Rightarrow> q = None
       | Inr (Some x) \<Rightarrow> run_post env request (Inr ()) q s \<and> (q \<noteq> None \<longrightarrow> x = Returned))"
    if "finalized (rq_run_id request) WAITING (rs_transcript s)" for s
    using announced_emit [of ev "rq_run_id request" "s\<lparr>rs_yielded_terminal := True\<rparr>" env "()"] that
    by (auto simp: mark_terminal_def emit_def wp_simps ev)
  have commit: "wp ending (gbind (commit_terminal env (rq_run_id request) WAITING ev) (\<lambda>_. gbind mark_terminal (\<lambda>_.
        gbind (reading consumer_closed) (\<lambda>closed. gbind (if closed then Ret () else emit env ev) (\<lambda>_. Ret (Some Returned))))))
      None s
      (\<lambda>t q s. case t of Inl e \<Rightarrow> q = None | Inr None \<Rightarrow> q = None
       | Inr (Some x) \<Rightarrow> run_post env request (Inr ()) q s \<and> (q \<noteq> None \<longrightarrow> x = Returned))"
    unfolding wp_gbind [of _ "commit_terminal env (rq_run_id request) WAITING ev"]
    by (rule wp_commit) (simp_all add: leave)
  show ?thesis
    unfolding loop_body_def wp_gbind [of _ "reading consumer_closed" "\<lambda>closed. if closed then Ret (Some Broken) else _ closed"]
    using True commit by (simp add: wp_small)
next
  case False
  then have "\<not> is_terminal ev" using assms by (cases ev) (auto simp: from_loop_def)
  then show ?thesis using False by (simp add: loop_body_def emit_def observe_def wp_simps)
qed

lemma wp_run_loop:
  assumes "execution_port_laws P"
  shows "wp ending (run_loop host env request fuel P) None s (run_post env request)"
proof -
  have "wp ending (each_to (agent_run env (rh_phase_idle host) P (rq_limits request) (rq_consumed request) request fuel)
      (loop_body env request) Ended) None s
    (\<lambda>r q s. case r of Inl e \<Rightarrow> q = None | Inr x \<Rightarrow> run_post env request (Inr ()) q s \<and> (q \<noteq> None \<longrightarrow> x = Returned))"
    by (rule wp_each_to [OF execution_port_laws.loop_events [OF assms]])
      (auto intro: wp_mono [OF wp_loop_body] split: sum.splits option.splits)
  then show ?thesis
    unfolding run_loop_def wp_gbind [of _ "each_to _ _ _"]
    by (rule wp_mono) (auto simp: wp_succeed intro: announced_result split: sum.splits loop_exit.splits bool.splits)
qed

lemma wp_run_body:
  assumes "execution_port_laws P"
  shows "wp ending (run_body host env request fuel P) None s (run_post env request)"
proof -
  have inputs: "all_events (\<lambda>ev. \<not> is_terminal ev) (record_inputs env request n ms)" for n ms
    by (induction ms arbitrary: n) (auto simp: awaiting_def intro!: all_events_gbind)
  have rest: "wp ending (gbind (record_inputs env request 0 (rq_input_items request)) (\<lambda>_.
      if rq_entry request = CompletedEntry then gbind (succeed env request) (\<lambda>_. Ret True)
      else run_loop host env request fuel P)) None s (run_post env request)" for s
    unfolding wp_gbind [of _ "record_inputs _ _ _ _"]
    by (rule wp_plain [OF inputs]) (simp add: wp_succeed wp_run_loop [OF assms] split: sum.split)
  show ?thesis
    unfolding run_body_def Let_def wp_gbind [of _ "effect _"] wp_gbind [of _ "emit _ _"]
    by (simp add: emit_def wp_gbind [of _ "yield _"] wp_small rest)
qed

text \<open>The whole run; \<open>laws\<close> says that the ports of the run, overridden or not, keep to their kinds of events.\<close>

lemma wp_run_try:
  assumes laws: "\<And>t P. assemble host env request t = Inr P \<Longrightarrow> execution_port_laws P"
  shows "wp ending (run_try host env request fuel) None s (run_post env request)"
proof -
  have caught: "wp ending (gcatch (run_body host env request fuel P) (inner_handler env request P)) None s (run_post env request)"
    if "execution_port_laws P" for P s
    unfolding wp_gcatch
    by (rule wp_mono [OF wp_run_body [OF that]])
      (auto simp: wp_inner split: sum.splits)
  have assembled: "wp ending (gbind (act (\<lambda>s. (assemble host env request s, s))) (\<lambda>P.
       gcatch (run_body host env request fuel P) (inner_handler env request P))) None s (run_post env request)" for s
    using caught laws [of s] by (cases "assemble host env request s") (simp_all add: wp_gbind [of _ "act _"] wp_act)
  show ?thesis
    unfolding run_try_def
    by (intro wp_silent_then assembled) auto
qed

lemma wp_run_stream:
  assumes laws: "\<And>t P. assemble host env request t = Inr P \<Longrightarrow> execution_port_laws P"
  shows "wp ending (run_stream host env request fuel) None s (\<lambda>r q s. case q of
      None \<Rightarrow> True
    | Some ev \<Rightarrow> event_run_id (Runtime ev) = Some (rq_run_id request) \<and> is_terminal ev \<and>
        (durable env \<longrightarrow> finalized (rq_run_id request) (status_of ev) (rs_transcript s)))"
proof -
  have caught: "wp ending (gcatch (run_try host env request fuel) (outer_handler env request)) None s (run_post env request)" for s
    unfolding wp_gcatch
    by (rule wp_mono [OF wp_run_try [OF laws]]) (auto simp: wp_outer split: sum.splits)
  have clean: "wp ending (clean_up host env request started) q s (\<lambda>r' q' s'. q' = q \<and>
      (durable env \<longrightarrow> finalized run_id status (rs_transcript s) \<longrightarrow> finalized run_id status (rs_transcript s')))"
    for started q s run_id status
    using durable_pause [of env run_id status]
    by (auto simp: clean_up_def wp_simps observe_def split: prod.split sum.split)
  let ?Q = "\<lambda>q s. case q of
      None \<Rightarrow> True
    | Some ev \<Rightarrow> event_run_id (Runtime ev) = Some (rq_run_id request) \<and> is_terminal ev \<and>
        (durable env \<longrightarrow> finalized (rq_run_id request) (status_of ev) (rs_transcript s))"
  have ended: "wp ending (clean_up host env request started) q t (\<lambda>r' q s. ?Q q s)"
    if "run_post env request r q t" for started q t and r :: "exn + bool"
  proof (cases q)
    case None
    show ?thesis by (rule wp_mono [OF clean]) (auto simp: None)
  next
    case (Some ev)
    show ?thesis
      by (rule wp_mono [OF clean [of _ _ _ "rq_run_id request" "status_of ev"]]) (use that in \<open>auto simp: Some announced_def\<close>)
  qed
  have "wp ending (gfinally (gcatch (run_try host env request fuel) (outer_handler env request))
      (clean_up host env request started)) None t (\<lambda>r q s. ?Q q s)" for started t
    unfolding wp_gfinally
    by (rule wp_mono [OF caught], rule wp_mono [OF ended]) (auto split: sum.split)
  then show ?thesis
    by (simp add: run_stream_def wp_gbind [of _ "effect _"] wp_gbind [of _ "reading _"] wp_small)
qed

lemma ending_accepts: "accepts ending q es = Some q' \<Longrightarrow>
   (case q of
      Some _ \<Rightarrow> es = [] \<and> q' = q
    | None \<Rightarrow> (case q' of
        None \<Rightarrow> list_all (\<lambda>ev. \<not> is_terminal ev) es
      | Some ev \<Rightarrow> \<exists>front. es = front @ [ev] \<and> list_all (\<lambda>ev. \<not> is_terminal ev) front))"
proof (induction es arbitrary: q)
  case (Cons ev es)
  show ?case
  proof (cases "q = None \<and> \<not> is_terminal ev")
    case True
    then have "accepts ending None es = Some q'" using Cons.prems by simp
    note rest = Cons.IH [OF this]
    show ?thesis
    proof (cases q')
      case None
      then show ?thesis using rest True by simp
    next
      case (Some last_ev)
      then obtain front where "es = front @ [last_ev]" "list_all (\<lambda>ev. \<not> is_terminal ev) front" using rest by auto
      then show ?thesis using Some True by (auto intro!: exI [of _ "ev # front"])
    qed
  next
    case False
    then show ?thesis using Cons Cons.IH [of "Some ev"] by (cases q) auto
  qed
qed (auto split: option.split)

text \<open>C1: A run announces its end at most once, last, and only after it is committed: whatever the vendor, the
tools, the policies and the other tasks do, a terminal event is the last event of the stream, it
carries the run's id, and when it is yielded the transcript already holds the operation that
finalizes the run with the status the event reports.\<close>

theorem terminal_event_is_last_and_committed:
  assumes "\<And>t P. assemble host env request t = Inr P \<Longrightarrow> execution_port_laws P" and "durable env"
    and "drain (run_stream host env request fuel) s = (front @ ev # later, r, s')" and "is_terminal ev"
  shows "later = [] \<and> list_all (\<lambda>e. \<not> is_terminal e) front \<and>
    event_run_id (Runtime ev) = Some (rq_run_id request) \<and>
    finalized (rq_run_id request) (status_of ev) (rs_transcript s')"
proof -
  obtain q where q: "accepts ending None (front @ ev # later) = Some q"
    and post: "case q of None \<Rightarrow> True | Some ev \<Rightarrow> event_run_id (Runtime ev) = Some (rq_run_id request) \<and> is_terminal ev \<and>
        (durable env \<longrightarrow> finalized (rq_run_id request) (status_of ev) (rs_transcript s'))"
  proof -
    have "wp ending (run_stream host env request fuel) None s (\<lambda>r q s. case q of
        None \<Rightarrow> True
      | Some ev \<Rightarrow> event_run_id (Runtime ev) = Some (rq_run_id request) \<and> is_terminal ev \<and>
          (durable env \<longrightarrow> finalized (rq_run_id request) (status_of ev) (rs_transcript s)))"
      by (rule wp_run_stream) (rule assms(1))
    then show thesis
      unfolding wp_drain assms(3) prod.case by (cases "accepts ending None (front @ ev # later)") (auto intro: that)
  qed
  from ending_accepts [OF q] assms(4) obtain ev' front' where "q = Some ev'" and
    split: "front @ ev # later = front' @ [ev']" "list_all (\<lambda>e. \<not> is_terminal e) front'"
    by (cases q) auto
  moreover from split assms(4) have "later = []" by (cases later rule: rev_cases) auto
  ultimately show ?thesis using post assms(2) by auto
qed

section \<open>A concrete run\<close>

definition ported_host :: runtime_host where
  "ported_host = demo_host\<lparr>rh_ports :=
     \<lparr>po_steps = Some (\<lambda>_. Inr (ep_prepare demo_ports, None)), po_model = Some (\<lambda>_. Inr (ep_model demo_ports)),
      po_tools = Some (\<lambda>_. Inr (ep_tools demo_ports)), po_completion = Some (\<lambda>_. Inr (ep_complete demo_ports))\<rparr>\<rparr>"

text \<open>A run that only records its input: the entry needs no model.\<close>

definition completed_request :: run_request where
  "completed_request = demo_request\<lparr>rq_entry := CompletedEntry, rq_input_items := [plain_message USER (Some ''hi'')]\<rparr>"

lemma ported_laws: "assemble ported_host env request t = Inr P \<Longrightarrow> execution_port_laws P"
  using demo_laws by (simp add: assemble_def ported_host_def from_factory_def Let_def demo_ports_def)

lemma quiet_durable: "durable quiet"
  by (simp add: durable_def quiet_def)

definition fresh_state :: run_state where
  "fresh_state = demo_state\<lparr>rs_transcript := new_transcript []\<rparr>"

abbreviation demo_run :: "runtime_event list \<times> (exn + bool) \<times> run_state" where
  "demo_run \<equiv> drain (run_stream ported_host quiet completed_request 1) fresh_state"

definition collecting :: "runtime_event list \<Rightarrow> runtime_event \<Rightarrow> runtime_event list option" where
  "collecting es ev = Some (es @ [ev])"

lemma accepts_collecting: "accepts collecting xs es = Some (xs @ es)"
  by (induction es arbitrary: xs) (simp_all add: collecting_def)

text \<open>Evaluation from the outside in: the continuations are not simplified before they are reached.\<close>

lemma wp_lazy: "g = g' \<Longrightarrow> q = q' \<Longrightarrow> s = s' \<Longrightarrow> wp \<delta> g q s Q = wp \<delta> g' q' s' Q"
  and gbind_lazy: "g = g' \<Longrightarrow> gbind g k = gbind g' k"
  and gcatch_lazy: "g = g' \<Longrightarrow> gcatch g h = gcatch g' h"
  and gfinally_lazy: "g = g' \<Longrightarrow> gfinally g f = gfinally g' f"
  and act_lazy: "act a = act a" and effect_lazy: "effect u = effect u" and reading_lazy: "reading p = reading p"
  by simp_all

lemmas lazy = wp_lazy gbind_lazy gcatch_lazy gfinally_lazy act_lazy effect_lazy reading_lazy

lemma wp_act_once: "wp \<delta> (act f) q s Q \<longleftrightarrow> (case f s of (x, s') \<Rightarrow> Q x q s')"
  by (simp add: wp_act split: prod.split)

lemmas run_defs = run_stream_def begin_run_def arm_run_def run_try_def wait_cancellable_def
  run_body_def succeed_def commit_terminal_def hand_over_def mark_terminal_def emit_def awaiting_def clean_up_def

lemmas start_defs = ported_host_def demo_host_def completed_request_def demo_request_def default_execution_limits_def
  fresh_state_def demo_state_def new_run_state_def app_current_def fresh_snapshot_def demo_app_def fixed_resolve_def
  accept_resolution_def demo_fixed_def open_session_def new_session_def execution_budget_def assemble_def from_factory_def
lemmas stop_defs = raise_if_stopped_def stop_reason_now_def first_reason_def reason_set_def new_control_def consumer_closed_def
  notify_consumer_closed_def trigger_def
lemmas observer_defs = new_observer_def observer_start_def observe_def on_event_def put_nowait_def observer_aclose_def pump_def
  timed_def
lemmas record_defs = on_transcript_def record_input_def finalize_run_def check_fail_def replay_def new_transcript_def
  next_id_def append_message_def put_new_def store_op_def finalize_op_def new_app_state_def

lemma demo_run_wp: "wp collecting (run_stream ported_host quiet completed_request 1) [] fresh_state
    (\<lambda>r es s. r = Inr True \<and> es = [RunStarted ''r'' \<lparr>rt_value = ''chat''\<rparr>, RunSucceeded ''r''])"
  by (simp add: run_defs wp_gbind wp_gcatch wp_gfinally wp_act_once wp_small collecting_def Let_def
      start_defs stop_defs observer_defs record_defs cong: lazy)

lemma demo_run_eq:
  "demo_run = ([RunStarted ''r'' \<lparr>rt_value = ''chat''\<rparr>] @ RunSucceeded ''r'' # [], Inr True, snd (snd demo_run))"
  using demo_run_wp by (cases demo_run) (simp add: wp_drain accepts_collecting)

theorem terminal_event_is_last_and_committed_witness:
  "finalized ''r'' SUCCEEDED (rs_transcript (snd (snd demo_run)))"
proof -
  have "rq_run_id completed_request = ''r''" by (simp add: completed_request_def demo_request_def)
  with terminal_event_is_last_and_committed [OF ported_laws quiet_durable demo_run_eq] show ?thesis by simp
qed

end
