(* ===== verification/Run_Invariants.thy ===== *)
theory Run_Invariants imports Guards Runner_Facts begin

text \<open>
  An invariant of a run that every pipeline keeps.  The locale states what it may depend on: the transcript,
  which the pipelines change by their recording calls, the control, the clock and the runner's
  flag, which they do not touch, and the external work, which they only add to.
\<close>

section \<open>Recording calls\<close>

text \<open>The ids of the pipelines' operations end differently from the ids of finalizations.\<close>

definition ordinary_op :: "string \<Rightarrow> bool" where
  "ordinary_op op \<longleftrightarrow> last op \<in> set digits \<union> {CHR ''l'', CHR ''s''}"

lemma ordinary_ops [simp]:
  "ordinary_op (delta_op i t a n)" "ordinary_op (final_op i t a)" "ordinary_op (calls_op i t)" "ordinary_op (results_op i t)"
  using last_op [of i t] by (simp_all add: ordinary_op_def del: list.set)

lemma ordinary_input [simp]: "ordinary_op (run_id @ '':input:'' @ int_str n)"
  by (simp add: ordinary_op_def last_int_str_digit del: list.set)

lemma finalize_not_ordinary: "ordinary_op op \<Longrightarrow> op \<noteq> finalize_op run_id status"
  by (cases status) (auto simp: ordinary_op_def finalize_op_def)

lemma upsert_text_faults: "mt_fail_ops (snd (upsert_text key tgt fresh revise t)) = mt_fail_ops t"
  by (simp add: upsert_text_def append_message_def replace_message_def next_id_def Let_def split: option.split)

lemma append_all_faults: "mt_fail_ops (snd (append_all tgt ms t)) = mt_fail_ops t"
  by (induction ms arbitrary: t) (auto simp: append_message_def split: option.split)

lemma again_faults:
  "mt_fail_ops (snd (again_message r t)) = mt_fail_ops t" "mt_fail_ops (snd (again_batch r' t)) = mt_fail_ops t"
  by (simp_all add: again_message_def again_batch_def split: sum.split option.split)

lemma no_faults_andthen:
  "mt_fail_ops (snd r) = {} \<Longrightarrow> (\<And>a s. mt_fail_ops s = {} \<Longrightarrow> mt_fail_ops (snd (k a s)) = {}) \<Longrightarrow>
   mt_fail_ops (snd (andthen r k)) = {}"
  by (rule andthen_keeps [where P = "\<lambda>t. mt_fail_ops t = {}"])

lemma check_fail_none: "mt_fail_ops t = {} \<Longrightarrow> check_fail op t = (Inr (), t)"
  by (simp add: check_fail_def)

lemma pair_results_faults: "mt_fail_ops t = {} \<Longrightarrow> mt_fail_ops (snd (pair_results run n tgt op known rs t)) = {}"
  by (induction rs arbitrary: t) (auto simp: next_id_def intro!: no_faults_andthen split: option.split)

text \<open>Without injected faults a recording call injects none.\<close>

lemma op_no_faults:
  assumes "mt_fail_ops t = {}" and "op_id c = Some op"
  shows "mt_fail_ops (snd (apply_op c t)) = {}"
proof (cases c)
  case (OpInput run tgt m op')
  with assms show ?thesis
    by (auto simp: record_input_def check_fail_none again_faults next_id_def append_message_def Let_def split: option.split)
next
  case (OpTextDelta run step tgt body op' att prev)
  with assms show ?thesis
    by (auto simp: record_text_delta_def check_fail_none again_faults Let_def upsert_text_faults
        pair_results_faults intro!: no_faults_andthen split: option.split)
next
  case (OpTextFinal run step tgt body reas calls op' att prev)
  with assms show ?thesis
    by (auto simp: record_text_final_def check_fail_none again_faults Let_def upsert_text_faults
        pair_results_faults intro!: no_faults_andthen split: option.split)
next
  case (OpToolCalls run step tgt calls body reas op' prev att)
  with assms show ?thesis
    by (auto simp: record_tool_calls_def check_fail_none again_faults Let_def upsert_text_faults
        pair_results_faults intro!: no_faults_andthen split: option.split sum.split)
next
  case (OpToolResults run step tgt results op' prev)
  with assms show ?thesis
    by (auto simp: record_tool_results_def check_fail_none Let_def append_all_faults
        pair_results_faults intro!: no_faults_andthen split: option.split sum.split prod.split)
qed (use assms in \<open>auto simp: finalize_run_def check_fail_none Let_def split: sum.split\<close>)

section \<open>The invariant and the pipelines\<close>

locale run_guard =
  fixes env :: environment and \<delta> :: "'q \<Rightarrow> runtime_event \<Rightarrow> 'q option" and I :: "'q \<Rightarrow> run_state \<Rightarrow> bool"
    and run_id :: string
  assumes suspended: "I q s \<Longrightarrow> I q (pause env s)"
    and frame: "I q s \<Longrightarrow> rs_transcript s' = rs_transcript s \<Longrightarrow> rs_control s' = rs_control s \<Longrightarrow> rs_now s' = rs_now s \<Longrightarrow>
      rs_yielded_terminal s' = rs_yielded_terminal s \<Longrightarrow> set (rs_external_work s) \<subseteq> set (rs_external_work s') \<Longrightarrow> I q s'"
    and recorded: "I q s \<Longrightarrow> op_id c = Some op \<Longrightarrow> ordinary_op op \<Longrightarrow>
      I q (s\<lparr>rs_transcript := snd (apply_op c (rs_transcript s))\<rparr>)"
    and accepted: "I q s \<Longrightarrow> from_loop run_id ev \<Longrightarrow>
      (\<And>i w. ev = ExternalWorkDeclared i w \<Longrightarrow> w \<in> set (rs_external_work s)) \<Longrightarrow> \<exists>q'. \<delta> q ev = Some q' \<and> I q' s"
begin

lemma framed [simp]:
  "I q s \<Longrightarrow> I q (observe ev s)" "I q s \<Longrightarrow> I q (s\<lparr>rs_ledger := l\<rparr>)" "I q s \<Longrightarrow> I q (s\<lparr>rs_policy_calls := n\<rparr>)"
  "I q s \<Longrightarrow> I q (s\<lparr>rs_completion_policy_calls := n\<rparr>)" "I q s \<Longrightarrow> I q (s\<lparr>rs_target := tgt\<rparr>)" "I q s \<Longrightarrow> I q (s\<lparr>rs_extra := cs\<rparr>)"
  "I q s \<Longrightarrow> I q (s\<lparr>rs_app := app\<rparr>)" "I q s \<Longrightarrow> I q (s\<lparr>rs_caps := caps, rs_registry := reg\<rparr>)"
  "I q s \<Longrightarrow> I q (s\<lparr>rs_cache := c\<rparr>)" "I q s \<Longrightarrow> I q (s\<lparr>rs_summaries := m\<rparr>)" "I q s \<Longrightarrow> I q (declare_work w s)"
  "I q s \<Longrightarrow> I q (s\<lparr>rs_observer := ob\<rparr>)"
  by (erule frame; auto simp: observe_def declare_work_def)+

lemma guard_event: "I q s \<Longrightarrow> from_loop run_id ev \<Longrightarrow> \<forall>i w. ev \<noteq> ExternalWorkDeclared i w \<Longrightarrow> guard \<delta> I (yield ev) q s"
  using accepted [of q s ev] by (auto intro: guard_yield)

lemma guard_recording:
  "I q s \<Longrightarrow> (\<And>t. snd (f t) = snd (apply_op c t)) \<Longrightarrow> op_id c = Some op \<Longrightarrow> ordinary_op op \<Longrightarrow>
   guard \<delta> I (recording env f) q s"
  unfolding recording_def
  by (intro guard_gbind guard_wait guard_act suspended) (simp_all add: on_transcript_def recorded)

lemmas guard_steps = guard_gbind guard_gcatch guard_gfinally guard_act guard_effect guard_wait guard_event guard_recording

lemma guard_completion:
  assumes policy: "\<And>command receipt q s. I q s \<Longrightarrow> I q (snd (policy command receipt s))" and "I q s"
  shows "guard \<delta> I (complete env policy command) q s"
proof -
  have final: "guard \<delta> I (recording env (record_completion command)) q s" if "I q s" for q s
  proof -
    let ?i = "ps_identity (cm_step command)" and ?tgt = "ps_record_target (cm_step command)" and ?r = "cm_result command"
    show ?thesis
      by (rule guard_recording [OF that, where op = "final_op ?i ?tgt (mres_attempt ?r)" and
          c = "OpTextFinal (si_run_id ?i) (si_step_no ?i) ?tgt (mres_text ?r) (mres_reasoning ?r) (mres_tool_calls ?r)
            (final_op ?i ?tgt (mres_attempt ?r)) (mres_attempt ?r) None"])
        (simp_all add: record_completion_def Let_def)
  qed
  show ?thesis
    unfolding complete_def
    by (auto intro!: guard_steps final simp: policy assms(2))
qed

lemma guard_low_event:
  assumes "I q s"
  shows "guard \<delta> I (low_event env step attempt ev c) q s"
proof -
  let ?i = "ps_identity step" and ?tgt = "ps_record_target step" and ?n = "at_delta_n c + 1"
  have delta: "guard \<delta> I (recording env (record_text_delta (si_run_id ?i) (si_step_no ?i) ?tgt body
      (delta_op ?i ?tgt attempt ?n) attempt (at_previous c))) q s" for body
    by (rule guard_recording [OF assms, where op = "delta_op ?i ?tgt attempt ?n" and
        c = "OpTextDelta (si_run_id ?i) (si_step_no ?i) ?tgt body (delta_op ?i ?tgt attempt ?n) attempt (at_previous c)"])
      simp_all
  show ?thesis
    using assms delta by (cases ev) (auto simp: low_event_def Let_def intro!: guard_gbind guard_event)
qed

lemma guard_run_attempt:
  assumes "I q s"
  shows "guard \<delta> I (run_attempt env idle lm step attempt) q s"
proof -
  have events: "guard \<delta> I (attempt_events env idle lm step attempt) q s"
    unfolding attempt_events_def
    by (rule guard_gbind)
      (auto simp: assms failed_attempt_def split: prod.split intro!: guard_consume steady_iterate suspended guard_low_event)
  have final: "guard \<delta> I (recording env (record_final step attempt previous result)) q s" if "I q s" for previous result q s
  proof -
    let ?i = "ps_identity step" and ?tgt = "ps_record_target step"
    show ?thesis
      by (rule guard_recording [OF that, where op = "final_op ?i ?tgt attempt" and
          c = "OpTextFinal (si_run_id ?i) (si_step_no ?i) ?tgt (mres_text result) (mres_reasoning result) (mres_tool_calls result)
            (final_op ?i ?tgt attempt) attempt previous"])
        (simp_all add: record_final_def Let_def)
  qed
  show ?thesis
    unfolding run_attempt_def
    by (rule guard_gbind [OF events]) (auto intro!: guard_gbind final guard_event split: option.split)
qed

lemma guard_one_attempt:
  assumes "I q s"
  shows "guard \<delta> I (one_attempt env idle lm step attempt) q s"
  unfolding one_attempt_def
  by (auto simp: assms retry_error_def intro!: guard_gbind guard_gfinally guard_effect guard_pass_until guard_run_attempt)

lemma guard_model:
  assumes "I q s"
  shows "guard \<delta> I (model_stream env idle lm step) q s"
proof -
  have sleep: "I q (snd (sleep_cancellable env d s))" if "I q s" for d q s
    using that by (simp add: sleep_state suspended)
  have reserved: "I q (snd (reserve_tokens n s))" if "I q s" for n q s
    using that by (simp add: reserve_tokens_def)
  have "guard \<delta> I (attempt_loop env idle lm step n attempt e) q s" if "I q s" for n attempt e q s
    using that
  proof (induction n arbitrary: attempt e q s)
    case (Suc n)
    show ?case
      using Suc by (auto simp: sleep reserved intro!: guard_gbind guard_act guard_one_attempt)
  qed simp
  then show ?thesis by (simp add: model_stream_def Let_def assms)
qed

lemma guard_tools:
  assumes policy: "\<And>outcomes q s. I q s \<Longrightarrow> guard \<delta> I (policy outcomes command) q s" and "I q s"
  shows "guard \<delta> I (execute env jv invoker policy command) q s"
proof -
  have forwarded: "guard \<delta> I (forward i call report) q s" if "I q s" for i call report q s
  proof (cases report)
    case (Declare w)
    have "w \<in> set (rs_external_work (declare_work w s))" by (simp add: declare_work_def)
    moreover have "I q (declare_work w s)" using that by simp
    ultimately obtain q' where "\<delta> q (ExternalWorkDeclared i w) = Some q'" "I q' (declare_work w s)"
      using accepted [of q "declare_work w s" "ExternalWorkDeclared i w"] by auto
    then show ?thesis using that by (simp add: forward_def Declare effect_def yield_def)
  next
    case (Progress payload)
    show ?thesis unfolding forward_def Progress report.case by (rule guard_event [OF that]) simp_all
  qed
  have reports: "guard \<delta> I (forward_all env i call rs) q s" if "I q s" for i call rs q s
    using that by (induction rs arbitrary: q s) (auto intro!: guard_gbind guard_wait suspended forwarded)
  have calls: "guard \<delta> I (call_loop env invoker command cs outcomes) q s" if "I q s" for cs outcomes q s
    using that
  proof (induction cs arbitrary: outcomes q s)
    case (Cons call cs)
    show ?case
      using Cons by (auto simp: invoke_def observe_since_def intro!: guard_gbind guard_act guard_effect guard_event reports split: prod.split)
  qed simp
  have batch: "guard \<delta> I (recording env (record_batch command)) q s" if "I q s" for q s
    by (rule guard_recording [OF that, where op = "calls_op (tb_identity command) (tb_record_target command)" and
        c = "OpToolCalls (si_run_id (tb_identity command)) (si_step_no (tb_identity command)) (tb_record_target command)
          (tb_calls command) (tb_assistant_text command) (tb_reasoning command)
          (calls_op (tb_identity command) (tb_record_target command)) (tb_previous_receipt command) (tb_attempt command)"])
      (simp_all add: record_batch_def)
  have results: "guard \<delta> I (recording env (record_outcomes command receipt outcomes)) q s" if "I q s" for receipt outcomes q s
    by (rule guard_recording [OF that, where op = "results_op (tb_identity command) (tb_record_target command)" and
        c = "OpToolResults (si_run_id (tb_identity command)) (si_step_no (tb_identity command)) (tb_record_target command)
          (map io_result outcomes) (results_op (tb_identity command) (tb_record_target command)) receipt"])
      (simp_all add: record_outcomes_def)
  show ?thesis
    unfolding execute_def observe_since_def
    by (auto simp: assms(2) intro!: guard_gbind guard_gcatch guard_act guard_effect guard_event calls batch results policy)
qed

lemma guard_default_policy:
  assumes "I q s"
  shows "guard \<delta> I (default_result_policy env jv outcomes command) q s"
proof -
  have activated: "I q (snd (activate_in jv extra s))" if "I q s" for extra q s
    using that by (simp add: activate_in_def split: prod.split)
  have committed: "I q (snd (commit_in payload s))" if "I q s" for payload q s
    using that by (simp add: commit_in_def split: prod.split)
  have one: "guard \<delta> I (apply_outcome env jv x) q s" if "I q s" for x q s
    using that
    by (auto simp: apply_outcome_def activated committed suspended intro!: guard_gbind guard_act guard_effect split: option.split)
  have "guard \<delta> I (apply_outcomes env jv xs) q s" if "I q s" for xs q s
    using that by (induction xs arbitrary: q s) (auto intro!: guard_gbind one)
  then show ?thesis by (auto simp: default_result_policy_def assms intro!: guard_gbind)
qed

lemma prepare_keeps:
  assumes "I q s"
  shows "I q (snd (prepare p env i s))"
proof -
  have round: "I q (snd (read_round env s))" if "I q s" for s
    using that by (auto simp: read_round_def Let_def suspended split: sum.split prod.split)
  have loop: "I q (snd (read_loop env n s))" if "I q s" for n s
    using that
  proof (induction n arbitrary: s)
    case (Suc n)
    show ?case
      unfolding read_loop.simps
      by (rule andthen_keeps [where P = "I q"]) (auto simp: round Suc split: option.split)
  qed simp
  have collected: "I q (snd (collect p env app k cs s))" if "I q s" for app k cs s
    by (rule collect_keeps [where P = "I q"]) (auto simp: suspended that)
  have projected: "I q (snd (project p prompt key available s))" if "I q s" for prompt key available s
    using that by (auto simp: project_def split: option.split sum.split)
  show ?thesis
    unfolding prepare_def read_consistent_def
    by (rule andthen_keeps [where P = "I q"], rule loop [OF assms])
      (auto simp: Let_def intro!: andthen_keeps [where P = "I q"] collected projected split: prod.split sum.split)
qed

text \<open>The agent loop, with ports that keep the invariant.\<close>

definition ports_keep :: "execution_ports \<Rightarrow> bool" where
  "ports_keep P \<longleftrightarrow> (\<forall>q s. I q s \<longrightarrow> (\<forall>i. I q (snd (ep_prepare P i s))) \<and> (\<forall>step. guard \<delta> I (ep_model P step) q s) \<and>
     (\<forall>command. guard \<delta> I (ep_tools P command) q s) \<and> (\<forall>completion. guard \<delta> I (ep_complete P completion) q s))"

lemma guard_phase:
  "(\<And>q s. I q s \<Longrightarrow> guard \<delta> I g q s) \<Longrightarrow> I q s \<Longrightarrow> guard \<delta> I (phase_loop env idle C keep missing g) q s"
  unfolding phase_loop_def
  by (rule guard_gbind, rule guard_pass, rule guard_iterate_strict) (auto simp: suspended split: option.split)

lemma guard_prepare: "ports_keep P \<Longrightarrow> I q s \<Longrightarrow> guard \<delta> I (wait_cancellable env (act (ep_prepare P i))) q s"
  by (auto simp: ports_keep_def suspended intro!: guard_wait_cancellable)

lemma guard_waiting: "I q s \<Longrightarrow> guard \<delta> I (wait_for_host run_id d) q s"
  by (auto simp: wait_for_host_def intro!: guard_gbind guard_event)

lemma guard_decide: "ports_keep P \<Longrightarrow> I q s \<Longrightarrow> guard \<delta> I (decide_phase env idle P i step result) q s"
  by (auto simp: decide_phase_def tools_phase_def completion_phase_def ports_keep_def intro!: guard_gbind guard_event guard_phase)

lemma guard_rounds: "ports_keep P \<Longrightarrow> I q s \<Longrightarrow> guard \<delta> I (agent_rounds env idle P limits run_id fuel c) q s"
proof (induction fuel arbitrary: c q s)
  case (Suc fuel)
  have model: "guard \<delta> I (model_phase env P step) q s" if "I q s" for step q s
    using Suc.prems(1) that by (auto simp: model_phase_def ports_keep_def intro!: guard_phase)
  show ?case
    using Suc.prems
    by (auto simp: allocate_state intro!: guard_gbind guard_act guard_event guard_prepare model guard_decide Suc.IH guard_waiting
        split: flow.split)
qed simp

lemma guard_agent:
  assumes "ports_keep P" and "rq_run_id request = run_id" and "I q s"
  shows "guard \<delta> I (agent_run env idle P limits consumed request fuel) q s"
proof -
  have tools: "guard \<delta> I (tools_phase env idle P command) q s" if "I q s" for command q s
    using assms(1) that by (auto simp: tools_phase_def ports_keep_def intro!: guard_phase)
  show ?thesis
    unfolding agent_run_def Let_def assms(2)
    using assms(1,3)
    by (auto simp: allocate_state intro!: guard_gbind guard_act guard_event guard_prepare tools guard_rounds guard_waiting
        split: execution_entry.split flow.split)
qed

lemma default_ports_keep:
  assumes "\<And>p outcomes command q s. rh_result_policy host = Some p \<Longrightarrow> I q s \<Longrightarrow> I q (snd (p outcomes command s))"
    and "\<And>p command receipt q s. rh_completion_policy host = Some p \<Longrightarrow> I q s \<Longrightarrow> I q (snd (p command receipt s))"
  shows "ports_keep (default_ports host env request)"
proof -
  have tools: "guard \<delta> I (ep_tools (default_ports host env request) command) q s" if "I q s" for command q s
    using that assms(1)
    by (cases "rh_result_policy host")
      (auto simp: default_ports_def intro!: guard_tools guard_default_policy guard_act)
  have completion: "guard \<delta> I (ep_complete (default_ports host env request) command) q s" if "I q s" for command q s
    using that assms(2)
    by (cases "rh_completion_policy host")
      (auto simp: default_ports_def finish_policy_def intro!: guard_completion)
  show ?thesis
    using tools completion
    by (simp add: ports_keep_def) (simp add: default_ports_def prepare_keeps guard_model)
qed

end

end
