(* ===== verification/External_Work.thy ===== *)
theory External_Work imports Run_Invariants begin

text \<open>
  A cancelled run lists the external work it declared.  The automaton collects the declarations; the
  invariant says that they are all kept in the session.
\<close>

fun work_next :: "external_work_ref set \<Rightarrow> runtime_event \<Rightarrow> external_work_ref set option" where
  "work_next q (ExternalWorkDeclared i w) = Some (insert w q)"
| "work_next q (RunCancelled run_id reason works) = (if q \<subseteq> set works then Some q else None)"
| "work_next q ev = Some q"

abbreviation work_known :: "external_work_ref set \<Rightarrow> run_state \<Rightarrow> bool" where
  "work_known q s \<equiv> q \<subseteq> set (rs_external_work s)"

text \<open>Other tasks, whatever else they do, leave the list of the run's external work alone.\<close>

definition work_shielded :: "environment \<Rightarrow> environment" where
  "work_shielded env = env\<lparr>env_stores := (\<lambda>n s. (env_stores env n s)\<lparr>rs_external_work := rs_external_work s\<rparr>)\<rparr>"

lemma work_shielded_id: "(\<And>n s. rs_external_work (env_stores env n s) = rs_external_work s) \<Longrightarrow> work_shielded env = env"
proof -
  assume keep: "\<And>n s. rs_external_work (env_stores env n s) = rs_external_work s"
  have "(env_stores env n s)\<lparr>rs_external_work := rs_external_work s\<rparr> = env_stores env n s" for n s
    by (simp flip: keep [of n s])
  then show ?thesis by (simp add: work_shielded_def)
qed

lemma pause_shielded [simp]: "rs_external_work (pause (work_shielded env) s) = rs_external_work s"
  by (simp add: pause_def work_shielded_def Let_def)

lemma work_next_other: "is_terminal ev \<longrightarrow> is_waiting ev \<Longrightarrow> \<forall>i w. ev \<noteq> ExternalWorkDeclared i w \<Longrightarrow> work_next q ev = Some q"
  by (cases ev) auto

interpretation ew: run_guard "work_shielded env" work_next work_known run_id for env run_id
proof unfold_locales
  fix q s ev
  assume "work_known q s" "from_loop run_id ev" and known: "\<And>i w. ev = ExternalWorkDeclared i w \<Longrightarrow> w \<in> set (rs_external_work s)"
  then show "\<exists>q'. work_next q ev = Some q' \<and> work_known q' s"
    by (cases ev) (auto simp: from_loop_def)
qed auto

section \<open>The runner\<close>

lemma guard_emit:
  "work_known q s \<Longrightarrow> work_next q ev = Some q' \<Longrightarrow> work_known q' s \<Longrightarrow> guard work_next work_known (emit (work_shielded env) ev) q s"
  by (auto simp: emit_def yield_def effect_def)

lemma guard_awaiting:
  "work_known q s \<Longrightarrow> (\<And>s. rs_external_work (snd (f s)) = rs_external_work s) \<Longrightarrow>
   guard work_next work_known (awaiting (work_shielded env) f) q s"
  by (auto simp: awaiting_def intro!: guard_gbind guard_effect guard_act)

lemma awaiting_silent: "all_events (\<lambda>_. False) (awaiting env f)" "all_events (\<lambda>_. False) (commit_terminal env run_id status ev)"
  by (auto simp: awaiting_def commit_terminal_def intro!: all_events_gbind)

lemma guard_commit: "work_known q s \<Longrightarrow> guard work_next work_known (commit_terminal (work_shielded env) run_id status ev) q s"
  by (auto simp: commit_terminal_def on_transcript_def observe_def intro!: guard_gbind guard_awaiting guard_effect)

lemma guard_hand_over:
  "work_known q s \<Longrightarrow> work_next q ev = Some q' \<Longrightarrow> work_known q' s \<Longrightarrow>
   guard work_next work_known (hand_over (work_shielded env) once ev) q s"
  by (auto simp: hand_over_def mark_terminal_def emit_def yield_def effect_def reading_def)

lemma guard_end:
  "work_known q s \<Longrightarrow> work_next q ev = Some q \<Longrightarrow>
   guard work_next work_known (gbind (commit_terminal (work_shielded env) run_id status ev) (\<lambda>_. hand_over (work_shielded env) once ev)) q s"
  by (rule guard_silent [OF awaiting_silent(2) guard_commit]) (auto intro: guard_hand_over)

lemma guard_succeed: "work_known q s \<Longrightarrow> guard work_next work_known (succeed (work_shielded env) request) q s"
  unfolding succeed_def by (rule guard_end) simp_all

lemma guard_fail: "work_known q s \<Longrightarrow> guard work_next work_known (fail_run (work_shielded env) request e) q s"
  unfolding fail_run_def Let_def by (rule guard_end) simp_all

lemma guard_cancel: "work_known q s \<Longrightarrow> guard work_next work_known (cancel_run (work_shielded env) request e) q s"
  unfolding cancel_run_def
  by (rule guard_act_then) (auto simp: cancelled_event_def intro!: guard_end split: sum.splits)

lemma guard_outer: "work_known q s \<Longrightarrow> guard work_next work_known (outer_handler (work_shielded env) request e) q s"
  by (auto simp: outer_handler_def intro!: guard_gbind guard_cancel guard_fail)

lemma guard_inner:
  assumes "\<And>f tgt s. ep_invalidate P = Some f \<Longrightarrow> rs_external_work (snd (f tgt s)) = rs_external_work s" and "work_known q s"
  shows "guard work_next work_known (inner_handler (work_shielded env) request P e) q s"
proof -
  have invalid: "guard work_next work_known (invalidate_projection (work_shielded env) P) q s" if "work_known q s" for q s
    using assms(1) that by (auto simp: invalidate_projection_def intro!: guard_gcatch guard_awaiting split: option.split)
  show ?thesis
    using assms(2)
    by (auto simp: inner_handler_def on_transcript_def intro!: guard_gbind guard_cancel guard_fail guard_awaiting invalid)
qed

text \<open>The loop over the agent's events: its body decides which of them go on to the consumer.\<close>

lemma guard_each_to:
  assumes "guard \<delta> I g q s"
    and body: "\<And>ev q q' s (k :: 'r option \<Rightarrow> 'r gen). I q s \<Longrightarrow> \<delta> q ev = Some q' \<Longrightarrow> I q' s \<Longrightarrow> (\<And>s. I q' s \<Longrightarrow> guard \<delta> I (k None) q' s) \<Longrightarrow>
      (\<And>r q s. I q s \<Longrightarrow> guard \<delta> I (k (Some r)) q s) \<Longrightarrow> guard \<delta> I (gbind (b ev) k) q s"
  shows "guard \<delta> I (each_to g b fin :: 'r gen) q s"
  using assms(1)
proof (induction g arbitrary: q s)
  case (Yield ev g c)
  then obtain q' where q': "\<delta> q ev = Some q'" "I q s" "I q' s" "\<And>t. I q' t \<Longrightarrow> guard \<delta> I g q' t" by auto
  have "guard \<delta> I (each_to g b fin) q' t" if "I q' t" for t
    by (rule Yield.IH(1)) (rule q'(4) [OF that])
  moreover have "guard \<delta> I (gbind (b ev) (case_option (each_to g b fin) Ret)) q s"
    by (rule body [OF q'(2,1,3)]) (simp_all add: calculation)
  ultimately show ?case by simp
qed auto

lemma guard_loop_body:
  assumes "work_known q s" and "work_next q ev = Some q'" and "work_known q' s"
    and "\<And>s. work_known q' s \<Longrightarrow> guard work_next work_known (k None) q' s"
    and "\<And>r q s. work_known q s \<Longrightarrow> guard work_next work_known (k (Some r)) q s"
  shows "guard work_next work_known (gbind (loop_body (work_shielded env) request ev) k) q s"
proof -
  have committed: "guard work_next work_known (gbind (commit_terminal (work_shielded env) (rq_run_id request) WAITING ev)
      (\<lambda>_. gbind mark_terminal (\<lambda>_. gbind (reading consumer_closed) (\<lambda>closed.
        gbind (gbind (if closed then Ret () else emit (work_shielded env) ev) (\<lambda>_. Ret (Some Returned))) k)))) q s"
    if "is_waiting ev"
  proof (rule guard_silent [OF awaiting_silent(2) guard_commit [OF assms(1)]])
    fix t assume known: "work_known q t"
    have q': "q' = q" using that assms(2) by (cases ev) auto
    then show "guard work_next work_known (gbind mark_terminal (\<lambda>_. gbind (reading consumer_closed) (\<lambda>closed.
        gbind (gbind (if closed then Ret () else emit (work_shielded env) ev) (\<lambda>_. Ret (Some Returned))) k))) q t"
      using known assms(2,5) by (auto simp: mark_terminal_def effect_def reading_def emit_def yield_def)
  qed
  show ?thesis
    using assms committed
    by (auto simp: loop_body_def gbind_assoc reading_def effect_def emit_def yield_def observe_def)
qed

text \<open>The policies of the host do not take work off the list.\<close>

definition policies_keep_work :: "runtime_host \<Rightarrow> bool" where
  "policies_keep_work host \<longleftrightarrow>
     (\<forall>p outcomes command s. rh_result_policy host = Some p \<longrightarrow> rs_external_work (snd (p outcomes command s)) = rs_external_work s) \<and>
     (\<forall>p command receipt s. rh_completion_policy host = Some p \<longrightarrow>
        rs_external_work (snd (p command receipt s)) = rs_external_work s)"

lemma guard_run_loop:
  assumes "policies_keep_work host" and "work_known q s"
  shows "guard work_next work_known
    (run_loop host (work_shielded env) request fuel (default_ports host (work_shielded env) request)) q s"
proof -
  let ?P = "default_ports host (work_shielded env) request"
  have "ew.ports_keep ?P"
    by (rule ew.default_ports_keep) (use assms(1) in \<open>auto simp: policies_keep_work_def\<close>)
  from ew.guard_agent [OF this refl] have agent: "guard work_next work_known
      (agent_run (work_shielded env) (rh_phase_idle host) ?P (rq_limits request) (rq_consumed request) request fuel) q s"
    using assms(2) by blast
  have "guard work_next work_known (each_to (agent_run (work_shielded env) (rh_phase_idle host) ?P (rq_limits request)
      (rq_consumed request) request fuel) (loop_body (work_shielded env) request) Ended) q s"
  proof (rule guard_each_to [OF agent])
    fix ev q q' s and k :: "loop_exit option \<Rightarrow> loop_exit gen"
    assume "work_known q s" "work_next q ev = Some q'" "work_known q' s"
      "\<And>s. work_known q' s \<Longrightarrow> guard work_next work_known (k None) q' s"
      "\<And>r q s. work_known q s \<Longrightarrow> guard work_next work_known (k (Some r)) q s"
    then show "guard work_next work_known (gbind (loop_body (work_shielded env) request ev) k) q s"
      by (rule guard_loop_body)
  qed
  then show ?thesis
    unfolding run_loop_def
    by (rule guard_gbind) (auto intro!: guard_gbind guard_succeed split: loop_exit.split bool.split)
qed

lemma guard_run_body:
  assumes "policies_keep_work host" and "work_known q s"
  shows "guard work_next work_known
    (run_body host (work_shielded env) request fuel (default_ports host (work_shielded env) request)) q s"
proof -
  have inputs: "guard work_next work_known (record_inputs (work_shielded env) request n ms) q s" if "work_known q s" for n ms q s
    using that by (induction ms arbitrary: n q s) (auto intro!: guard_gbind guard_awaiting simp: on_transcript_def)
  show ?thesis
    unfolding run_body_def Let_def
    using assms by (auto intro!: guard_gbind guard_effect guard_emit inputs guard_succeed guard_run_loop simp: observe_def)
qed

text \<open>Before the session is opened nothing is declared, and the session starts with no work.\<close>

lemma guard_run_try:
  assumes "policies_keep_work host" and "rh_ports host = no_overrides"
  shows "guard work_next work_known (run_try host (work_shielded env) request fuel) {} s"
proof -
  let ?P = "default_ports host (work_shielded env) request"
  have body: "guard work_next work_known (gcatch (run_body host (work_shielded env) request fuel ?P)
      (inner_handler (work_shielded env) request ?P)) {} t" for t
    by (rule guard_gcatch [OF guard_run_body [OF assms(1)]])
      (auto intro!: guard_inner simp: default_ports_def invalidate_summary_def)
  have assembled: "guard work_next work_known (gbind (act (\<lambda>s. (assemble host (work_shielded env) request s, s))) (\<lambda>P.
       gcatch (run_body host (work_shielded env) request fuel P) (inner_handler (work_shielded env) request P))) {} t" for t
    by (rule guard_act_then) (auto simp: assemble_default [OF assms(2)] body)
  have start: "guard work_next work_known (gbind g k) {} t"
    if "all_events (\<lambda>_. False) g" "\<And>a t. guard work_next work_known (k a) {} t" for t and g :: "'z gen" and k :: "'z \<Rightarrow> bool gen"
  proof (rule guard_silent [OF that(1)])
    show "guard work_next work_known g {} t"
      using that(1) by (induction g arbitrary: t) auto
  qed (rule that(2))
  have waits: "all_events (\<lambda>_. False) (wait_cancellable (work_shielded env) (act f))"
    for f :: "run_state \<Rightarrow> (exn, 'y, run_state) outcome"
    by simp
  show ?thesis
    unfolding run_try_def
    by (intro start [OF all_events_small(3)] start [OF waits] start [OF all_events_small(6)] assembled)
qed

lemma guard_run_stream:
  assumes "policies_keep_work host" and "rh_ports host = no_overrides"
  shows "guard work_next work_known (run_stream host (work_shielded env) request fuel) {} s"
proof -
  have clean: "guard work_next work_known (clean_up host (work_shielded env) request started) q t" if "work_known q t" for started q t
    using that by (auto simp: clean_up_def observe_def intro!: guard_gbind guard_effect guard_act split: prod.split)
  have tried: "guard work_next work_known (gfinally (gcatch (run_try host (work_shielded env) request fuel)
      (outer_handler (work_shielded env) request)) (clean_up host (work_shielded env) request started)) {} t" for started t
    by (intro guard_gfinally guard_gcatch guard_run_try assms guard_outer clean)
  show ?thesis
    by (simp add: run_stream_def effect_def reading_def tried)
qed

lemma work_accepted:
  "accepts work_next q es = Some q' \<Longrightarrow> q \<union> {w. \<exists>i. ExternalWorkDeclared i w \<in> set es} \<subseteq> q'"
proof (induction es arbitrary: q)
  case (Cons ev es)
  then obtain q1 where q1: "work_next q ev = Some q1" "accepts work_next q1 es = Some q'" by (auto split: option.splits)
  then show ?case using Cons.IH [OF q1(2)] by (cases ev) (auto split: if_splits)
qed simp



end
