(* ===== verification/Demo_Cancel.thy ===== *)
theory Demo_Cancel imports External_Work begin

text \<open>
  One run evaluated in the kernel: a tool declares an external job and is then stopped by the user.  The
  rules rewrite the run from the outside in; continuations are only simplified once they are reached.
\<close>


definition flat_estimator :: estimator where
  "flat_estimator = \<lparr>est_can_estimate = (\<lambda>_. True), est_text = (\<lambda>_. Inr 0), est_schema = (\<lambda>_. Inr 0)\<rparr>"

definition work_host :: runtime_host where
  "work_host = demo_host\<lparr>rh_invoker := (\<lambda>n invocation. ([Declare demo_work], Inl (raised CancelledRunError ''user_stop''))),
     rh_compress := Some (\<lambda>ms _ _ _. Inr (ms, False)),
     rh_budget := Some \<lparr>tbp_max_prompt_tokens = 8, tbp_reserved_output_tokens = 0, tbp_estimator = flat_estimator\<rparr>\<rparr>"

definition work_request :: run_request where
  "work_request = demo_request\<lparr>rq_entry := ToolBatchEntry (tb_calls demo_batch_command) None None None False\<rparr>"

lemma host_simps [simp]:
  "rh_model work_host = demo_low" "rh_invoker work_host n invocation = ([Declare demo_work], Inl (raised CancelledRunError ''user_stop''))"
  "rh_resolve work_host request application s = (fixed_resolve demo_fixed request application, s)"
  "rh_idle work_host = False" "rh_phase_idle work_host = False" "rh_completion_policy work_host = None" "rh_result_policy work_host = None"
  "rh_contributors work_host = []" "rh_compress work_host = Some (\<lambda>ms _ _ _. Inr (ms, False))"
  "rh_budget work_host = Some \<lparr>tbp_max_prompt_tokens = 8, tbp_reserved_output_tokens = 0, tbp_estimator = flat_estimator\<rparr>"
  "rh_observer work_host x = None" "rh_close_items work_host = 9" "rh_ports work_host = no_overrides" "rh_validator work_host = accept_all"
  by (simp_all add: work_host_def demo_host_def)

lemma request_simps [simp]:
  "rq_run_id work_request = ''r''" "rq_input_items work_request = []" "rq_record_target work_request = \<lparr>rt_value = ''chat''\<rparr>"
  "rq_entry work_request = ToolBatchEntry [\<lparr>tc_call_id = ''c7'', tc_name = ''echo'', tc_arguments = []\<rparr>] None None None False"
  "rq_limits work_request = default_execution_limits" "rq_consumed work_request = \<lparr>cb_model_rounds = 0, cb_steps = 0, cb_estimated_tokens = 0\<rparr>"
  by (simp_all add: work_request_def demo_request_def demo_batch_command_def)

lemma fixed_simps [simp]:
  "cs_version demo_fixed = ''cap-1''" "cs_tools demo_fixed = [demo_tool ''echo'']" "cs_contributions demo_fixed = []"
  by (simp_all add: demo_fixed_def)

lemma provider_simps [simp]:
  "dp_request (default_provider host request s) = request" "dp_contributors (default_provider host request s) = rh_contributors host"
  "rh_budget host = Some b \<Longrightarrow> dp_budget (default_provider host request s) = b"
  "rh_compress host = Some c \<Longrightarrow> dp_compress (default_provider host request s) = c"
  by (simp_all add: default_provider_def)

lemma port_simps [simp]:
  "ep_prepare (default_ports host env request) i s = prepare (default_provider host request s) env i s"
  "rh_result_policy host = None \<Longrightarrow> ep_tools (default_ports host env request) =
     execute env (rh_validator host) (rh_invoker host) (default_result_policy env (rh_validator host))"
  "ep_invalidate (default_ports host env request) = Some (\<lambda>target s. (Inr (), invalidate_summary target s))"
  by (simp_all add: default_ports_def)

lemma eager_gbind: "gbind (act f) k = Step (\<lambda>s. snd (f s)) (\<lambda>s. case f s of (Inl e, _) \<Rightarrow> Raise e | (Inr a, _) \<Rightarrow> k a)"
 "gbind (yield ev) k2 = Yield ev (k2 ()) (Raise (raised GeneratorExit []))"
  "gbind (effect u) k2 = Step u (\<lambda>_. k2 ())"
  "gbind (reading p) k3 = Step (\<lambda>s. s) (\<lambda>s. k3 (p s))"
  "gbind (lift_sum r) k4 = (case r of Inl e \<Rightarrow> Raise e | Inr a \<Rightarrow> k4 a)"
  by (auto simp: act_def yield_def effect_def reading_def lift_sum_def fun_eq_iff split: sum.split prod.split)

lemma eager_gcatch: "gcatch (act f) h = Step (\<lambda>s. snd (f s)) (\<lambda>s. case f s of (Inl e, _) \<Rightarrow> h e | (Inr a, _) \<Rightarrow> Ret a)"
  "gcatch (effect u) h1 = Step u (\<lambda>_. Ret ())" "gcatch (reading p) h2 = Step (\<lambda>s. s) (\<lambda>s. Ret (p s))"
  "gcatch (lift_sum r) h3 = (case r of Inl e \<Rightarrow> h3 e | Inr a \<Rightarrow> Ret a)"
  by (auto simp: act_def yield_def effect_def reading_def lift_sum_def fun_eq_iff split: sum.split prod.split)

lemma more_lazy: "g = g' \<Longrightarrow> each_to g b fin = each_to g' b fin"
  and each_lazy: "g = g' \<Longrightarrow> each g b' x = each g' b' x"
  and strict_lazy: "g = g' \<Longrightarrow> q = q' \<Longrightarrow> r = r' \<Longrightarrow> strict C g q r = strict C g' q' r'"
  and pulls_lazy: "g = g' \<Longrightarrow> pulls env idle g = pulls env idle g'"
  and Step_lazy: "Step u n = Step u n"
  and Yield_lazy: "Yield ev g c = Yield ev g c" by simp_all

lemmas lazier = more_lazy each_lazy strict_lazy pulls_lazy Step_lazy Yield_lazy

lemma read_loop_3: "read_loop env 3 s = read_loop env (Suc (Suc (Suc 0))) s" by (simp add: numeral_3_eq_3)

lemmas agent_defs = run_loop_def agent_run_def phase_loop_def tools_phase_def iterate_strict_def iterate_cancellable_def loop_body_def
 allocate_def model_allowed_def beyond_def raise_if_exhausted_def entry_command_def default_execution_limits_def execute_def

lemmas prepare_defs = read_loop_3 andthen_def order_of_def snapshot_version_def summaries_get_def estimate_tools_def estimate_messages_def
  policy_estimate_messages_def prepare_def read_consistent_def read_round_def snapshot_def contribution_messages_def
  merge_contributions_def available_for_prompt_def project_def estimate_model_attempt_def flat_estimator_def

lemma demo_calls_valid: "validate_batch accept_all \<lparr>tb_identity = i, tb_record_target = tgt, tb_calls = [\<lparr>tc_call_id = ''c7'', tc_name = ''echo'', tc_arguments = []\<rparr>],
   tb_capabilities = demo_fixed, tb_assistant_text = a, tb_reasoning = b, tb_previous_receipt = c, tb_attempt = d\<rparr> demo_registry = Inr ()"
  unfolding validate_batch_def by simp code_simp

lemma keys_differ: "finalize_op ''r'' CANCELLED \<noteq> step_op \<lparr>si_run_id = ''r'', si_step_no = 1, si_model_round = 0\<rparr> \<lparr>rt_value = ''chat''\<rparr> @ '':tool_calls''"
  by code_simp

lemmas finish_defs = keys_differ inner_handler_def outer_handler_def cancel_run_def late_error_def invalidate_projection_def

lemmas batch_defs = demo_calls_valid unrecorded_def upsert_text_def assistant_message_def recorded_receipt_def put_old_def replace_message_def
  cancelled_event_def stop_reason_named_def recording_def record_batch_def record_tool_calls_def calls_content_def calls_op_def
 forward_def declare_work_def invoke_def observe_since_def

lemmas begin_defs = fresh_state_def demo_state_def new_run_state_def app_current_def fresh_snapshot_def demo_app_def fixed_resolve_def
  accept_resolution_def open_session_def new_session_def execution_budget_def assemble_default

lemma cancelled_run_wp:
  "wp collecting (run_stream work_host quiet work_request 1) [] fresh_state
    (\<lambda>r es s. \<exists>front works. es = front @ [RunCancelled ''r'' USER_STOP works] \<and> (\<exists>i. ExternalWorkDeclared i demo_work \<in> set front))"
  by (simp add: run_defs wp_gbind wp_gcatch wp_gfinally wp_act_once wp_small collecting_def Let_def
      begin_defs stop_defs observer_defs record_defs gbind_assoc eager_gbind eager_gcatch wait_for_def
      agent_defs prepare_defs batch_defs finish_defs cong: lazy lazier)


end
