(* ===== verification/Run_Liveness.thy ===== *)
theory Run_Liveness imports Run_Invariants begin

text \<open>
  A run ends for a consumer that stays: it yields a terminal event, unless something that is no
  \<^verbatim>\<open>Exception\<close> goes through it.
\<close>

section \<open>Recording calls leave other operations alone\<close>

lemma check_fail_ops: "mt_ops (snd (check_fail op t)) = mt_ops t"
  by (simp add: check_fail_def)

lemma again_ops: "mt_ops (snd (again_message r t)) = mt_ops t" "mt_ops (snd (again_batch r' t)) = mt_ops t"
  by (simp_all add: again_message_def again_batch_def split: sum.split option.split)

lemma upsert_append_ops: "mt_ops (snd (upsert_text key tgt fresh revise t)) = mt_ops t" "mt_ops (snd (append_all tgt ms t)) = mt_ops t"
  using upsert_text_ops append_all_ops by (metis prod.collapse)+

lemma ops_andthen:
  "mt_ops (snd r) op = x \<Longrightarrow> (\<And>a s. mt_ops s op = x \<Longrightarrow> mt_ops (snd (k a s)) op = x) \<Longrightarrow> mt_ops (snd (andthen r k)) op = x"
  by (rule andthen_keeps [where P = "\<lambda>t. mt_ops t op = x"])

lemma pair_results_ops: "mt_ops (snd (pair_results run n tgt op known rs t)) op' = mt_ops t op'"
  by (induction rs arbitrary: t) (auto simp: next_id_def intro!: ops_andthen split: option.split)

lemmas ops_kept = check_fail_ops again_ops upsert_append_ops pair_results_ops

lemma other_op_untouched:
  assumes "op_id c = Some op" and "op' \<noteq> op"
  shows "mt_ops (snd (apply_op c t)) op' = mt_ops t op'"
proof (cases c)
  case (OpInput run tgt m op'')
  with assms show ?thesis
    by (auto simp: record_input_def ops_kept next_id_def append_message_def Let_def intro!: ops_andthen split: option.split)
next
  case (OpTextDelta run step tgt body op'' att prev)
  with assms show ?thesis
    by (auto simp: record_text_delta_def ops_kept Let_def intro!: ops_andthen split: option.split)
next
  case (OpTextFinal run step tgt body reas calls op'' att prev)
  with assms show ?thesis
    by (auto simp: record_text_final_def ops_kept Let_def intro!: ops_andthen split: option.split)
next
  case (OpToolCalls run step tgt calls body reas op'' prev att)
  with assms show ?thesis
    by (auto simp: record_tool_calls_def ops_kept Let_def intro!: ops_andthen split: option.split sum.split)
next
  case (OpToolResults run step tgt results op'' prev)
  with assms show ?thesis
    by (auto simp: record_tool_results_def ops_kept Let_def intro!: ops_andthen split: option.split sum.split prod.split)
next
  case (OpFinalize run status)
  with assms show ?thesis
    by (auto simp: finalize_run_def ops_kept Let_def intro!: ops_andthen split: sum.split)
qed (use assms in simp)

section \<open>An undisturbed run\<close>

text \<open>
  The consumer has not closed the stream and got no terminal event, no failure is injected into the
  transcript, and nobody has finalized the run.
\<close>

definition undisturbed :: "string \<Rightarrow> run_state \<Rightarrow> bool" where
  "undisturbed run_id s \<longleftrightarrow>
     ctl_events (rs_control s) CONSUMER_CLOSED = Some False \<and> \<not> rs_yielded_terminal s \<and>
     mt_fail_ops (rs_transcript s) = {} \<and> (\<forall>status. mt_ops (rs_transcript s) (finalize_op run_id status) = None)"

text \<open>Other tasks never disturb the run.\<close>

definition calm :: "string \<Rightarrow> environment \<Rightarrow> environment" where
  "calm run_id env = env\<lparr>env_stores := (\<lambda>n s.
     if undisturbed run_id s \<and> \<not> undisturbed run_id (env_stores env n s) then s else env_stores env n s)\<rparr>"

lemma calm_id: "(\<And>n s. undisturbed run_id s \<Longrightarrow> undisturbed run_id (env_stores env n s)) \<Longrightarrow> calm run_id env = env"
proof -
  assume keep: "\<And>n s. undisturbed run_id s \<Longrightarrow> undisturbed run_id (env_stores env n s)"
  have "(if undisturbed run_id s \<and> \<not> undisturbed run_id (env_stores env n s) then s else env_stores env n s) = env_stores env n s"
    for n s using keep [of s n] by auto
  then show ?thesis unfolding calm_def by simp
qed

lemma pause_calm: "undisturbed run_id s \<Longrightarrow> undisturbed run_id (pause (calm run_id env) s)"
  by (auto simp: pause_def calm_def Let_def undisturbed_def)

abbreviation no_check :: "unit \<Rightarrow> runtime_event \<Rightarrow> unit option" where
  "no_check q ev \<equiv> Some ()"

interpretation ul: run_guard "calm run_id env" no_check "\<lambda>q. undisturbed run_id" run_id for env run_id
proof unfold_locales
  fix q s c op
  assume "undisturbed run_id s" "op_id c = Some op" "ordinary_op op"
  then show "undisturbed run_id (s\<lparr>rs_transcript := snd (apply_op c (rs_transcript s))\<rparr>)"
    using op_no_faults [of "rs_transcript s" c op]
    by (simp add: undisturbed_def other_op_untouched finalize_not_ordinary [THEN not_sym])
qed (simp_all add: pause_calm, auto simp: undisturbed_def)

section \<open>The runner\<close>

text \<open>While nothing disturbs it, a run can be finalized, and its terminal event is handed over.\<close>

lemma undisturbed_finalize:
  "undisturbed run_id s \<Longrightarrow> \<exists>t. finalize_run run_id status (rs_transcript s) = (Inr (), t)"
  by (simp add: undisturbed_def finalize_run_def check_fail_def Let_def)

lemma undisturbed_open: "undisturbed run_id s \<Longrightarrow> \<not> consumer_closed s"
  by (simp add: undisturbed_def consumer_closed_def reason_set_def)

lemma wp_calm_commit:
  assumes "undisturbed run_id s"
    and "\<And>s. \<not> consumer_closed s \<Longrightarrow> \<not> rs_yielded_terminal s \<Longrightarrow> Q (Inr ()) q s"
  shows "wp \<delta> (commit_terminal (calm run_id env) run_id status ev) q s Q"
proof -
  let ?s = "pause (calm run_id env) s"
  have s: "undisturbed run_id ?s" using assms(1) by (rule pause_calm)
  obtain t where t: "finalize_run run_id status (rs_transcript ?s) = (Inr (), t)"
    using undisturbed_finalize [OF s] by blast
  have "Q (Inr ()) q (observe (Runtime ev) (?s\<lparr>rs_transcript := t\<rparr>))"
    by (rule assms(2)) (use s undisturbed_open [OF s] in \<open>simp_all add: observe_def consumer_closed_def undisturbed_def\<close>)
  with t show ?thesis
    by (simp add: commit_terminal_def awaiting_def on_transcript_def wp_simps)
qed

lemma wp_calm_end:
  assumes "undisturbed run_id s" and "is_terminal ev"
  shows "wp ending (gbind (gbind (commit_terminal (calm run_id env) run_id status ev) (\<lambda>_. hand_over (calm run_id env) once ev)) (\<lambda>_. Ret b))
    None s (\<lambda>r q s. r = Inr b \<and> q = Some ev)"
  unfolding wp_gbind
  by (rule wp_calm_commit [OF assms(1)]) (simp add: hand_over_def mark_terminal_def emit_def wp_simps assms(2))

text \<open>How a part of the run leaves it: with a terminal event, or with an exception, after an \<^verbatim>\<open>Exception\<close>
undisturbed.\<close>

definition leaves :: "string \<Rightarrow> (exn \<Rightarrow> bool) \<Rightarrow> exn + bool \<Rightarrow> runtime_event option \<Rightarrow> run_state \<Rightarrow> bool" where
  "leaves run_id E r q s \<longleftrightarrow>
     (case r of
        Inr b \<Rightarrow> b \<and> q \<noteq> None
      | Inl e \<Rightarrow> q = None \<and> E e \<and> ctl_events (rs_control s) CONSUMER_CLOSED \<noteq> None \<and>
          (isinstance_exn e Exception \<longrightarrow> undisturbed run_id s))"

lemma leaves_Inr [simp]: "leaves run_id E (Inr b) q s \<longleftrightarrow> b \<and> q \<noteq> None"
  by (simp add: leaves_def)

lemma leaves_Inl [simp]: "undisturbed run_id s \<Longrightarrow> leaves run_id E (Inl e) q s \<longleftrightarrow> q = None \<and> E e"
  by (auto simp: leaves_def undisturbed_def)

lemma wp_calm_fail:
  "undisturbed (rq_run_id request) s \<Longrightarrow>
   wp ending (gbind (fail_run (calm (rq_run_id request) env) request e) (\<lambda>_. Ret True)) None s (leaves (rq_run_id request) E)"
  unfolding fail_run_def Let_def by (rule wp_mono, rule wp_calm_end) auto

lemma wp_calm_succeed:
  "undisturbed (rq_run_id request) s \<Longrightarrow>
   wp ending (gbind (succeed (calm (rq_run_id request) env) request) (\<lambda>_. Ret True)) None s (leaves (rq_run_id request) E)"
  unfolding succeed_def by (rule wp_mono, rule wp_calm_end) auto

text \<open>A cancellation fails only for a reason that is no \<^verbatim>\<open>StopReason\<close>, with a \<^verbatim>\<open>ValueError\<close>.\<close>

definition known_reason :: "exn \<Rightarrow> bool" where
  "known_reason e \<longleftrightarrow> (\<exists>reason. stop_reason_named (exn_message e) = Inr reason)"

lemma unknown_reason: "stop_reason_named v = Inl e \<Longrightarrow> \<exists>m. e = raised ValueError m"
  unfolding stop_reason_named_def by (auto split: option.splits)

lemma known_reason_value: "known_reason (raised k (stop_reason_value r))"
  by (cases r) (simp_all add: known_reason_def stop_reason_named_def)

lemma wp_calm_cancel:
  assumes "undisturbed (rq_run_id request) s"
    and "\<not> known_reason e \<Longrightarrow> \<forall>m. E (raised ValueError m)"
  shows "wp ending (gbind (cancel_run (calm (rq_run_id request) env) request e) (\<lambda>_. Ret True)) None s (leaves (rq_run_id request) E)"
proof (cases "cancelled_event request e s")
  case (Inr ev)
  then have "is_terminal ev" by (auto simp: cancelled_event_def split: sum.splits)
  note ended = wp_calm_end [OF assms(1) this, of env CANCELLED True True]
  have "wp ending (gbind (gbind (commit_terminal (calm (rq_run_id request) env) (rq_run_id request) CANCELLED ev)
      (\<lambda>_. hand_over (calm (rq_run_id request) env) True ev)) (\<lambda>_. Ret True)) None s (leaves (rq_run_id request) E)"
    by (rule wp_mono [OF ended]) auto
  then show ?thesis
    by (simp add: cancel_run_def wp_gbind [of _ "act _"] wp_act Inr gbind_assoc)
next
  case (Inl e')
  then have "stop_reason_named (exn_message e) = Inl e'"
    by (auto simp: cancelled_event_def split: option.splits sum.splits)
  then have "\<exists>m. e' = raised ValueError m" "\<not> known_reason e"
    using unknown_reason by (auto simp: known_reason_def)
  then show ?thesis using assms Inl by (auto simp: cancel_run_def wp_simps)
qed

text \<open>The handlers.  The inner one may pass on what the outer one catches, the outer one what is no
\<^verbatim>\<open>Exception\<close>.\<close>

abbreviation passed_on :: "exn \<Rightarrow> bool" where
  "passed_on e \<equiv> \<not> isinstance_exn e CancelledRunError"

abbreviation not_an_exception :: "exn \<Rightarrow> bool" where
  "not_an_exception e \<equiv> \<not> isinstance_exn e Exception"

lemma asyncio_cancelled: "isinstance_exn e AsyncioCancelledError \<Longrightarrow> passed_on e \<and> not_an_exception e"
  by (cases e, rename_tac k m f, case_tac k) auto

lemma cancelled_is_exception: "isinstance_exn e CancelledRunError \<Longrightarrow> isinstance_exn e Exception"
  by (erule isinstance_trans) simp

lemma wp_calm_inner:
  assumes s: "undisturbed (rq_run_id request) s" and P: "ep_invalidate P = Some (\<lambda>tgt s. (Inr (), invalidate_summary tgt s))"
  shows "wp ending (inner_handler (calm (rq_run_id request) env) request P e) None s (leaves (rq_run_id request) passed_on)"
proof -
  let ?env = "calm (rq_run_id request) env"
  have paused: "undisturbed (rq_run_id request) (pause ?env s)" using s by (rule pause_calm)
  then have invalid: "undisturbed (rq_run_id request) (invalidate_summary tgt (pause ?env s))" for tgt
    by (simp add: undisturbed_def invalidate_summary_def)
  have finalize: "wp ending (gbind (awaiting ?env (on_transcript (finalize_run (rq_run_id request) CANCELLED))) (\<lambda>_. Raise e :: bool gen))
      None s (leaves (rq_run_id request) passed_on)" if "isinstance_exn e AsyncioCancelledError"
    using asyncio_cancelled [OF that] undisturbed_finalize [OF paused, of CANCELLED] paused
    by (auto simp: awaiting_def on_transcript_def wp_simps leaves_def undisturbed_def)
  have failed: "wp ending (gbind (invalidate_projection ?env P) (\<lambda>_. gbind (fail_run ?env request e) (\<lambda>_. Ret True))) None s
      (leaves (rq_run_id request) passed_on)"
    using wp_calm_fail [OF invalid] by (simp add: invalidate_projection_def P awaiting_def wp_gbind wp_gcatch wp_act wp_small)
  show ?thesis
    using s finalize failed wp_calm_fail [OF s] wp_calm_cancel [OF s, of e passed_on] by (simp add: inner_handler_def)
qed

lemma wp_calm_outer:
  assumes "leaves (rq_run_id request) passed_on (Inl e) q s \<or>
    undisturbed (rq_run_id request) s \<and> q = None \<and> (isinstance_exn e CancelledRunError \<longrightarrow> known_reason e)"
  shows "wp ending (outer_handler (calm (rq_run_id request) env) request e) q s (leaves (rq_run_id request) not_an_exception)"
proof (cases "isinstance_exn e Exception")
  case True
  then have s: "undisturbed (rq_run_id request) s" "q = None" "isinstance_exn e CancelledRunError \<longrightarrow> known_reason e"
    using assms by (auto simp: leaves_def)
  then have "isinstance_exn e CancelledRunError \<Longrightarrow> wp ending (gbind (cancel_run (calm (rq_run_id request) env) request e) (\<lambda>_. Ret True))
      None s (leaves (rq_run_id request) not_an_exception)"
    by (intro wp_calm_cancel) auto
  then show ?thesis
    using True s(2) wp_calm_fail [OF s(1)] by (simp add: outer_handler_def)
next
  case False
  then show ?thesis using assms cancelled_is_exception by (auto simp: outer_handler_def leaves_def undisturbed_def)
qed

section \<open>The whole run\<close>

text \<open>A loop over a generator that keeps an invariant: its body sees the invariant hold.\<close>

lemma wp_each_to_guard:
  assumes "guard no_check (\<lambda>_. J) g () s" and "all_events E g" and "results R g"
    and body: "\<And>ev s. E ev \<Longrightarrow> J s \<Longrightarrow> wp \<delta> (b ev) q s (\<lambda>t q' s. case t of
        Inl e \<Rightarrow> Q (Inl e) q' s | Inr None \<Rightarrow> q' = q \<and> J s | Inr (Some r) \<Rightarrow> Q (Inr r) q' s)"
    and "\<And>a s. R a \<Longrightarrow> J s \<Longrightarrow> Q (Inr (fin a)) q s" and "\<And>e s. J s \<Longrightarrow> Q (Inl e) q s"
  shows "wp \<delta> (each_to g b fin) q s Q"
  using assms(1-3)
proof (induction g arbitrary: s)
  case (Yield ev g c)
  have next_event: "wp \<delta> (each_to g b fin) q t Q" if "J t" for t using Yield that by simp
  have "E ev" "J s" using Yield.prems by simp_all
  show ?case
    by (simp add: wp_gbind, rule wp_mono [OF body [OF \<open>E ev\<close> \<open>J s\<close>]])
      (auto simp: next_event split: sum.splits option.splits)
qed (use assms(5,6) in auto)

text \<open>The end of the loop over the agent's events: abandoned for the successful end, or with its terminal event.\<close>

definition exits :: "string \<Rightarrow> exn + loop_exit \<Rightarrow> runtime_event option \<Rightarrow> run_state \<Rightarrow> bool" where
  "exits run_id r q s \<longleftrightarrow>
     (case r of
        Inl e \<Rightarrow> q = None \<and> undisturbed run_id s
      | Inr Returned \<Rightarrow> q \<noteq> None
      | Inr x \<Rightarrow> x = Ended True \<and> q = None \<and> undisturbed run_id s)"

lemma observe_undisturbed [simp]: "undisturbed run_id (observe ev s) = undisturbed run_id s"
  by (simp add: observe_def undisturbed_def)

lemma wp_calm_loop_body:
  assumes "undisturbed run_id s" and "from_loop run_id ev" and "rq_run_id request = run_id"
  shows "wp ending (loop_body (calm run_id env) request ev) None s (\<lambda>t q s. case t of
      Inl e \<Rightarrow> exits run_id (Inl e) q s
    | Inr None \<Rightarrow> q = None \<and> undisturbed run_id s
    | Inr (Some x) \<Rightarrow> exits run_id (Inr x) q s)"
proof (cases "is_waiting ev")
  case True
  then have "is_terminal ev" by (cases ev) auto
  then have "wp ending (gbind (commit_terminal (calm run_id env) run_id WAITING ev) (\<lambda>_. gbind mark_terminal (\<lambda>_.
      gbind (reading consumer_closed) (\<lambda>closed. gbind (if closed then Ret () else emit (calm run_id env) ev) (\<lambda>_. Ret (Some Returned))))))
      None s (\<lambda>t q s. case t of Inl e \<Rightarrow> exits run_id (Inl e) q s | Inr None \<Rightarrow> q = None \<and> undisturbed run_id s
        | Inr (Some x) \<Rightarrow> exits run_id (Inr x) q s)"
    unfolding wp_gbind [of _ "commit_terminal (calm run_id env) run_id WAITING ev"]
    by (intro wp_calm_commit assms(1)) (simp add: mark_terminal_def emit_def wp_simps consumer_closed_def exits_def)
  then show ?thesis
    using True assms(3) undisturbed_open [OF assms(1)]
    by (simp add: loop_body_def wp_gbind [of _ "reading consumer_closed"] wp_small)
next
  case False
  then have "\<not> is_terminal ev" using assms(2) by (cases ev) (auto simp: from_loop_def)
  then show ?thesis
    using False assms(1) undisturbed_open [OF assms(1)] by (simp add: loop_body_def emit_def wp_simps pause_calm)
qed

text \<open>The policies and the capability provider of the host do not disturb the run either; a provider that
cancels the run gives a reason that there is.\<close>

definition host_calm :: "runtime_host \<Rightarrow> string \<Rightarrow> bool" where
  "host_calm host run_id \<longleftrightarrow>
     (\<forall>p outcomes command s. rh_result_policy host = Some p \<longrightarrow> undisturbed run_id s \<longrightarrow> undisturbed run_id (snd (p outcomes command s))) \<and>
     (\<forall>p command receipt s. rh_completion_policy host = Some p \<longrightarrow> undisturbed run_id s \<longrightarrow>
        undisturbed run_id (snd (p command receipt s))) \<and>
     (\<forall>request application s. undisturbed run_id s \<longrightarrow> undisturbed run_id (snd (rh_resolve host request application s))) \<and>
     (\<forall>request application s e. fst (rh_resolve host request application s) = Inl e \<longrightarrow>
        isinstance_exn e CancelledRunError \<longrightarrow> known_reason e)"

lemma calm_ports:
  assumes "host_calm host (rq_run_id request)"
  shows "ul.ports_keep (rq_run_id request) (default_ports host (calm (rq_run_id request) env) request)"
  by (rule ul.default_ports_keep) (use assms in \<open>auto simp: host_calm_def\<close>)

abbreviation (input) enough_rounds :: "run_request \<Rightarrow> nat \<Rightarrow> bool" where
  "enough_rounds request fuel \<equiv>
     (\<exists>k. steps_left (rq_limits request) (cb_steps (rq_consumed request), cb_model_rounds (rq_consumed request)) = Some k \<and> k < fuel)"

definition settles :: "string \<Rightarrow> exn + bool \<Rightarrow> runtime_event option \<Rightarrow> run_state \<Rightarrow> bool" where
  "settles run_id r q s \<longleftrightarrow> (case r of Inl e \<Rightarrow> q = None \<and> undisturbed run_id s | Inr b \<Rightarrow> b \<and> q \<noteq> None)"

lemma wp_settles_succeed:
  "undisturbed (rq_run_id request) s \<Longrightarrow>
   wp ending (gbind (succeed (calm (rq_run_id request) env) request) (\<lambda>_. Ret True)) None s (settles (rq_run_id request))"
  by (rule wp_mono [OF wp_calm_succeed [where E = "\<lambda>_. False"]]) (auto simp: leaves_def settles_def split: sum.splits)

lemma wp_calm_run_loop:
  assumes "host_calm host (rq_run_id request)" and "enough_rounds request fuel" and "undisturbed (rq_run_id request) s"
  shows "wp ending (run_loop host (calm (rq_run_id request) env) request fuel (default_ports host (calm (rq_run_id request) env) request))
    None s (settles (rq_run_id request))"
proof -
  let ?env = "calm (rq_run_id request) env"
  let ?P = "default_ports host ?env request"
  let ?g = "agent_run ?env (rh_phase_idle host) ?P (rq_limits request) (rq_consumed request) request fuel"
  have kept: "guard no_check (\<lambda>_. undisturbed (rq_run_id request)) ?g () s"
    using ul.guard_agent [OF calm_ports [OF assms(1)] refl] assms(3) by blast
  have ends: "results (\<lambda>x. x) ?g" using agent_run_fuel assms(2) by blast
  have "wp ending (each_to ?g (loop_body ?env request) Ended) None s (exits (rq_run_id request))"
    by (rule wp_each_to_guard [OF kept execution_port_laws.loop_events [OF default_laws] ends])
      (auto simp: exits_def intro!: wp_calm_loop_body)
  then show ?thesis
    unfolding run_loop_def wp_gbind [of _ "each_to _ _ _"]
    by (rule wp_mono) (auto simp: exits_def settles_def [of _ "Inl _"] settles_def [of _ "Inr True"] wp_settles_succeed split: sum.splits loop_exit.splits)
qed

lemma wp_calm_inputs:
  "undisturbed run_id s \<Longrightarrow> wp ending (record_inputs (calm run_id env) request n ms) None s (\<lambda>r q s. q = None \<and> undisturbed run_id s)"
proof (induction ms arbitrary: n s)
  case (Cons m ms)
  let ?s = "pause (calm run_id env) s"
  have paused: "undisturbed run_id ?s" using Cons.prems by (rule pause_calm)
  have "undisturbed run_id (?s\<lparr>rs_transcript := snd (record_input r tgt m (r @ '':input:'' @ int_str k) (rs_transcript ?s))\<rparr>)" for r tgt k
    using ul.recorded [OF paused _ ordinary_input, of "OpInput r tgt m (r @ '':input:'' @ int_str k)" r k] by simp
  then show ?case
    by (auto simp: awaiting_def on_transcript_def wp_simps Cons.IH split: sum.split)
qed simp

lemma wp_calm_run_body:
  assumes "host_calm host (rq_run_id request)" and "enough_rounds request fuel" and "undisturbed (rq_run_id request) s"
  shows "wp ending (run_body host (calm (rq_run_id request) env) request fuel (default_ports host (calm (rq_run_id request) env) request))
    None s (settles (rq_run_id request))"
proof -
  let ?env = "calm (rq_run_id request) env"
  have rest: "wp ending (gbind (record_inputs ?env request 0 (rq_input_items request)) (\<lambda>_.
      if rq_entry request = CompletedEntry then gbind (succeed ?env request) (\<lambda>_. Ret True)
      else run_loop host ?env request fuel (default_ports host ?env request))) None s (settles (rq_run_id request))"
    if "undisturbed (rq_run_id request) s" for s
    unfolding wp_gbind [of _ "record_inputs _ _ _ _"]
    by (rule wp_mono [OF wp_calm_inputs [OF that]])
      (auto simp: settles_def [of _ "Inl _"] wp_settles_succeed wp_calm_run_loop [OF assms(1,2)] split: sum.split)
  show ?thesis
    unfolding run_body_def Let_def wp_gbind [of _ "effect _"] wp_gbind [of _ "emit _ _"]
    using assms(3) by (simp add: emit_def wp_gbind [of _ "yield _"] wp_small rest pause_calm)
qed

lemma undisturbed_locals [simp]:
  "undisturbed run_id (s\<lparr>rs_observer := ob\<rparr>) = undisturbed run_id s" "undisturbed run_id (s\<lparr>rs_app := app\<rparr>) = undisturbed run_id s"
  by (simp_all add: undisturbed_def)

lemma undisturbed_session: "undisturbed run_id s \<Longrightarrow> undisturbed run_id (open_session request initial s)"
  by (simp add: undisturbed_def open_session_def new_run_state_def)

lemma undisturbed_begin: "undisturbed run_id s \<Longrightarrow> undisturbed run_id (begin_run (arm_run request s))"
  by (simp add: undisturbed_def begin_run_def arm_run_def arm_deadline_def split: option.split)

text \<open>How a step before the inner \<^verbatim>\<open>try\<close> ends: undisturbed, and cancelled only for a known reason.\<close>

definition starts :: "string \<Rightarrow> exn + 'a \<Rightarrow> runtime_event option \<Rightarrow> run_state \<Rightarrow> bool" where
  "starts run_id r q s \<longleftrightarrow> q = None \<and> undisturbed run_id s \<and>
     (\<forall>e. r = Inl e \<longrightarrow> isinstance_exn e CancelledRunError \<longrightarrow> known_reason e)"

lemma stopped_known: "raise_if_stopped s = (Inl e, s') \<Longrightarrow> known_reason e" "wait_for env idle s = (Inl e, s') \<Longrightarrow> known_reason e"
  by (auto simp: raise_if_stopped_def wait_for_def Let_def known_reason_value simp del: stop_reason_value.simps
      split: option.splits if_splits)

lemma wp_starts_cancelled:
  "starts run_id (Inl e :: exn + 'a) None s \<Longrightarrow> wp ending (cancelled_work e :: 'a gen) None s (starts run_id)"
  by (auto simp: starts_def cancelled_work_def wp_act known_reason_value simp del: stop_reason_value.simps)

lemma wp_starts_wait:
  assumes "undisturbed run_id s" and "\<And>s. undisturbed run_id s \<Longrightarrow> starts run_id (fst (f s)) None (snd (f s))"
  shows "wp ending (wait_cancellable (calm run_id env) (act f)) None s (starts run_id)"
proof -
  let ?env = "calm run_id env"
  obtain x where go: "raise_if_stopped s = (x, s)" using raise_if_stopped_state [of s] by (metis prod.collapse)
  obtain y where wait: "wait_for ?env False s = (y, pause ?env s)" using wait_for_state [of ?env False s] by (metis prod.collapse)
  have "starts run_id (Inl e :: exn + 'a) None t" if "undisturbed run_id t" "known_reason e" for e t
    using that by (simp add: starts_def)
  moreover have "wp ending (gcatch (act f) cancelled_work) None (pause ?env s) (starts run_id)"
    using assms(2) [OF pause_calm [OF assms(1), of env]]
    by (cases "fst (f (pause ?env s))") (simp_all add: wp_gcatch wp_act wp_starts_cancelled)
  ultimately show ?thesis
    using go wait assms(1) pause_calm [OF assms(1)] stopped_known
    by (cases x; cases y) (simp_all add: wait_cancellable_def wp_gbind wp_act)
qed

lemma wp_starts:
  "wp ending g None s (starts run_id) \<Longrightarrow> (\<And>a s. undisturbed run_id s \<Longrightarrow> wp ending (k a) None s Q) \<Longrightarrow>
   (\<And>e s. starts run_id (Inl e :: exn + 'a) None s \<Longrightarrow> Q (Inl e) None s) \<Longrightarrow> wp ending (gbind (g :: 'a gen) k) None s Q"
  unfolding wp_gbind by (erule wp_mono) (auto simp: starts_def split: sum.split)

lemma wp_calm_run_try:
  assumes "rh_ports host = no_overrides" and "host_calm host (rq_run_id request)" and "enough_rounds request fuel"
    and "undisturbed (rq_run_id request) s"
  shows "wp ending (gcatch (run_try host (calm (rq_run_id request) env) request fuel) (outer_handler (calm (rq_run_id request) env) request))
    None s (leaves (rq_run_id request) not_an_exception)"
proof -
  let ?env = "calm (rq_run_id request) env"
  let ?P = "default_ports host ?env request"
  let ?Q = "\<lambda>r q s. case r of Inl e \<Rightarrow> wp ending (outer_handler ?env request e) q s (leaves (rq_run_id request) not_an_exception)
    | Inr a \<Rightarrow> leaves (rq_run_id request) not_an_exception (Inr a) q s"
  have caught: "wp ending (gcatch (run_body host ?env request fuel ?P) (inner_handler ?env request ?P)) None t ?Q"
    if "undisturbed (rq_run_id request) t" for t
    unfolding wp_gcatch
    by (rule wp_mono [OF wp_calm_run_body [OF assms(2,3) that]])
      (auto simp: settles_def default_ports_def intro!: wp_mono [OF wp_calm_inner] wp_calm_outer split: sum.splits)
  have raised: "?Q (Inl e) None t" if "starts (rq_run_id request) (Inl e :: exn + 'z) None t" for e t
    using that by (auto simp: starts_def intro: wp_calm_outer)
  have opened: "wp ending (gbind (effect (open_session request initial)) (\<lambda>_. gbind (act (\<lambda>s. (assemble host ?env request s, s))) (\<lambda>P.
      gcatch (run_body host ?env request fuel P) (inner_handler ?env request P)))) None t ?Q"
    if "undisturbed (rq_run_id request) t" for initial t
    using caught [OF undisturbed_session [OF that]]
    by (simp add: wp_gbind [of _ "effect _"] wp_gbind [of _ "act _"] wp_act wp_small assemble_default [OF assms(1)])
  have accepted: "wp ending (lift_sum (accept_resolution r)) None t (starts (rq_run_id request))"
    if "undisturbed (rq_run_id request) t" for r t
    using that by (auto simp: wp_small starts_def accept_resolution_def split: option.splits if_splits)
  have resolved: "starts (rq_run_id request) (fst (rh_resolve host request app t)) None (snd (rh_resolve host request app t))"
    if "undisturbed (rq_run_id request) t" for app t
    using assms(2) that by (auto simp: starts_def host_calm_def)
  have current: "starts (rq_run_id request) (fst (case app_current tgt (rs_app t) of (current, app) \<Rightarrow> (Inr current :: exn + _, t\<lparr>rs_app := app\<rparr>)))
      None (snd (case app_current tgt (rs_app t) of (current, app) \<Rightarrow> (Inr current :: exn + _, t\<lparr>rs_app := app\<rparr>)))"
    if "undisturbed (rq_run_id request) t" for tgt t
    using that by (auto simp: starts_def split: prod.split)
  have "wp ending (run_try host ?env request fuel) None s ?Q"
    unfolding run_try_def wp_gbind [of _ "effect (\<lambda>s. s\<lparr>rs_observer := _ s\<rparr>)"]
    using assms(4)
    by (auto simp: wp_small intro!: wp_starts [OF wp_starts_wait] wp_starts [OF accepted] opened current resolved raised)
  then show ?thesis by (simp add: wp_gcatch)
qed

text \<open>The \<^verbatim>\<open>finally\<close> block yields nothing and, while the control has its event, raises nothing.\<close>

lemma wp_clean_up:
  "wp ending (clean_up host env request started) q s (\<lambda>r q' s'. q' = q \<and>
     (ctl_events (rs_control s) CONSUMER_CLOSED \<noteq> None \<longrightarrow> r = Inr ()))"
  by (auto simp: clean_up_def wp_simps observe_def notify_consumer_closed_def trigger_def Let_def
      split: prod.splits sum.split option.splits)

lemma wp_calm_run_stream:
  assumes "rh_ports host = no_overrides" and "host_calm host (rq_run_id request)" and "enough_rounds request fuel"
    and "undisturbed (rq_run_id request) s"
  shows "wp ending (run_stream host (calm (rq_run_id request) env) request fuel) None s
    (\<lambda>r q s. q \<noteq> None \<or> (\<exists>e. r = Inl e \<and> not_an_exception e))"
proof -
  let ?env = "calm (rq_run_id request) env"
  have "wp ending (gfinally (gcatch (run_try host ?env request fuel) (outer_handler ?env request))
      (clean_up host ?env request started)) None t (\<lambda>r q s. q \<noteq> None \<or> (\<exists>e. r = Inl e \<and> not_an_exception e))"
    if "undisturbed (rq_run_id request) t" for started t
    unfolding wp_gfinally
    by (rule wp_mono [OF wp_calm_run_try [OF assms(1-3) that]], rule wp_mono [OF wp_clean_up])
      (auto simp: leaves_def split: sum.splits)
  then show ?thesis
    using undisturbed_begin [OF assms(4)]
    by (simp add: run_stream_def wp_gbind [of _ "effect _"] wp_gbind [of _ "reading _"] wp_small)
qed

lemma ending_is_terminal: "accepts ending None es = Some (Some ev) \<Longrightarrow> is_terminal ev"
proof (induction es)
  case (Cons e es)
  show ?case
  proof (cases "is_terminal e")
    case True
    then have "accepts ending (Some e) es = Some (Some ev)" using Cons.prems by simp
    from ending_accepts [OF this] True show ?thesis by simp
  qed (use Cons in simp)
qed simp

text \<open>C2: A run whose consumer stays comes to an end that it announces: with bounded rounds, the default pipelines
and a transcript that can be written, whatever the vendor, the tools, the policies and the other
tasks do, the last event of the stream is a terminal event, unless an exception outside Python's
\<^verbatim>\<open>Exception\<close> hierarchy leaves the run.\<close>

theorem run_ends_with_terminal_event:
  assumes "rh_ports host = no_overrides" and "host_calm host (rq_run_id request)"
    and "steps_left (rq_limits request) (cb_steps (rq_consumed request), cb_model_rounds (rq_consumed request)) = Some k"
    and "k < fuel" and "undisturbed (rq_run_id request) s"
    and "\<And>n t. undisturbed (rq_run_id request) t \<Longrightarrow> undisturbed (rq_run_id request) (env_stores env n t)"
    and "drain (run_stream host env request fuel) s = (es, r, s')"
  shows "(es \<noteq> [] \<and> is_terminal (last es)) \<or> (\<exists>e. r = Inl e \<and> not_an_exception e)"
proof -
  have "calm (rq_run_id request) env = env" by (rule calm_id) (rule assms(6))
  with wp_calm_run_stream [OF assms(1,2) _ assms(5), of fuel env] assms(3,4)
  have "wp ending (run_stream host env request fuel) None s (\<lambda>r q s. q \<noteq> None \<or> (\<exists>e. r = Inl e \<and> not_an_exception e))" by auto
  then obtain q where q: "accepts ending None es = Some q" and "q \<noteq> None \<or> (\<exists>e. r = Inl e \<and> not_an_exception e)"
    by (auto simp: wp_drain assms(7) split: option.splits)
  moreover from ending_accepts [OF q] have "es \<noteq> [] \<and> is_terminal (last es)" if "q \<noteq> None"
    using that q ending_is_terminal by auto
  ultimately show ?thesis by blast
qed

section \<open>A concrete run\<close>

lemma demo_request_simps:
  "rq_run_id demo_request = ''r''" "rq_limits demo_request = default_execution_limits"
  "rq_consumed demo_request = \<lparr>cb_model_rounds = 0, cb_steps = 0, cb_estimated_tokens = 0\<rparr>"
  by (simp_all add: demo_request_def)

lemma demo_calm: "host_calm demo_host run_id" "undisturbed run_id fresh_state" "rh_ports demo_host = no_overrides"
  by (auto simp: host_calm_def demo_host_def fixed_resolve_def undisturbed_def fresh_state_def demo_state_def new_run_state_def
      new_control_def new_transcript_def)

theorem run_ends_with_terminal_event_witness:
  "case drain (run_stream demo_host quiet demo_request 17) fresh_state of (es, r, s') \<Rightarrow>
     (es \<noteq> [] \<and> is_terminal (last es)) \<or> (\<exists>e. r = Inl e \<and> not_an_exception e)"
proof -
  obtain es r s' where run: "drain (run_stream demo_host quiet demo_request 17) fresh_state = (es, r, s')"
    by (cases "drain (run_stream demo_host quiet demo_request 17) fresh_state")
  have "steps_left (rq_limits demo_request) (cb_steps (rq_consumed demo_request), cb_model_rounds (rq_consumed demo_request)) = Some 16"
    by (simp add: demo_request_simps steps_left_def default_execution_limits_def)
  from run_ends_with_terminal_event [OF demo_calm(3,1) this _ demo_calm(2) _ run] run show ?thesis
    by (auto simp: quiet_def)
qed

end
