(* ===== verification/Consumer.thy ===== *)
theory Consumer imports External_Work begin

text \<open>
  The consumer that leaves.  \<open>delivers Q g s\<close>: whenever \<open>g\<close>, started in the state \<open>s\<close>, gives an event to its
  consumer, the event and the state of that moment satisfy \<open>Q\<close>, whatever the consumer and the
  other tasks do to the state between the events, and also when \<open>g\<close> is closed.
\<close>

primrec delivers :: "(runtime_event \<Rightarrow> run_state \<Rightarrow> bool) \<Rightarrow> 'a gen \<Rightarrow> run_state \<Rightarrow> bool" where
  "delivers Q (Ret a) s \<longleftrightarrow> True"
| "delivers Q (Raise e) s \<longleftrightarrow> True"
| "delivers Q (Yield ev g c) s \<longleftrightarrow> Q ev s \<and> (\<forall>s'. delivers Q g s' \<and> delivers Q c s')"
| "delivers Q (Step u n) s \<longleftrightarrow> delivers Q (n s) (u s)"

named_theorems delivers_rules

lemma delivers_gbind [delivers_rules]:
  "delivers Q g s \<Longrightarrow> (\<And>a s. delivers Q (k a) s) \<Longrightarrow> delivers Q (gbind g k) s"
  by (induction g arbitrary: s) auto

lemma delivers_gcatch [delivers_rules]:
  "delivers Q g s \<Longrightarrow> (\<And>e s. delivers Q (h e) s) \<Longrightarrow> delivers Q (gcatch g h) s"
  by (induction g arbitrary: s) auto

lemma delivers_gfinally [delivers_rules]:
  "delivers Q g s \<Longrightarrow> (\<And>s. delivers Q f s) \<Longrightarrow> delivers Q (gfinally g f) s"
  by (induction g arbitrary: s) (auto intro: delivers_gbind)

lemma delivers_silent: "all_events (\<lambda>_. False) g \<Longrightarrow> delivers Q g s"
  by (induction g arbitrary: s) auto

lemma delivers_reading: "delivers Q (k (f s)) s \<Longrightarrow> delivers Q (gbind (reading f) k) s"
  by (simp add: reading_def)

lemma delivers_effect: "delivers Q (k ()) (u s) \<Longrightarrow> delivers Q (gbind (effect u) k) s"
  by (simp add: effect_def)

lemma delivers_small [simp, delivers_rules]:
  "delivers Q (act f) s" "delivers Q (effect u) s" "delivers Q (reading p) s" "delivers Q (lift_sum r) s"
  by (simp_all add: act_def effect_def reading_def lift_sum_def split: sum.split)

lemma delivers_emit: "Q ev s \<Longrightarrow> delivers Q (emit env ev) s"
  by (simp add: emit_def yield_def)

text \<open>A loop passes on only what its body passes on.\<close>

lemma delivers_each_to: "(\<And>ev s. delivers Q (b ev) s) \<Longrightarrow> delivers Q (each_to g b fin) s"
proof (induction g arbitrary: s)
  case (Yield ev g c)
  then show ?case by (auto intro!: delivers_gbind split: option.split)
qed auto

section \<open>The runner\<close>

text \<open>An event goes to a consumer that is still there; the start of the run is announced in any case.\<close>

definition attended :: "run_request \<Rightarrow> runtime_event \<Rightarrow> run_state \<Rightarrow> bool" where
  "attended request ev s \<longleftrightarrow> ev = RunStarted (rq_run_id request) (rq_record_target request) \<or> \<not> consumer_closed s"

lemma delivers_awaiting [simp]: "delivers Q (awaiting env f) s" "delivers Q (commit_terminal env run_id status ev) s"
  by (rule delivers_silent [OF awaiting_silent(1)], rule delivers_silent [OF awaiting_silent(2)])

lemma delivers_hand_over: "(\<And>s. \<not> consumer_closed s \<Longrightarrow> Q ev (s\<lparr>rs_yielded_terminal := True\<rparr>)) \<Longrightarrow> delivers Q (hand_over env once ev) s"
  unfolding hand_over_def by (rule delivers_reading) (auto simp: mark_terminal_def intro!: delivers_effect delivers_emit)

lemma closed_mark [simp]: "consumer_closed (s\<lparr>rs_yielded_terminal := b\<rparr>) = consumer_closed s"
  "consumer_closed (observe ev s) = consumer_closed s"
  by (simp_all add: consumer_closed_def observe_def)

lemma delivers_ends:
  "delivers (attended request) (succeed env request) s" "delivers (attended request) (fail_run env request e) s"
  "delivers (attended request) (cancel_run env request e) s"
  by (auto simp: succeed_def fail_run_def cancel_run_def attended_def Let_def intro!: delivers_gbind delivers_hand_over)

lemma delivers_loop_body: "delivers (attended request) (loop_body env request ev) s"
  unfolding loop_body_def
  by (rule delivers_reading)
    (auto simp: attended_def mark_terminal_def intro!: delivers_gbind delivers_reading delivers_effect delivers_emit)

lemma delivers_inputs [simp]: "delivers Q (record_inputs env request n ms) s"
  by (induction ms arbitrary: n s) (auto intro: delivers_gbind)

lemma delivers_body: "delivers (attended request) (run_body host env request fuel P) s"
  unfolding run_body_def Let_def run_loop_def
  by (intro delivers_gbind delivers_small delivers_emit delivers_inputs)
    (auto simp: attended_def delivers_ends delivers_loop_body intro!: delivers_gbind delivers_each_to split: loop_exit.split bool.split)

lemma delivers_handlers:
  "delivers (attended request) (inner_handler env request P e) s" "delivers (attended request) (outer_handler env request e) s"
  by (auto simp: inner_handler_def outer_handler_def invalidate_projection_def delivers_ends
      intro!: delivers_gbind delivers_gcatch split: option.split)

lemma delivers_waiting [simp]: "delivers Q (wait_cancellable env (act f)) s"
  by (rule delivers_silent) (auto intro!: all_events_wait_cancellable)

text \<open>A consumer that is gone when the next event comes: the loop is left, and the run goes on as a success.\<close>

lemma abandoned_run_succeeds:
  assumes "consumer_closed s"
  shows "drain (gbind (each_to (Yield ev g c) (loop_body env request) Ended) (\<lambda>exit.
      case exit of Returned \<Rightarrow> Ret True | Ended False \<Rightarrow> Ret False | _ \<Rightarrow> gbind (succeed env request) (\<lambda>_. Ret True))) s =
    drain (gbind (succeed env request) (\<lambda>_. Ret True)) s"
  using assms by (simp add: loop_body_def reading_def)

text \<open>C5: A consumer that has closed the stream gets nothing more: apart from the announcement of the start,
a run hands an event over only at a moment when its consumer is still there.  This holds for every
host, every behaviour of the consumer and the other tasks between the events, the terminal events
of all error paths included, and also while the run itself is being closed.\<close>

theorem departed_consumer_gets_nothing:
  "delivers (attended request) (run_stream host env request fuel) s"
  unfolding run_stream_def run_try_def clean_up_def
  by (intro delivers_gbind delivers_gfinally delivers_gcatch delivers_small delivers_waiting delivers_body delivers_handlers)

end
