(* ===== verification/Closing.thy ===== *)
theory Closing imports Consumer begin

text \<open>
  The consumer that closes the stream of a run.  \<open>closed_by Q g\<close>: at every event that \<open>g\<close> may give, what
  \<open>g\<close> still does when it is closed there satisfies \<open>Q\<close>.
\<close>

primrec closed_by :: "('a gen \<Rightarrow> bool) \<Rightarrow> 'a gen \<Rightarrow> bool" where
  "closed_by Q (Ret a) \<longleftrightarrow> True"
| "closed_by Q (Raise e) \<longleftrightarrow> True"
| "closed_by Q (Yield ev g c) \<longleftrightarrow> Q c \<and> closed_by Q g"
| "closed_by Q (Step u n) \<longleftrightarrow> (\<forall>s. closed_by Q (n s))"

abbreviation exit_exn :: exn where
  "exit_exn \<equiv> raised GeneratorExit []"

text \<open>A part without a \<^verbatim>\<open>finally\<close> block and without a handler for it passes \<^verbatim>\<open>GeneratorExit\<close> on.\<close>

definition exits :: "'a gen \<Rightarrow> bool" where
  "exits g \<longleftrightarrow> closed_by (\<lambda>c. c = Raise exit_exn) g"

named_theorems exit_rules

lemma closed_by_mono: "closed_by Q g \<Longrightarrow> (\<And>c. Q c \<Longrightarrow> R c) \<Longrightarrow> closed_by R g"
  by (induction g) auto

lemma closed_by_gbind:
  "closed_by Q g \<Longrightarrow> (\<And>c. Q c \<Longrightarrow> R (gbind c k)) \<Longrightarrow> (\<And>a. closed_by R (k a)) \<Longrightarrow> closed_by R (gbind g k)"
  by (induction g) auto

lemma closed_by_silent: "all_events (\<lambda>_. False) g \<Longrightarrow> closed_by Q g"
  by (induction g) auto

lemma exits_gbind [exit_rules]: "exits g \<Longrightarrow> (\<And>a. exits (k a)) \<Longrightarrow> exits (gbind g k)"
  unfolding exits_def by (rule closed_by_gbind [where Q = "\<lambda>c. c = Raise exit_exn"]) auto

lemma exits_gcatch [exit_rules]:
  "exits g \<Longrightarrow> h exit_exn = Raise exit_exn \<Longrightarrow> (\<And>e. exits (h e)) \<Longrightarrow> exits (gcatch g h)"
  unfolding exits_def by (induction g) auto

lemma exits_each_to [exit_rules]: "(\<And>ev. exits (b ev)) \<Longrightarrow> exits (each_to g b fin)"
  by (induction g) (auto simp: exits_def intro!: exits_gbind [unfolded exits_def] split: option.split)

lemma exits_small [simp, exit_rules]:
  "exits (act f)" "exits (effect u)" "exits (reading p)" "exits (lift_sum r)" "exits (yield ev)" "exits (Ret a)" "exits (Raise e)"
  by (simp_all add: exits_def act_def effect_def reading_def lift_sum_def yield_def split: sum.split)

lemma exits_silent: "all_events (\<lambda>_. False) g \<Longrightarrow> exits g"
  unfolding exits_def by (rule closed_by_silent)

text \<open>A \<^verbatim>\<open>finally\<close> block runs when the generator is closed, and the exception goes on after it.\<close>

lemma closed_by_gfinally:
  assumes "exits g" and "all_events (\<lambda>_. False) f"
  shows "closed_by (\<lambda>c. c = gbind f (\<lambda>_. Raise exit_exn)) (gfinally g f)"
  using assms
  by (induction g)
    (auto simp: exits_def intro!: closed_by_gbind [OF closed_by_silent [OF assms(2)], of "\<lambda>_. False"])

section \<open>The runner\<close>

lemma exits_awaiting [simp, exit_rules]:
  "exits (awaiting env f)" "exits (commit_terminal env run_id status ev)" "exits (wait_cancellable env (act f'))"
  by (intro exits_silent awaiting_silent all_events_wait_cancellable; simp)+

lemma exits_emit [simp, exit_rules]: "exits (emit env ev)" "exits mark_terminal"
  unfolding emit_def mark_terminal_def by (intro exit_rules)+

lemma exits_hand_over [simp, exit_rules]: "exits (hand_over env once ev)"
  unfolding hand_over_def by (intro exit_rules) (auto intro!: exit_rules)

lemma exits_ends [simp, exit_rules]: "exits (succeed env request)" "exits (fail_run env request e)" "exits (cancel_run env request e)"
  by (auto simp: succeed_def fail_run_def cancel_run_def Let_def intro!: exit_rules)

lemma exits_inputs [simp, exit_rules]: "exits (record_inputs env request n ms)"
  by (induction ms arbitrary: n) (auto intro!: exit_rules)

lemma exits_loop_body: "exits (loop_body env request ev)"
  unfolding loop_body_def by (intro exit_rules) (auto intro!: exit_rules)

lemma exits_run_body: "exits (run_body host env request fuel P)"
  unfolding run_body_def run_loop_def Let_def
  by (intro exit_rules) (auto intro!: exit_rules exits_loop_body split: loop_exit.split bool.split)

lemma exits_handlers: "exits (inner_handler env request P e)" "exits (outer_handler env request e)"
  by (auto simp: inner_handler_def outer_handler_def invalidate_projection_def intro!: exit_rules split: option.split)

lemma handlers_pass_exit:
  "inner_handler env request P exit_exn = Raise exit_exn" "outer_handler env request exit_exn = Raise exit_exn"
  by (simp_all add: inner_handler_def outer_handler_def)

lemma exits_try: "exits (gcatch (run_try host env request fuel) (outer_handler env request))"
  unfolding run_try_def
  by (intro exit_rules exits_run_body exits_handlers handlers_pass_exit)

lemma clean_up_silent: "all_events (\<lambda>_. False) (clean_up host env request started)"
  by (auto simp: clean_up_def intro!: all_events_gbind)

text \<open>Closed at any event, a run only cleans up.\<close>

lemma closed_run:
  "closed_by (\<lambda>c. \<exists>started. c = gbind (clean_up host env request started) (\<lambda>_. Raise exit_exn)) (run_stream host env request fuel)"
proof -
  let ?Q = "\<lambda>c. \<exists>started. c = gbind (clean_up host env request started) (\<lambda>_. Raise exit_exn)"
  have "closed_by ?Q (gfinally (gcatch (run_try host env request fuel) (outer_handler env request))
      (clean_up host env request started))" for started
    by (rule closed_by_mono [OF closed_by_gfinally [OF exits_try clean_up_silent]]) blast
  then show ?thesis by (simp add: run_stream_def effect_def reading_def)
qed

section \<open>What closing a run does\<close>

text \<open>
  The end \<open>r\<close> of a run that is closed in the state \<open>s\<close>: no event and no error of its own, the observer is
  closed, the control knows of the consumer unless the run had handed over its end, and the transcript
  is as it was.
\<close>

definition closed_properly :: "environment \<Rightarrow> run_state \<Rightarrow> runtime_event list \<times> (exn + 'a) \<times> run_state \<Rightarrow> bool" where
  "closed_properly env s r \<longleftrightarrow> (\<exists>s'. r = ([], Inl exit_exn, pause env s') \<and>
     rs_transcript s' = rs_transcript s \<and> ob_closed (rs_observer s') \<and>
     (rs_yielded_terminal s \<or> consumer_closed s') \<and>
     ctl_first (rs_control s') =
       (if rs_yielded_terminal s \<or> consumer_closed s then ctl_first (rs_control s)
        else Some (case ctl_first (rs_control s) of None \<Rightarrow> CONSUMER_CLOSED | Some reason \<Rightarrow> reason)))"

text \<open>From every state with a control in one of its reachable states.\<close>

definition closes_properly :: "environment \<Rightarrow> 'a gen \<Rightarrow> bool" where
  "closes_properly env c \<longleftrightarrow> (\<forall>s. control_wf (rs_control s) \<longrightarrow> closed_properly env s (drain c s))"

lemma observer_closes: "ob_closed (observer_aclose inner n ob)"
  by (induction n) (auto simp: observer_aclose_def Let_def pump_many(2))

lemma clean_up_closes: "closes_properly env (gbind (clean_up host env request started) (\<lambda>_. Raise exit_exn))"
  unfolding closes_properly_def
proof (intro allI impI)
  fix s :: run_state assume wf: "control_wf (rs_control s)"
  let ?s = "observe (Timing (timed ''run'' (rq_run_id request) None None None started (rs_now s))) s"
  let ?s1 = "?s\<lparr>rs_observer := observer_aclose (rh_observer host) (rh_close_items host) (rs_observer ?s)\<rparr>"
  have same: "rs_control ?s1 = rs_control s" "rs_yielded_terminal ?s1 = rs_yielded_terminal s" "rs_transcript ?s1 = rs_transcript s"
    "consumer_closed ?s1 = consumer_closed s" "ob_closed (rs_observer ?s1)"
    by (simp_all add: observe_def consumer_closed_def observer_closes)
  obtain c where c: "notify_consumer_closed (rs_control s) = (Inr (), c)" "ctl_events c CONSUMER_CLOSED = Some True"
      "ctl_first c = Some (case ctl_first (rs_control s) of None \<Rightarrow> CONSUMER_CLOSED | Some reason \<Rightarrow> reason)"
    using trigger_wf [OF wf, of CONSUMER_CLOSED] by (auto simp: notify_consumer_closed_def split: option.split)
  have "drain (gbind (clean_up host env request started) (\<lambda>_. Raise exit_exn)) s =
      ([], Inl exit_exn, pause env (if rs_yielded_terminal s \<or> consumer_closed s then ?s1 else ?s1\<lparr>rs_control := c\<rparr>))"
    using same c(1) by (auto simp: clean_up_def drain_simps)
  then show "closed_properly env s (drain (gbind (clean_up host env request started) (\<lambda>_. Raise exit_exn)) s)"
    using same c(2,3) by (auto simp: closed_properly_def consumer_closed_def reason_set_def)
qed


text \<open>The same for a consumer that takes \<open>n\<close> events and leaves, or takes all of a shorter run.\<close>

lemma close_after_closed:
  assumes "closed_by Q g" and "0 < n"
  shows "(close_after g n s = drain g s \<and> length (fst (drain g s)) < n) \<or>
    (\<exists>c s' es. Q c \<and> close_after g n s = (es @ fst (drain c s'), snd (drain c s')) \<and> length es = n)"
  using assms
proof (induction g arbitrary: n s)
  case (Yield ev g c)
  show ?case
  proof (cases "n \<le> 1")
    case True
    then have "Q c \<and> close_after (Yield ev g c) n s = ([ev] @ fst (drain c s), snd (drain c s)) \<and> length [ev] = n"
      using Yield.prems by (auto split: prod.split)
    then show ?thesis by blast
  next
    case False
    then have "closed_by Q g" "0 < n - 1" using Yield.prems by auto
    from Yield.IH(1) [OF this, of s] show ?thesis
    proof (elim disjE exE conjE)
      fix c s' es assume "Q c" "close_after g (n - 1) s = (es @ fst (drain c s'), snd (drain c s'))" "length es = n - 1"
      then have "Q c \<and> close_after (Yield ev g c') n s = ((ev # es) @ fst (drain c s'), snd (drain c s')) \<and> length (ev # es) = n" for c'
        using False by simp
      then show ?thesis by blast
    qed (use False in \<open>auto split: prod.split\<close>)
  qed
qed auto

lemma leaving_consumer:
  assumes "0 < n" and "close_after (run_stream host env request fuel) n s = (es, Inr b, s')"
  shows "drain (run_stream host env request fuel) s = (es, Inr b, s') \<and> length es < n"
  using close_after_closed [OF closed_run assms(1), of host env request fuel s] assms(2)
  by (cases "drain (run_stream host env request fuel) s") (auto simp: drain_simps after_def split: prod.splits sum.splits)

end
