(* ===== verification/Lifecycle.thy ===== *)
theory Lifecycle imports Streams begin

text \<open>
  \<^verbatim>\<open>lifecycle.py\<close>: the scope of a run with its tasks and streams, awaiting under cancellation, the decision
  at the end of a wait, and \<^verbatim>\<open>CallbackStream\<close>.  Tasks and streams are numbered.  The event loop's side
  of a scope is part of its state: which tasks are done, which were asked to cancel, which
  streams had their \<^verbatim>\<open>aclose\<close> called.
\<close>

section \<open>The scope of a run\<close>

record run_scope =
  sc_tasks :: "nat list"
  sc_streams :: "nat list"
  sc_close_started :: bool
  sc_closed :: bool
  sc_error :: "exn option"
  sc_failures :: "exn list"
  sc_done :: "nat list"
  sc_cancelled :: "nat list"
  sc_released :: "nat list"

text \<open>\<open>sc_failures\<close> are the exceptions inside the \<^verbatim>\<open>ExceptionGroup\<close> of \<open>sc_error\<close>.\<close>

definition new_scope :: run_scope where
  "new_scope = \<lparr>sc_tasks = [], sc_streams = [], sc_close_started = False, sc_closed = False, sc_error = None,
     sc_failures = [], sc_done = [], sc_cancelled = [], sc_released = []\<rparr>"

definition register_task :: "nat \<Rightarrow> run_scope \<Rightarrow> run_scope" where
  "register_task t s = (if t \<in> set (sc_tasks s) then s else s\<lparr>sc_tasks := sc_tasks s @ [t]\<rparr>)"

text \<open>\<^verbatim>\<open>create_task\<close>: the event loop gives the new task the number \<open>t\<close>.\<close>

definition create_task :: "nat \<Rightarrow> run_scope \<Rightarrow> nat \<times> run_scope" where
  "create_task t s = (t, register_task t s)"

text \<open>A task that ends; its callback takes it out of the scope.\<close>

definition finish_task :: "nat \<Rightarrow> run_scope \<Rightarrow> run_scope" where
  "finish_task t s = s\<lparr>sc_done := sc_done s @ [t], sc_tasks := removeAll t (sc_tasks s)\<rparr>"

definition register_stream :: "nat \<Rightarrow> run_scope \<Rightarrow> run_scope" where
  "register_stream i s = s\<lparr>sc_streams := sc_streams s @ [i]\<rparr>"

definition unfinished :: "run_scope \<Rightarrow> nat list" where
  "unfinished s = filter (\<lambda>t. t \<notin> set (sc_done s)) (sc_tasks s)"

text \<open>How the \<^verbatim>\<open>aclose\<close> of a stream ends inside \<^verbatim>\<open>asyncio.timeout\<close>.\<close>

datatype close_result = NoCloser | Closes | ClosesLate | CloseFails exn

text \<open>What the rest of the program does meanwhile: \<open>cl_wait\<close> also says whether the wait is cancelled.\<close>

record closing =
  cl_close :: "nat \<Rightarrow> close_result"
  cl_meanwhile :: "nat \<Rightarrow> run_scope \<Rightarrow> run_scope"
  cl_wait :: "nat list \<Rightarrow> run_scope \<Rightarrow> exn option \<times> run_scope"

definition late_close :: "close_result \<Rightarrow> bool" where
  "late_close r = (case r of ClosesLate \<Rightarrow> True | CloseFails e \<Rightarrow> isinstance_exn e TimeoutError | _ \<Rightarrow> False)"

definition close_errors :: "close_result \<Rightarrow> exn list" where
  "close_errors r =
     (if late_close r then [raised CleanupTimeoutError ''stream aclose timed out'']
      else case r of CloseFails e \<Rightarrow> [e] | _ \<Rightarrow> [])"

fun close_streams :: "closing \<Rightarrow> nat list \<Rightarrow> run_scope \<Rightarrow> (exn list \<times> bool) \<times> run_scope" where
  "close_streams w [] s = (([], False), s)"
| "close_streams w (i # is) s =
     (case cl_close w i of
        NoCloser \<Rightarrow> close_streams w is s
      | r \<Rightarrow>
          (case close_streams w is (cl_meanwhile w i (s\<lparr>sc_released := sc_released s @ [i]\<rparr>)) of
             ((errors, late), s) \<Rightarrow> ((close_errors r @ errors, late_close r \<or> late), s)))"

text \<open>\<^verbatim>\<open>repr(exc)\<close> of an exception with at most one argument.\<close>

definition repr_exn :: "exn \<Rightarrow> string" where
  "repr_exn e = class_name (exn_kind e) @ ''('' @ (if exn_message e = [] then [] else repr_str (exn_message e)) @ '')''"

definition wrapped_error :: "exn \<Rightarrow> exn" where
  "wrapped_error e = (if isinstance_exn e Exception then e else raised Exception (repr_exn e))"

text \<open>The end of \<^verbatim>\<open>aclose\<close>: the outcome is kept for the callers that come later.\<close>

definition finish_close :: "exn list \<Rightarrow> bool \<Rightarrow> run_scope \<Rightarrow> (exn, unit, run_scope) outcome" where
  "finish_close errors timed_out s =
     (let still_running = unfinished s in
      if timed_out \<or> still_running \<noteq> []
      then
        (let e = raised CleanupTimeoutError (''cleanup timed out with '' @ int_str (int (length still_running)) @
                   '' task(s) still running'')
         in (Inl e, s\<lparr>sc_error := Some e, sc_closed := True\<rparr>))
      else if errors \<noteq> []
      then
        (let e = raised ExceptionGroup ''one or more resource releases failed''
         in (Inl e, s\<lparr>sc_error := Some e, sc_failures := map wrapped_error errors, sc_closed := True\<rparr>))
      else (Inr (), s\<lparr>sc_closed := True\<rparr>))"

text \<open>\<^verbatim>\<open>aclose\<close>; \<open>None\<close> is a caller that waits for the first one to finish.\<close>

definition scope_aclose :: "closing \<Rightarrow> run_scope \<Rightarrow> (exn, unit, run_scope) outcome option" where
  "scope_aclose w s =
     (if sc_close_started s
      then if sc_closed s then Some (case sc_error s of Some e \<Rightarrow> (Inl e, s) | None \<Rightarrow> (Inr (), s)) else None
      else Some
        (case close_streams w (sc_streams s) (s\<lparr>sc_close_started := True\<rparr>) of
           ((errors, late), s) \<Rightarrow>
             (let pending = unfinished s; s = s\<lparr>sc_cancelled := sc_cancelled s @ pending\<rparr> in
              if pending = [] then finish_close errors late s
              else
                (case cl_wait w pending s of
                   (Some e, s) \<Rightarrow> (Inl e, s)
                 | (None, s) \<Rightarrow> finish_close errors (late \<or> list_ex (\<lambda>t. t \<notin> set (sc_done s)) pending) s))))"

section \<open>Awaiting under cancellation\<close>

text \<open>The counter of a task's cancellation requests; no task, no counter.\<close>

fun uncancel :: "nat \<Rightarrow> nat \<Rightarrow> nat \<times> nat" where
  "uncancel 0 suppressed = (0, suppressed)"
| "uncancel (Suc n) suppressed = uncancel n (suppressed + 1)"

definition await_despite_cancellation :: "(nat option \<Rightarrow> 'r \<times> nat option) \<Rightarrow> nat option \<Rightarrow> 'r \<times> nat option" where
  "await_despite_cancellation body task =
     (case task of
        None \<Rightarrow> body None
      | Some n \<Rightarrow>
          (case uncancel n 0 of (n, suppressed) \<Rightarrow>
             (case body (Some n) of (r, task) \<Rightarrow> (r, map_option (\<lambda>n. n + suppressed) task))))"

lemma uncancel_all: "uncancel n k = (0, k + n)"
  by (induction n arbitrary: k) auto

text \<open>\<^verbatim>\<open>cancel_and_wait\<close>; the gathering may never end, then there is no result.\<close>

definition cancel_and_wait :: "(nat list \<Rightarrow> run_scope \<Rightarrow> run_scope option) \<Rightarrow> nat list \<Rightarrow> run_scope \<Rightarrow> run_scope option" where
  "cancel_and_wait gather tasks s =
     (let pending = filter (\<lambda>t. t \<notin> set (sc_done s)) tasks; s = s\<lparr>sc_cancelled := sc_cancelled s @ pending\<rparr>
      in if pending = [] then Some s else gather pending s)"

text \<open>The decision after \<^verbatim>\<open>asyncio.wait\<close>: the results of the tasks that are done.\<close>

definition stopped_by :: "stop_reason option \<Rightarrow> stop_reason option \<Rightarrow> exn" where
  "stopped_by stop first =
     raised CancelledRunError (stop_reason_value
       (case stop of Some reason \<Rightarrow> reason | None \<Rightarrow> (case first of Some reason \<Rightarrow> reason | None \<Rightarrow> HOST_CANCEL)))"

definition wait_next_result :: "(exn + 'a option) option \<Rightarrow> stop_reason option \<Rightarrow> stop_reason option \<Rightarrow> exn + 'a option" where
  "wait_next_result next stop first =
     (case next of
        Some r \<Rightarrow> r
      | None \<Rightarrow>
          if stop = None then Inl (raised CancelledRunError (stop_reason_value IDLE_TIMEOUT))
          else Inl (stopped_by stop first))"

definition wait_cancellable_result :: "(exn + 'a) option \<Rightarrow> stop_reason option \<Rightarrow> stop_reason option \<Rightarrow> exn + 'a" where
  "wait_cancellable_result work stop first =
     (case work of
        Some (Inr a) \<Rightarrow> Inr a
      | Some (Inl e) \<Rightarrow> if isinstance_exn e AsyncioCancelledError then Inl (stopped_by stop first) else Inl e
      | None \<Rightarrow> Inl (stopped_by stop first))"

section \<open>Callback streams\<close>

text \<open>The wrapped iterator, whose state is \<open>'i\<close>, and the callback with what it raises.\<close>

record 'i iterator =
  it_next :: "'i \<Rightarrow> (exn + runtime_event option) \<times> 'i"
  it_close :: "('i \<Rightarrow> exn option \<times> 'i) option"
  it_on_close :: "exn option option"

record 'i callback_stream =
  cb_iterator :: 'i
  cb_closed :: bool
  cb_close_count :: int
  cb_notified :: int

definition new_callback_stream :: "'i \<Rightarrow> 'i callback_stream" where
  "new_callback_stream i = \<lparr>cb_iterator = i, cb_closed = False, cb_close_count = 0, cb_notified = 0\<rparr>"

fun contains_text :: "string \<Rightarrow> string \<Rightarrow> bool" where
  "contains_text needle [] \<longleftrightarrow> needle = []"
| "contains_text needle (c # cs) \<longleftrightarrow> take (length needle) (c # cs) = needle \<or> contains_text needle cs"

definition notify_close :: "'i iterator \<Rightarrow> 'i callback_stream \<Rightarrow> (exn, unit, 'i callback_stream) outcome" where
  "notify_close it c =
     (case it_on_close it of
        None \<Rightarrow> (Inr (), c)
      | Some r \<Rightarrow> ((case r of None \<Rightarrow> Inr () | Some e \<Rightarrow> Inl e), c\<lparr>cb_notified := cb_notified c + 1\<rparr>))"

definition cb_aclose :: "'i iterator \<Rightarrow> 'i callback_stream \<Rightarrow> (exn, unit, 'i callback_stream) outcome" where
  "cb_aclose it c =
     (if cb_closed c then (Inr (), c)
      else
        let c = c\<lparr>cb_closed := True, cb_close_count := cb_close_count c + 1\<rparr> in
        (case it_close it of
           None \<Rightarrow> notify_close it c
         | Some f \<Rightarrow>
             (case f (cb_iterator c) of
                (None, i) \<Rightarrow> notify_close it (c\<lparr>cb_iterator := i\<rparr>)
              | (Some e, i) \<Rightarrow>
                  if isinstance_exn e RuntimeError \<and> contains_text ''already running'' (exn_message e)
                  then notify_close it (c\<lparr>cb_iterator := i\<rparr>)
                  else (Inl e, c\<lparr>cb_iterator := i\<rparr>))))"

text \<open>\<^verbatim>\<open>__anext__\<close>; \<open>None\<close> is \<^verbatim>\<open>StopAsyncIteration\<close>.\<close>

definition cb_anext :: "'i iterator \<Rightarrow> 'i callback_stream \<Rightarrow> (exn, runtime_event option, 'i callback_stream) outcome" where
  "cb_anext it c =
     (if cb_closed c then (Inr None, c)
      else
        (case it_next it (cb_iterator c) of
           (Inl e, i) \<Rightarrow> (Inl e, c\<lparr>cb_iterator := i\<rparr>)
         | (Inr (Some ev), i) \<Rightarrow> (Inr (Some ev), c\<lparr>cb_iterator := i\<rparr>)
         | (Inr None, i) \<Rightarrow> andthen (cb_aclose it (c\<lparr>cb_iterator := i\<rparr>)) (\<lambda>_ c. (Inr None, c))))"
section \<open>What closing a scope guarantees\<close>

text \<open>The rest of the program only finishes tasks and registers new ones meanwhile.\<close>

definition housekeeping :: "run_scope \<Rightarrow> run_scope \<Rightarrow> bool" where
  "housekeeping s s' \<longleftrightarrow>
     sc_close_started s' = sc_close_started s \<and> sc_closed s' = sc_closed s \<and> sc_error s' = sc_error s \<and>
     sc_released s' = sc_released s \<and> set (sc_done s) \<subseteq> set (sc_done s') \<and> set (sc_cancelled s) \<subseteq> set (sc_cancelled s') \<and>
     set (sc_tasks s) \<subseteq> set (sc_tasks s') \<union> set (sc_done s')"

definition fair_closing :: "closing \<Rightarrow> bool" where
  "fair_closing w \<longleftrightarrow> (\<forall>i s. housekeeping s (cl_meanwhile w i s)) \<and> (\<forall>ts s. housekeeping s (snd (cl_wait w ts s)))"

lemma housekeeping_trans: "housekeeping s s' \<Longrightarrow> housekeeping s' s'' \<Longrightarrow> housekeeping s s''"
  unfolding housekeeping_def by auto

lemma close_streams_Cons:
  "cl_close w i \<noteq> NoCloser \<Longrightarrow> close_streams w (i # is) s =
     (case close_streams w is (cl_meanwhile w i (s\<lparr>sc_released := sc_released s @ [i]\<rparr>)) of
        ((errors, late), s) \<Rightarrow> ((close_errors (cl_close w i) @ errors, late_close (cl_close w i) \<or> late), s))"
  by (cases "cl_close w i") simp_all

lemma close_streams_facts:
  assumes "fair_closing w" and "close_streams w is s = ((errors, late), s')"
  shows "housekeeping (s\<lparr>sc_released := sc_released s @ filter (\<lambda>i. cl_close w i \<noteq> NoCloser) is\<rparr>) s' \<and>
    errors = concat (map (close_errors \<circ> cl_close w) is) \<and> late = list_ex (late_close \<circ> cl_close w) is"
  using assms(2)
proof (induction "is" arbitrary: s errors late)
  case (Cons i "is")
  show ?case
  proof (cases "cl_close w i = NoCloser")
    case True
    then show ?thesis using Cons by (simp add: close_errors_def late_close_def)
  next
    case False
    let ?s = "s\<lparr>sc_released := sc_released s @ [i]\<rparr>"
    obtain errors' late' s1 where rest: "close_streams w is (cl_meanwhile w i ?s) = ((errors', late'), s1)"
      by (cases "close_streams w is (cl_meanwhile w i ?s)"; cases "fst (close_streams w is (cl_meanwhile w i ?s))") simp
    have "((errors, late), s') = ((close_errors (cl_close w i) @ errors', late_close (cl_close w i) \<or> late'), s1)"
      using Cons.prems unfolding close_streams_Cons [OF False] rest by simp
    then have both: "errors = close_errors (cl_close w i) @ errors'" "late = (late_close (cl_close w i) \<or> late')" "s1 = s'" by blast+
    note IH = Cons.IH [OF rest [unfolded \<open>s1 = s'\<close>]]
    have "housekeeping ?s (cl_meanwhile w i ?s)" using assms(1) by (simp add: fair_closing_def)
    then have "housekeeping (?s\<lparr>sc_released := sc_released ?s @ xs\<rparr>)
        ((cl_meanwhile w i ?s)\<lparr>sc_released := sc_released (cl_meanwhile w i ?s) @ xs\<rparr>)" for xs
      by (auto simp: housekeeping_def)
    from housekeeping_trans [OF this] IH show ?thesis using both False by simp
  qed
qed (simp add: housekeeping_def)

lemma finish_close_facts:
  assumes "finish_close errors late s = (r, s')" and "sc_error s = None"
  shows "sc_closed s' \<and> sc_error s' = (case r of Inl e \<Rightarrow> Some e | Inr _ \<Rightarrow> None) \<and> sc_close_started s' = sc_close_started s \<and>
    sc_released s' = sc_released s \<and> sc_done s' = sc_done s \<and> sc_cancelled s' = sc_cancelled s \<and> sc_tasks s' = sc_tasks s \<and>
    (r = Inr () \<longleftrightarrow> \<not> late \<and> errors = [] \<and> unfinished s = [])"
  using assms by (auto simp: finish_close_def Let_def split: if_splits)

text \<open>A scope that nobody has begun to close.\<close>

definition open_scope :: "run_scope \<Rightarrow> bool" where
  "open_scope s \<longleftrightarrow> \<not> sc_close_started s \<and> \<not> sc_closed s \<and> sc_error s = None"

lemma again_closed: "sc_close_started s \<Longrightarrow> sc_closed s \<Longrightarrow> sc_error s = (case r of Inl e \<Rightarrow> Some e | Inr _ \<Rightarrow> None) \<Longrightarrow>
   scope_aclose w s = Some (r, s)"
  by (cases r) (simp_all add: scope_aclose_def)

lemma unfinished_none: "unfinished s = [] \<longleftrightarrow> set (sc_tasks s) \<subseteq> set (sc_done s)"
  by (auto simp: unfinished_def filter_empty_conv)

lemma close_errors_none: "close_errors r = [] \<longleftrightarrow> r = NoCloser \<or> r = Closes" "late_close r \<Longrightarrow> close_errors r \<noteq> []"
  by (cases r; simp add: close_errors_def late_close_def)+

text \<open>The common end, with or without a wait for the tasks.\<close>

lemma closing_ends:
  assumes kept: "housekeeping (s\<lparr>sc_close_started := True, sc_released := rel\<rparr>) t" and "open_scope s"
    and fin: "finish_close errors late t = (r, s')" and "set (sc_tasks s) \<subseteq> set (sc_done t) \<union> set (sc_cancelled t)"
  shows "sc_released s' = rel \<and> set (sc_tasks s) \<subseteq> set (sc_done s') \<union> set (sc_cancelled s') \<and>
    (r = Inr () \<longrightarrow> errors = [] \<and> set (sc_tasks s) \<subseteq> set (sc_done s')) \<and>
    scope_aclose w' s' = (if sc_closed s' then Some (r, s') else None)"
proof -
  have "sc_error t = None" using kept assms(2) by (simp add: housekeeping_def open_scope_def)
  note ended = finish_close_facts [OF fin this]
  moreover have "scope_aclose w' s' = Some (r, s')"
    by (rule again_closed) (use ended kept in \<open>simp_all add: housekeeping_def\<close>)
  ultimately show ?thesis
    using kept assms(4) by (auto simp: housekeeping_def unfinished_none)
qed

section \<open>What a callback stream guarantees\<close>

datatype stream_call = CallNext | CallClose

fun cb_call :: "'i iterator \<Rightarrow> stream_call \<Rightarrow> 'i callback_stream \<Rightarrow> 'i callback_stream" where
  "cb_call it CallNext c = snd (cb_anext it c)"
| "cb_call it CallClose c = snd (cb_aclose it c)"

definition cb_run :: "'i iterator \<Rightarrow> stream_call list \<Rightarrow> 'i callback_stream \<Rightarrow> 'i callback_stream" where
  "cb_run it calls c = fold (cb_call it) calls c"

lemma cb_run_simps [simp]:
  "cb_run it [] c = c" "cb_run it (x # xs) c = cb_run it xs (cb_call it x c)"
  by (simp_all add: cb_run_def)

definition closed_once :: "'i callback_stream \<Rightarrow> bool" where
  "closed_once c \<longleftrightarrow> cb_close_count c = (if cb_closed c then 1 else 0) \<and> 0 \<le> cb_notified c \<and> cb_notified c \<le> cb_close_count c"

lemma aclose_closed_once: "closed_once c \<Longrightarrow> closed_once (snd (cb_aclose it c)) \<and> cb_closed (snd (cb_aclose it c))"
  by (auto simp: closed_once_def cb_aclose_def notify_close_def Let_def split: option.split prod.split if_splits)

lemma closed_once_iterator [simp]: "closed_once (c\<lparr>cb_iterator := i\<rparr>) = closed_once c"
  by (simp add: closed_once_def)

lemma cb_call_closed_once: "closed_once c \<Longrightarrow> closed_once (cb_call it x c)"
  by (cases x)
    (auto simp: cb_anext_def aclose_closed_once split: prod.split sum.split option.split
      intro!: andthen_keeps [where P = closed_once])

lemma cb_call_closed: "cb_closed c \<Longrightarrow> cb_call it x c = c"
  by (cases x) (simp_all add: cb_anext_def cb_aclose_def)

lemma cb_run_closed_once: "closed_once c \<Longrightarrow> closed_once (cb_run it calls c)"
  by (induction calls arbitrary: c) (simp_all add: cb_call_closed_once)

lemma cb_run_closed: "cb_closed c \<Longrightarrow> cb_run it calls c = c"
  by (induction calls) (simp_all add: cb_call_closed)

text \<open>A callback stream is closed at most once: after any sequence of pulls and closes, raised errors
included, it was closed, its iterator released and its callback called at most once, and once it is
closed nothing changes any more and every pull ends the iteration.\<close>

theorem callback_stream_closes_once:
  assumes "c = cb_run it calls (new_callback_stream i)"
  shows "cb_close_count c = (if cb_closed c then 1 else 0) \<and> cb_notified c \<le> cb_close_count c \<and>
    (cb_closed c \<longrightarrow> cb_run it others c = c \<and> fst (cb_anext it c) = Inr None)"
proof -
  have "closed_once (new_callback_stream i)" by (simp add: closed_once_def new_callback_stream_def)
  then have "closed_once c" unfolding assms by (rule cb_run_closed_once)
  then show ?thesis by (auto simp: closed_once_def cb_run_closed cb_anext_def)
qed

section \<open>Waits\<close>

text \<open>The waits of the run use these decisions; work that is ready wins over a stop.\<close>

lemma wait_for_decides:
  "fst (wait_for env idle s) =
     (if env_ready env (rs_clock s) \<or> stop_reason_now (pause env s) = None \<and> \<not> idle then Inr ()
      else case wait_next_result None (stop_reason_now (pause env s)) None of Inl e \<Rightarrow> Inl e | Inr _ \<Rightarrow> Inr ())"
  by (auto simp: wait_for_def wait_next_result_def stopped_by_def Let_def split: option.split)

lemma cancelled_work_decides:
  "fst (drain (gcatch (act f) cancelled_work) s) = []"
  "fst (snd (drain (gcatch (act f) cancelled_work) s)) =
     wait_cancellable_result (Some (fst (f s))) None (stop_reason_now (snd (f s)))"
proof -
  have "drain (gcatch (act f) cancelled_work) s =
    ([], wait_cancellable_result (Some (fst (f s))) None (stop_reason_now (snd (f s))), snd (f s))"
    by (cases "f s"; cases "fst (f s)")
      (auto simp: drain_simps wait_cancellable_result_def cancelled_work_def stopped_by_def split: option.split)
  then show "fst (drain (gcatch (act f) cancelled_work) s) = []"
    "fst (snd (drain (gcatch (act f) cancelled_work) s)) =
       wait_cancellable_result (Some (fst (f s))) None (stop_reason_now (snd (f s)))" by simp_all
qed

text \<open>The cancellation requests of a task survive the work that is awaited despite them.\<close>

lemma requests_survive:
  "await_despite_cancellation body (Some n) = (case body (Some 0) of (r, task) \<Rightarrow> (r, map_option (\<lambda>m. m + n) task))"
  by (simp add: await_despite_cancellation_def uncancel_all)

lemma cancel_and_wait_ends:
  assumes "cancel_and_wait gather tasks s = Some s'"
    and "\<And>ts t t'. gather ts t = Some t' \<Longrightarrow> set ts \<subseteq> set (sc_done t') \<and> set (sc_done t) \<subseteq> set (sc_done t')"
  shows "set tasks \<subseteq> set (sc_done s')"
proof (cases "filter (\<lambda>t. t \<notin> set (sc_done s)) tasks = []")
  case True
  then show ?thesis using assms(1) by (auto simp: cancel_and_wait_def filter_empty_conv)
next
  case False
  then have "gather (filter (\<lambda>t. t \<notin> set (sc_done s)) tasks)
      (s\<lparr>sc_cancelled := sc_cancelled s @ filter (\<lambda>t. t \<notin> set (sc_done s)) tasks\<rparr>) = Some s'"
    using assms(1) by (simp add: cancel_and_wait_def Let_def)
  from assms(2) [OF this] show ?thesis by auto
qed

section \<open>Concrete closings\<close>

definition demo_closing :: closing where
  "demo_closing = \<lparr>cl_close = (\<lambda>i. if i = 0 then CloseFails (raised ValueError ''broken'') else Closes), cl_meanwhile = (\<lambda>_ s. s),
     cl_wait = (\<lambda>ts s. (None, fold finish_task ts s))\<rparr>"

definition demo_scope :: run_scope where
  "demo_scope = register_task 7 (register_stream 1 (register_stream 0 new_scope))"

lemma housekeeping_finish: "housekeeping s (fold finish_task ts s)"
proof (induction ts arbitrary: s)
  case (Cons t ts)
  have "housekeeping s (finish_task t s)" by (auto simp: housekeeping_def finish_task_def)
  then show ?case using housekeeping_trans Cons by simp
qed (simp add: housekeeping_def)

lemma demo_closing_fair: "fair_closing demo_closing"
  by (simp add: fair_closing_def demo_closing_def housekeeping_finish) (simp add: housekeeping_def)

lemma demo_scope_closed:
  "\<exists>s'. scope_aclose demo_closing demo_scope = Some (Inl (raised ExceptionGroup ''one or more resource releases failed''), s')"
proof -
  have "map_option fst (scope_aclose demo_closing demo_scope) = Some (Inl (raised ExceptionGroup ''one or more resource releases failed''))"
    by code_simp
  then show ?thesis by (cases "scope_aclose demo_closing demo_scope") auto
qed


theorem callback_stream_closes_once_witness:
  "cb_close_count (cb_run \<lparr>it_next = (\<lambda>n. (Inr None, n + 1)), it_close = None, it_on_close = Some None\<rparr> [CallNext, CallClose]
     (new_callback_stream (0::nat))) = 1"
  using callback_stream_closes_once [OF refl, of "\<lparr>it_next = (\<lambda>n. (Inr None, n + 1)), it_close = None, it_on_close = Some None\<rparr>"
      "[CallNext, CallClose]" "0::nat" "[]"]
  by (simp add: new_callback_stream_def cb_anext_def cb_aclose_def notify_close_def)

end
