(* ===== verification/Run_Stream.thy ===== *)
theory Run_Stream imports Closing Lifecycle begin

text \<open>
  The public stream \<^verbatim>\<open>DefaultRuntime.run\<close>: the generator of a run behind a \<^verbatim>\<open>CallbackStream\<close>.  A suspended
  generator is what its next pull and what its close would run, \<open>None\<close> when it is finished; before its
  start a close has nothing to run.
\<close>

section \<open>Generators as iterators\<close>

type_synonym suspended = "(bool gen \<times> bool gen) option \<times> run_state"

primrec advance :: "bool gen \<Rightarrow> run_state \<Rightarrow> (exn + runtime_event option) \<times> suspended" where
  "advance (Ret a) s = (Inr None, None, s)"
| "advance (Raise e) s = (Inl e, None, s)"
| "advance (Yield ev g c) s = (Inr (Some ev), Some (g, c), s)"
| "advance (Step u n) s = advance (n s) (u s)"

definition gen_next :: "suspended \<Rightarrow> (exn + runtime_event option) \<times> suspended" where
  "gen_next i = (case i of (None, s) \<Rightarrow> (Inr None, None, s) | (Some (g, c), s) \<Rightarrow> advance g s)"

text \<open>Closing a generator: it may end or raise, but it must not yield.\<close>

primrec unwind :: "bool gen \<Rightarrow> run_state \<Rightarrow> exn option \<times> suspended" where
  "unwind (Ret a) s = (None, None, s)"
| "unwind (Raise e) s = ((if isinstance_exn e GeneratorExit then None else Some e), None, s)"
| "unwind (Yield ev g c) s = (Some (raised RuntimeError ''async generator ignored GeneratorExit''), Some (g, c), s)"
| "unwind (Step u n) s = unwind (n s) (u s)"

definition gen_close :: "suspended \<Rightarrow> exn option \<times> suspended" where
  "gen_close i = (case i of (None, s) \<Rightarrow> (None, None, s) | (Some (g, c), s) \<Rightarrow> unwind c s)"

definition gen_iterator :: "suspended iterator" where
  "gen_iterator = \<lparr>it_next = gen_next, it_close = Some gen_close, it_on_close = None\<rparr>"

text \<open>\<^verbatim>\<open>run\<close>: nothing happens before the first pull.\<close>

definition run :: "runtime_host \<Rightarrow> environment \<Rightarrow> run_request \<Rightarrow> nat \<Rightarrow> run_state \<Rightarrow> suspended callback_stream" where
  "run host env request fuel s = new_callback_stream (Some (run_stream host env request fuel, Raise exit_exn), s)"

section \<open>A consumer that takes some events and leaves\<close>

fun take_events :: "'i iterator \<Rightarrow> nat \<Rightarrow> 'i callback_stream \<Rightarrow> runtime_event list \<times> (exn, unit, 'i callback_stream) outcome" where
  "take_events it 0 c = ([], Inr (), c)"
| "take_events it (Suc n) c =
     (case cb_anext it c of
        (Inl e, c) \<Rightarrow> ([], Inl e, c)
      | (Inr None, c) \<Rightarrow> ([], Inr (), c)
      | (Inr (Some ev), c) \<Rightarrow> (case take_events it n c of (evs, r) \<Rightarrow> (ev # evs, r)))"

definition visit :: "'i iterator \<Rightarrow> nat \<Rightarrow> 'i callback_stream \<Rightarrow> runtime_event list \<times> (exn, unit, 'i callback_stream) outcome" where
  "visit it n c =
     (case take_events it n c of
        (evs, Inl e, c) \<Rightarrow> (evs, Inl e, c)
      | (evs, Inr _, c) \<Rightarrow> (evs, cb_aclose it c))"

text \<open>Where a generator is suspended after \<open>n\<close> events, if it has so many.\<close>

primrec after_events :: "'a gen \<Rightarrow> nat \<Rightarrow> run_state \<Rightarrow> ('a gen \<times> 'a gen \<times> run_state) option" where
  "after_events (Ret a) n s = None"
| "after_events (Raise e) n s = None"
| "after_events (Yield ev g c) n s = (if n \<le> 1 then Some (g, c, s) else after_events g (n - 1) s)"
| "after_events (Step u n') n s = after_events (n' s) n (u s)"

lemma after_events_None: "0 < n \<Longrightarrow> after_events g n s = None \<longleftrightarrow> length (fst (drain g s)) < n"
proof (induction g arbitrary: n s)
  case (Yield ev g c)
  then show ?case by (auto split: prod.split)
qed auto

lemma after_events_closed: "closed_by Q g \<Longrightarrow> after_events g n s = Some (g', c, s') \<Longrightarrow> Q c"
proof (induction g arbitrary: n s)
  case (Step u k)
  then show ?case using Step.IH [of "k s" n "u s"] by simp
qed (auto split: if_splits)

section \<open>Pulling\<close>

definition open_stream :: "suspended \<Rightarrow> suspended callback_stream \<Rightarrow> bool" where
  "open_stream i c \<longleftrightarrow> \<not> cb_closed c \<and> cb_iterator c = i"

text \<open>The next event of a suspended generator, against all its events.\<close>

lemma advance_drain:
  "(case advance g s of
      (Inl e, i) \<Rightarrow> i = (None, snd (snd (drain g s))) \<and> fst (drain g s) = [] \<and> fst (snd (drain g s)) = Inl e
    | (Inr None, i) \<Rightarrow> i = (None, snd (snd (drain g s))) \<and> fst (drain g s) = [] \<and> (\<exists>a. fst (snd (drain g s)) = Inr a)
    | (Inr (Some ev), i) \<Rightarrow> (\<exists>g' c' s'. i = (Some (g', c'), s') \<and> drain g s = (ev # fst (drain g' s'), snd (drain g' s')) \<and>
        (\<forall>n. after_events g n s = (if n \<le> 1 then Some (g', c', s') else after_events g' (n - 1) s'))))"
proof (induction g arbitrary: s)
  case (Step u n)
  show ?case unfolding advance.simps drain.simps after_events.simps by (rule Step.IH) simp
qed (auto split: prod.split)

text \<open>How a run ended that the consumer saw to its end.\<close>

definition ended :: "exn + bool \<Rightarrow> exn + unit" where
  "ended r = (case r of Inl e \<Rightarrow> Inl e | Inr _ \<Rightarrow> Inr ())"

lemma anext_open:
  assumes "open_stream (Some (g, c0), s) c"
  shows "case advance g s of
      (Inl e, i) \<Rightarrow> \<exists>c'. cb_anext gen_iterator c = (Inl e, c') \<and> open_stream i c'
    | (Inr None, i) \<Rightarrow> \<exists>c'. cb_anext gen_iterator c = (Inr None, c') \<and> cb_closed c' \<and> cb_iterator c' = (None, snd i)
    | (Inr (Some ev), i) \<Rightarrow> \<exists>c'. cb_anext gen_iterator c = (Inr (Some ev), c') \<and> open_stream i c'"
proof -
  have i: "fst i = None" if "advance g s = (Inr None, i)" for i
    using advance_drain [of g s] that by simp
  show ?thesis
    using assms i
    by (auto simp: open_stream_def cb_anext_def gen_iterator_def gen_next_def cb_aclose_def gen_close_def notify_close_def
        andthen_def Let_def split: prod.split sum.split option.split)
qed

text \<open>What \<open>n\<close> pulls give, and in which state they leave the stream.\<close>

lemma take_run:
  assumes "open_stream (Some (g, c0), s) c" and "0 < n"
  shows "case after_events g n s of
      Some (g', k, s') \<Rightarrow> \<exists>c'. take_events gen_iterator n c = (take n (fst (drain g s)), Inr (), c') \<and> open_stream (Some (g', k), s') c'
    | None \<Rightarrow> \<exists>c'. take_events gen_iterator n c = (fst (drain g s), ended (fst (snd (drain g s))), c') \<and>
        cb_iterator c' = (None, snd (snd (drain g s))) \<and> (case fst (snd (drain g s)) of Inr _ \<Rightarrow> cb_closed c' | Inl _ \<Rightarrow> True)"
  using assms
proof (induction n arbitrary: g c0 s c)
  case (Suc n)
  note adv = advance_drain [of g s] and next_event = anext_open [OF Suc.prems(1)]
  obtain r i where a: "advance g s = (r, i)" by (rule prod.exhaust)
  show ?case
  proof (cases r)
    case (Inl e)
    then show ?thesis
      using adv next_event a after_events_None [of "Suc n" g s] by (auto simp: open_stream_def ended_def)
  next
    case (Inr x)
    show ?thesis
    proof (cases x)
      case None
      then show ?thesis
        using adv next_event a Inr after_events_None [of "Suc n" g s] by (auto simp: ended_def)
    next
      case (Some ev)
      obtain g' k s' where i: "i = (Some (g', k), s')" "drain g s = (ev # fst (drain g' s'), snd (drain g' s'))"
        "\<And>n. after_events g n s = (if n \<le> 1 then Some (g', k, s') else after_events g' (n - 1) s')"
        using adv a Inr Some by auto
      obtain c' where c': "cb_anext gen_iterator c = (Inr (Some ev), c')" "open_stream (Some (g', k), s') c'"
        using next_event a Inr Some i(1) by auto
      show ?thesis
      proof (cases n)
        case 0
        then show ?thesis using c' i by simp
      next
        case (Suc m)
        then show ?thesis using Suc.IH [OF c'(2)] c'(1) i by (auto split: option.splits)
      qed
    qed
  qed
qed simp

section \<open>Leaving\<close>

lemma unwind_drain:
  assumes "drain g s = ([], r, s')"
  shows "unwind g s = ((case r of Inl e \<Rightarrow> if isinstance_exn e GeneratorExit then None else Some e | Inr _ \<Rightarrow> None), None, s')"
  using assms by (induction g arbitrary: s) (auto split: prod.splits)

lemma close_silently:
  assumes "open_stream (Some (g, k), s) c" and "drain k s = ([], Inl exit_exn, s')"
  shows "\<exists>c'. cb_aclose gen_iterator c = (Inr (), c') \<and> cb_closed c' \<and> cb_iterator c' = (None, s')"
  using assms
  by (simp add: open_stream_def cb_aclose_def gen_iterator_def gen_close_def unwind_drain notify_close_def Let_def)

text \<open>A stream left in the state \<open>s\<close> of its run: closing succeeds, and the run was closed properly.\<close>

definition left_properly :: "environment \<Rightarrow> run_state \<Rightarrow> (exn, unit, suspended callback_stream) outcome \<Rightarrow> bool" where
  "left_properly env s rc \<longleftrightarrow>
     (control_wf (rs_control s) \<longrightarrow> fst rc = Inr () \<and> cb_closed (snd rc) \<and> fst (cb_iterator (snd rc)) = None \<and>
        closed_properly env s ([], Inl exit_exn :: exn + bool, snd (cb_iterator (snd rc))))"


end
