(* ===== verification/Op_Ids.thy ===== *)
theory Op_Ids imports Runner begin

text \<open>
  The ids of logical operations: what the transcript recognises a repetition by.  They are built by the
  pipelines (\<^verbatim>\<open>pipelines/\<close>), the runner (the input) and the transcript (the end of a run), each as fields
  joined by colons.
\<close>

datatype logical_op =
    InputOp string nat
  | DeltaOp step_identity record_target int int
  | FinalOp step_identity record_target int
  | CallsOp step_identity record_target
  | ResultsOp step_identity record_target
  | EndOp string run_status

definition input_op :: "string \<Rightarrow> nat \<Rightarrow> string" where
  "input_op run_id index = run_id @ '':input:'' @ int_str (int index)"

lemma record_inputs_op:
  "record_inputs env request index (m # ms) =
     gbind (awaiting env (on_transcript (record_input (rq_run_id request) (rq_record_target request) m
       (input_op (rq_run_id request) index)))) (\<lambda>_. record_inputs env request (index + 1) ms)"
  by (simp add: input_op_def)

fun op_id :: "logical_op \<Rightarrow> string" where
  "op_id (InputOp run_id index) = input_op run_id index"
| "op_id (DeltaOp i target attempt n) = delta_op i target attempt n"
| "op_id (FinalOp i target attempt) = final_op i target attempt"
| "op_id (CallsOp i target) = calls_op i target"
| "op_id (ResultsOp i target) = results_op i target"
| "op_id (EndOp run_id status) = finalize_op run_id status"

text \<open>What an operation is apart from the model round, which is no part of its id.\<close>

fun op_subject :: "logical_op \<Rightarrow> string \<times> int option \<times> string \<times> int list \<times> string" where
  "op_subject (InputOp run_id index) = (run_id, None, [], [int index], ''input'')"
| "op_subject (DeltaOp i target attempt n) = (si_run_id i, Some (si_step_no i), rt_value target, [attempt, n], ''delta'')"
| "op_subject (FinalOp i target attempt) = (si_run_id i, Some (si_step_no i), rt_value target, [attempt], ''final'')"
| "op_subject (CallsOp i target) = (si_run_id i, Some (si_step_no i), rt_value target, [], ''tool_calls'')"
| "op_subject (ResultsOp i target) = (si_run_id i, Some (si_step_no i), rt_value target, [], ''tool_results'')"
| "op_subject (EndOp run_id status) = (run_id, None, [], [], run_status_value status)"

text \<open>The target of an operation has no colon.\<close>

fun plain_target :: "logical_op \<Rightarrow> bool" where
  "plain_target (DeltaOp i target attempt n) \<longleftrightarrow> CHR '':'' \<notin> set (rt_value target)"
| "plain_target (FinalOp i target attempt) \<longleftrightarrow> CHR '':'' \<notin> set (rt_value target)"
| "plain_target (CallsOp i target) \<longleftrightarrow> CHR '':'' \<notin> set (rt_value target)"
| "plain_target (ResultsOp i target) \<longleftrightarrow> CHR '':'' \<notin> set (rt_value target)"
| "plain_target _ \<longleftrightarrow> True"

section \<open>Reading the fields from the back\<close>

text \<open>An id as its fields in reverse: the last field, and what stands before the last colon.\<close>

definition joined :: "string \<Rightarrow> string \<Rightarrow> string" where
  "joined front field = front @ CHR '':'' # field"

lemma joined_eq:
  "CHR '':'' \<notin> set f \<Longrightarrow> CHR '':'' \<notin> set g \<Longrightarrow> joined a f = joined b g \<longleftrightarrow> a = b \<and> f = g"
  using field_back [of "CHR '':''" f g a b] by (auto simp: joined_def)

definition attempt_field :: "int \<Rightarrow> string" where
  "attempt_field attempt = CHR ''a'' # int_str attempt"

lemma attempt_field_facts [simp]:
  "CHR '':'' \<notin> set (attempt_field a)" "attempt_field a = attempt_field b \<longleftrightarrow> a = b"
  by (simp_all add: attempt_field_def)

lemma step_op_joined: "step_op i t = joined (joined (si_run_id i) (int_str (si_step_no i))) (rt_value t)"
  by (simp add: step_op_def joined_def)

lemma op_id_joined:
  "op_id (InputOp r index) = joined (joined r ''input'') (int_str (int index))"
  "op_id (DeltaOp i t a n) = joined (joined (joined (step_op i t) (attempt_field a)) ''delta'') (int_str n)"
  "op_id (FinalOp i t a) = joined (joined (step_op i t) (attempt_field a)) ''final''"
  "op_id (CallsOp i t) = joined (step_op i t) ''tool_calls''"
  "op_id (ResultsOp i t) = joined (step_op i t) ''tool_results''"
  "op_id (EndOp r st) = joined (joined r ''finalize'') (run_status_value st)"
  by (simp_all add: joined_def attempt_field_def input_op_def delta_op_def final_op_def calls_op_def results_op_def finalize_op_def)

text \<open>The last field is a number, or one of the words that name the other kinds of operations.\<close>

lemma number_field: "int_str n \<noteq> ''final''" "int_str n \<noteq> ''tool_calls''" "int_str n \<noteq> ''tool_results''"
  "int_str n \<noteq> run_status_value st"
  using last_int_str_digit [of n] by (auto; cases st; auto)+

lemma status_field: "run_status_value st \<noteq> ''final''"
  "run_status_value st \<noteq> ''tool_calls''" "run_status_value st \<noteq> ''tool_results''" "run_status_value st \<noteq> ''input''"
  "run_status_value st \<noteq> ''delta''"
  by (cases st; simp)+

lemma status_clean [simp]: "CHR '':'' \<notin> set (run_status_value st)" "run_status_value st = run_status_value st' \<longleftrightarrow> st = st'"
  by (cases st; simp) (cases st; cases st'; simp)

lemmas field_facts = joined_eq number_field number_field [symmetric] status_field status_field [symmetric]

text \<open>With a colon in the target the fields run into each other.\<close>

lemma colon_target_collides:
  "op_id (CallsOp \<lparr>si_run_id = ''r'', si_step_no = 1, si_model_round = 1\<rparr> \<lparr>rt_value = ''a:2:b''\<rparr>) =
   op_id (CallsOp \<lparr>si_run_id = ''r:1:a'', si_step_no = 2, si_model_round = 1\<rparr> \<lparr>rt_value = ''b''\<rparr>)"
  by code_simp

text \<open>C17: The ids of logical operations name them: as long as no record target contains a colon, two operations
have the same id exactly when they are the same operation of the same run, step, target, attempt and
number; in particular the operations of different kinds, of different attempts and of different
runs sharing a transcript are never taken for repetitions of each other, whatever the run ids are.\<close>

theorem op_ids_are_unambiguous:
  assumes "plain_target a" and "plain_target b"
  shows "op_id a = op_id b \<longleftrightarrow> op_subject a = op_subject b"
  using assms
  by (cases a; cases b; simp only: op_id_joined step_op_joined op_subject.simps plain_target.simps)
    (auto simp: field_facts)

theorem op_ids_are_unambiguous_witness:
  "op_id (DeltaOp \<lparr>si_run_id = ''r:1:x'', si_step_no = 2, si_model_round = 1\<rparr> \<lparr>rt_value = ''t''\<rparr> 1 3) \<noteq>
   op_id (InputOp ''r:1:x:2:t:a1'' 3)"
  using op_ids_are_unambiguous [of "DeltaOp \<lparr>si_run_id = ''r:1:x'', si_step_no = 2, si_model_round = 1\<rparr> \<lparr>rt_value = ''t''\<rparr> 1 3"
    "InputOp ''r:1:x:2:t:a1'' 3"] by simp

end
