(* ===== verification/Assembly.thy ===== *)
theory Assembly imports Run_Liveness begin

text \<open>
  How a host makes a runtime: \<^verbatim>\<open>assemble_default\<close> with its keyword arguments and \<^verbatim>\<open>DefaultRuntime.__init__\<close>.
  Registries are numbers into a store, as in the theory of the providers.
\<close>

section \<open>Keyword arguments\<close>

text \<open>A factory of a store is what it returns.\<close>

record runtime_args =
  ra_model :: low_level_model
  ra_invoker :: tool_invoker
  ra_tools :: "tool_spec list"
  ra_bindings :: "nat option"
  ra_provider :: "provider option"
  ra_idle_timeout :: "rat option"
  ra_phase_idle_timeout :: "rat option"
  ra_completion_policy :: "completion_policy option"
  ra_result_policy :: "(invocation_outcome list \<Rightarrow> tool_batch_command \<Rightarrow> run_state \<Rightarrow>
      (exn, flow_decision, run_state) outcome) option"
  ra_cleanup_timeout :: rat
  ra_transcript_factory :: "transcript option"
  ra_application_factory :: "(record_target \<Rightarrow> app_state) option"
  ra_contributors :: "contributor list"
  ra_compressor :: "(message list \<Rightarrow> int \<Rightarrow> estimator \<Rightarrow> int \<Rightarrow> compression) option"
  ra_summaries :: "(string \<rightharpoonup> summary_projection) option"
  ra_observer :: "(observed \<Rightarrow> exn option) option"
  ra_budget :: "token_budget_policy option"
  ra_ports :: "port_overrides option"

definition default_args :: "low_level_model \<Rightarrow> tool_invoker \<Rightarrow> runtime_args" where
  "default_args model invoker =
     \<lparr>ra_model = model, ra_invoker = invoker, ra_tools = [], ra_bindings = None, ra_provider = None,
      ra_idle_timeout = None, ra_phase_idle_timeout = None, ra_completion_policy = None, ra_result_policy = None,
      ra_cleanup_timeout = 5, ra_transcript_factory = None, ra_application_factory = None,
      ra_contributors = [], ra_compressor = None, ra_summaries = None, ra_observer = None, ra_budget = None, ra_ports = None\<rparr>"

text \<open>\<^verbatim>\<open>NoOpObserver\<close> never raises.\<close>

definition no_op_observer :: "observed \<Rightarrow> exn option" where
  "no_op_observer ev = None"

text \<open>What the model takes from outside the program: the schema validator, the hash, the rendering of floats, and
how far the observer's pump gets before its close times out.\<close>

record platform =
  pl_validator :: json_validator
  pl_sha :: "string \<Rightarrow> string"
  pl_float :: "rat \<Rightarrow> string"
  pl_close_items :: nat

section \<open>The constructor\<close>

text \<open>The provider: the host's, or a fixed one over the given registry or over a new one with the number \<open>fresh\<close>.\<close>

definition runtime_provider :: "json_validator \<Rightarrow> runtime_args \<Rightarrow> nat \<Rightarrow> registries \<Rightarrow> (exn, provider, registries) outcome" where
  "runtime_provider jv args fresh rs =
     (case ra_provider args of
        Some p \<Rightarrow> (Inr p, rs)
      | None \<Rightarrow>
          (let (own, r) = (case ra_bindings args of Some own \<Rightarrow> (own, rs own) | None \<Rightarrow> (fresh, new_registry)) in
           case fixed_provider jv (ra_tools args) ''default'' [] r of
             (Inl e, _) \<Rightarrow> (Inl e, rs)
           | (Inr caps, r) \<Rightarrow> (Inr \<lparr>pv_resolve = fixed_resolve caps, pv_registry = Some own\<rparr>, rs(own := r))))"

text \<open>A runtime is its host's parts, the number of its registry, and what its runs start with.\<close>

record default_runtime =
  dr_host :: runtime_host
  dr_bindings :: nat
  dr_cleanup_timeout :: rat
  dr_transcript_factory :: transcript
  dr_application_factory :: "record_target \<Rightarrow> app_state"
  dr_summaries :: "string \<rightharpoonup> summary_projection"

definition new_runtime :: "platform \<Rightarrow> runtime_args \<Rightarrow> nat \<Rightarrow> registries \<Rightarrow> (exn, default_runtime, registries) outcome" where
  "new_runtime pl args fresh rs =
     andthen (runtime_provider (pl_validator pl) args fresh rs) (\<lambda>p rs.
       (Inr
         \<lparr>dr_host = \<lparr>rh_model = ra_model args, rh_invoker = ra_invoker args,
           rh_resolve = (\<lambda>request application s. (pv_resolve p request application, s)),
           rh_idle = (ra_idle_timeout args \<noteq> None), rh_phase_idle = (ra_phase_idle_timeout args \<noteq> None),
           rh_completion_policy = ra_completion_policy args, rh_result_policy = ra_result_policy args,
           rh_contributors = ra_contributors args, rh_compress = ra_compressor args, rh_budget = ra_budget args,
           rh_observer = (case ra_observer args of Some f \<Rightarrow> f | None \<Rightarrow> no_op_observer),
           rh_close_items = pl_close_items pl,
           rh_ports = (case ra_ports args of Some over \<Rightarrow> over | None \<Rightarrow> no_overrides),
           rh_sha = pl_sha pl, rh_float = pl_float pl, rh_validator = pl_validator pl\<rparr>,
          dr_bindings = runtime_registry (ra_bindings args) p fresh,
          dr_cleanup_timeout = ra_cleanup_timeout args,
          dr_transcript_factory = (case ra_transcript_factory args of Some t \<Rightarrow> t | None \<Rightarrow> new_transcript []),
          dr_application_factory = (case ra_application_factory args of Some f \<Rightarrow> f | None \<Rightarrow> new_app_state),
          dr_summaries = (case ra_summaries args of Some d \<Rightarrow> d | None \<Rightarrow> Map.empty)\<rparr>,
        if ra_bindings args = None \<and> pv_registry p = None then rs(fresh := new_registry) else rs))"

text \<open>\<^verbatim>\<open>assemble_default\<close>: the keyword arguments given are an update of the defaults.\<close>

definition assemble_runtime :: "platform \<Rightarrow> low_level_model \<Rightarrow> tool_invoker \<Rightarrow> (runtime_args \<Rightarrow> runtime_args) \<Rightarrow> nat \<Rightarrow>
    registries \<Rightarrow> (exn, default_runtime, registries) outcome" where
  "assemble_runtime pl model invoker keywords fresh rs = new_runtime pl (keywords (default_args model invoker)) fresh rs"

text \<open>The state in which a run starts: its stores come from the factories, its projections are those of the runtime;
\<open>initial\<close> stands for the capabilities until the provider has answered.\<close>

definition run_start :: "default_runtime \<Rightarrow> registries \<Rightarrow> run_request \<Rightarrow> run_control \<Rightarrow> rat \<Rightarrow> capability_snapshot \<Rightarrow> run_state" where
  "run_start rt rs request control now initial =
     new_run_state request (dr_transcript_factory rt) initial (rs (dr_bindings rt))
       (dr_application_factory rt (rq_record_target request)) (dr_summaries rt) control now (new_observer 256) 0"

text \<open>A run over the default transcript with a control that nobody has used starts undisturbed.\<close>

lemma run_start_undisturbed:
  assumes "assemble_runtime pl model invoker keywords fresh rs = (Inr rt, rs')"
    and "ra_transcript_factory (keywords (default_args model invoker)) = None"
  shows "undisturbed (rq_run_id request) (run_start rt rs' request (new_control deadline) now initial)"
proof -
  have "dr_transcript_factory rt = new_transcript []"
    using assms by (auto simp: assemble_runtime_def new_runtime_def elim!: andthen_InrE)
  then show ?thesis
    by (simp add: undisturbed_def run_start_def new_run_state_def new_control_def new_transcript_def)
qed

section \<open>The tools of an assembled runtime\<close>

lemma fixed_provider_Inr:
  assumes "fixed_provider jv specs key contributions r = (Inr caps, r')"
  shows "check_specs jv specs = Inr ()" and "cs_tools caps = specs"
    and "spec \<in> set specs \<Longrightarrow> resolve_binding (cs_binding_ref caps) (ts_name spec) r' = Inr key"
proof -
  show "check_specs jv specs = Inr ()" "cs_tools caps = specs"
    using assms by (auto simp: fixed_provider_def Let_def split: sum.splits prod.splits)
  assume "spec \<in> set specs"
  then show "resolve_binding (cs_binding_ref caps) (ts_name spec) r' = Inr key"
    using assms spec_bindings_Some [of "ts_name spec" specs "\<lambda>_. key"]
    by (auto simp: fixed_provider_def publish_bindings_def resolve_binding_def Let_def split: sum.splits prod.splits)
qed

lemma fixed_provider_Inl: "fixed_provider jv specs key contributions r = (Inl e, r') \<Longrightarrow> check_specs jv specs = Inl e"
  by (auto simp: fixed_provider_def Let_def split: sum.splits prod.splits)

lemma accept_fixed: "fixed_resolve caps request application = Inr resolution \<Longrightarrow> accept_resolution resolution = Inr caps"
  by (auto simp: fixed_resolve_def accept_resolution_def)

text \<open>A call is admitted when its tool is one of the specs and takes its arguments.\<close>

definition admitted :: "json_validator \<Rightarrow> capability_snapshot \<Rightarrow> tool_call \<Rightarrow> bool" where
  "admitted jv caps call =
     (case capability_tool caps (tc_name call) of None \<Rightarrow> False | Some spec \<Rightarrow> validate_tool_call jv spec call None = Inr ())"

lemma capability_tool_Some: "capability_tool caps name = Some spec \<Longrightarrow> spec \<in> set (cs_tools caps) \<and> ts_name spec = name"
  by (auto simp: capability_tool_def dest: find_tool_Some)

lemma executable_iff_admitted:
  assumes "\<And>spec. spec \<in> set (cs_tools caps) \<Longrightarrow> resolve_binding (cs_binding_ref caps) (ts_name spec) r = Inr key"
  shows "executable jv caps r call \<longleftrightarrow> admitted jv caps call"
proof (cases "capability_tool caps (tc_name call)")
  case (Some spec)
  then have "resolve_binding (cs_binding_ref caps) (tc_name call) r = Inr key"
    using assms [of spec] capability_tool_Some [of caps "tc_name call" spec] by simp
  then show ?thesis using Some by (simp add: executable_def admitted_def)
qed (simp add: executable_def admitted_def)

text \<open>C26: A runtime assembled from tools can execute what it offers.  Without a capability provider of the host,
either a tool is refused, with no registry changed, or every run of the runtime gets a snapshot with
exactly the given tools, in the registry that its tool pipeline looks bindings up in, whether
this registry was given or is new; so a batch of calls passes the validation of the pipeline
exactly when every call names one of the tools and fits its schema, and no other registry
is touched.  A provider of the host is used as it is.\<close>

theorem assembled_tools_are_executable:
  "let args = keywords (default_args model invoker); jv = pl_validator pl in
   case assemble_runtime pl model invoker keywords fresh rs of
     (Inl e, rs') \<Rightarrow> ra_provider args = None \<and> check_specs jv (ra_tools args) = Inl e \<and> rs' = rs
   | (Inr rt, rs') \<Rightarrow>
       (let host = dr_host rt; reg = dr_bindings rt in
        \<forall>request application s. case ra_provider args of
          Some p \<Rightarrow> rh_resolve host request application s = (pv_resolve p request application, s)
        | None \<Rightarrow>
            reg = (case ra_bindings args of Some own \<Rightarrow> own | None \<Rightarrow> fresh) \<and> rs' = rs(reg := rs' reg) \<and>
            (\<exists>resolution caps. rh_resolve host request application s = (Inr resolution, s) \<and>
               accept_resolution resolution = Inr caps \<and> cs_tools caps = ra_tools args \<and>
               (\<forall>calls. validate_calls jv caps (rs' reg) calls = Inr () \<longleftrightarrow> list_all (admitted jv caps) calls)))"
proof (cases "ra_provider (keywords (default_args model invoker))")
  case (Some p)
  then show ?thesis by (simp add: assemble_runtime_def new_runtime_def runtime_provider_def Let_def)
next
  case None
  let ?args = "keywords (default_args model invoker)" and ?jv = "pl_validator pl"
  obtain own r where own: "(case ra_bindings ?args of Some own \<Rightarrow> (own, rs own) | None \<Rightarrow> (fresh, new_registry)) = (own, r)"
    by (rule prod.exhaust)
  have reg: "own = (case ra_bindings ?args of Some own \<Rightarrow> own | None \<Rightarrow> fresh)"
    using own by (auto split: option.splits)
  obtain x r' where made: "fixed_provider ?jv (ra_tools ?args) ''default'' [] r = (x, r')" by (rule prod.exhaust)
  show ?thesis
  proof (cases x)
    case (Inl e)
    then have "assemble_runtime pl model invoker keywords fresh rs = (Inl e, rs)"
      using None own made by (simp add: assemble_runtime_def new_runtime_def runtime_provider_def)
    then show ?thesis using None Inl made fixed_provider_Inl by (auto simp: Let_def)
  next
    case (Inr caps)
    note fixed = fixed_provider_Inr [OF made [unfolded Inr]]
    have "\<And>calls. validate_calls ?jv caps r' calls = Inr () \<longleftrightarrow> list_all (admitted ?jv caps) calls"
      unfolding validate_calls_iff
      by (intro arg_cong2 [where f = list_all] ext executable_iff_admitted [where key = "''default''"] refl)
        (rule fixed(3), simp add: fixed(2))
    moreover obtain rt where "assemble_runtime pl model invoker keywords fresh rs = (Inr rt, rs(own := r'))"
        "dr_bindings rt = own" "rh_resolve (dr_host rt) = (\<lambda>request application s. (fixed_resolve caps request application, s))"
      using None own made Inr reg
      by (auto simp: assemble_runtime_def new_runtime_def runtime_provider_def runtime_registry_def split: option.splits)
    ultimately show ?thesis using None reg fixed(2) by (auto simp: Let_def fixed_resolve_def accept_resolution_def)
  qed
qed

end
