(* ===== verification/Json_Text.thy ===== *)
theory Json_Text imports Budget begin

text \<open>
  The two functions of Python's \<^verbatim>\<open>json\<close> module that the vendor adapter uses, \<^verbatim>\<open>dumps\<close> and \<^verbatim>\<open>loads\<close> with their
  default settings, on the strings of this development (characters up to 255).  The text of a float
  (\<open>fl\<close>) and its reading (\<open>pf\<close>) are parameters; \<^verbatim>\<open>NaN\<close> and the infinities are no rationals, so a
  text that mentions them is outside of the model and read as no JSON.
\<close>

section \<open>Writing\<close>

definition json_char :: "char \<Rightarrow> string" where
  "json_char c =
     (let n = of_char c :: nat in
      if n = 34 \<or> n = 92 then [CHR 0x5C, c]
      else if n = 10 then [CHR 0x5C, CHR ''n'']
      else if n = 13 then [CHR 0x5C, CHR ''r'']
      else if n = 9 then [CHR 0x5C, CHR ''t'']
      else if n = 12 then [CHR 0x5C, CHR ''f'']
      else if n = 8 then [CHR 0x5C, CHR ''b'']
      else if 32 \<le> n \<and> n \<le> 126 then [c]
      else [CHR 0x5C, CHR ''u'', CHR ''0'', CHR ''0'', hex_digit (n div 16), hex_digit (n mod 16)])"

definition json_string :: "string \<Rightarrow> string" where
  "json_string s = CHR 0x22 # concat (map json_char s) @ [CHR 0x22]"

fun json_key_text :: "mkey \<Rightarrow> string" where
  "json_key_text (MkStr s) = s"
| "json_key_text (MkInt i) = int_str i"
| "json_key_text (MkBool b) = (if b then ''true'' else ''false'')"
| "json_key_text MkNone = ''null''"

definition not_serializable :: "string \<Rightarrow> exn" where
  "not_serializable t = raised TypeError (''Object of type '' @ t @ '' is not JSON serializable'')"

fun json_dumps :: "(rat \<Rightarrow> string) \<Rightarrow> pyobj \<Rightarrow> exn + string" where
  "json_dumps fl PyNone = Inr ''null''"
| "json_dumps fl (PyStr s) = Inr (json_string s)"
| "json_dumps fl (PyInt i) = Inr (int_str i)"
| "json_dumps fl (PyFloat r) = Inr (fl r)"
| "json_dumps fl (PyBool b) = Inr (if b then ''true'' else ''false'')"
| "json_dumps fl (PyDict kvs) =
     (case map_result (\<lambda>kv. json_dumps fl (snd kv)) kvs of
        Inl e \<Rightarrow> Inl e
      | Inr ts \<Rightarrow> Inr (''{'' @ join '', '' (map2 (\<lambda>kv t. json_string (json_key_text (fst kv)) @ '': '' @ t) kvs ts) @ ''}''))"
| "json_dumps fl (PyProxy kvs) = Inl (not_serializable ''mappingproxy'')"
| "json_dumps fl (PyList xs) =
     (case map_result (json_dumps fl) xs of Inl e \<Rightarrow> Inl e | Inr ts \<Rightarrow> Inr (''['' @ join '', '' ts @ '']''))"
| "json_dumps fl (PyTuple xs) =
     (case map_result (json_dumps fl) xs of Inl e \<Rightarrow> Inl e | Inr ts \<Rightarrow> Inr (''['' @ join '', '' ts @ '']''))"
| "json_dumps fl (PyOther t) = Inl (not_serializable t)"

section \<open>Reading\<close>

definition is_json_space :: "char \<Rightarrow> bool" where
  "is_json_space c \<longleftrightarrow> (of_char c :: nat) \<in> {32, 9, 10, 13}"

definition skip_space :: "string \<Rightarrow> string" where
  "skip_space s = dropWhile is_json_space s"

definition hex_value :: "char \<Rightarrow> nat option" where
  "hex_value c =
     (let n = of_char c :: nat in
      if 48 \<le> n \<and> n \<le> 57 then Some (n - 48)
      else if 97 \<le> n \<and> n \<le> 102 then Some (n - 87)
      else if 65 \<le> n \<and> n \<le> 70 then Some (n - 55)
      else None)"

definition unescape :: "char \<Rightarrow> char option" where
  "unescape c =
     (let n = of_char c :: nat in
      if n = 34 \<or> n = 92 \<or> n = 47 then Some c
      else if n = 98 then Some (char_of (8::nat))
      else if n = 102 then Some (char_of (12::nat))
      else if n = 110 then Some (char_of (10::nat))
      else if n = 114 then Some (char_of (13::nat))
      else if n = 116 then Some (char_of (9::nat))
      else None)"

definition cons_char :: "char option \<Rightarrow> (string \<times> string) option \<Rightarrow> (string \<times> string) option" where
  "cons_char c r = (case c of None \<Rightarrow> None | Some c \<Rightarrow> map_option (\<lambda>(s, rest). (c # s, rest)) r)"

text \<open>\<^verbatim>\<open>\\uXXXX\<close>; a code above 255 is no character here.\<close>

definition code_char :: "char \<Rightarrow> char \<Rightarrow> char \<Rightarrow> char \<Rightarrow> char option" where
  "code_char a b c d =
     (case (hex_value a, hex_value b, hex_value c, hex_value d) of
        (Some 0, Some 0, Some x, Some y) \<Rightarrow> Some (char_of (16 * x + y))
      | _ \<Rightarrow> None)"

text \<open>The rest of a string after its opening quote, and what follows the closing one.\<close>

fun scan_string :: "string \<Rightarrow> (string \<times> string) option" where
  "scan_string [] = None"
| "scan_string (c # cs) =
     (if c = CHR 0x22 then Some ([], cs)
      else if c = CHR 0x5C
      then
        (case cs of
           [] \<Rightarrow> None
         | e # cs \<Rightarrow>
             if e = CHR ''u''
             then (case cs of a # b # x # y # cs \<Rightarrow> cons_char (code_char a b x y) (scan_string cs) | _ \<Rightarrow> None)
             else cons_char (unescape e) (scan_string cs))
      else if (of_char c :: nat) < 32 then None
      else cons_char (Some c) (scan_string cs))"

definition is_digit :: "char \<Rightarrow> bool" where
  "is_digit c \<longleftrightarrow> c \<in> set digits"

definition digits_value :: "string \<Rightarrow> int" where
  "digits_value s = foldl (\<lambda>n c. 10 * n + (of_char c - 48)) 0 s"

text \<open>The number token: \<^verbatim>\<open>(-?(?:0|[1-9][0-9]*))(\.[0-9]+)?([eE][-+]?[0-9]+)?\<close>.\<close>

definition scan_integer :: "string \<Rightarrow> (string \<times> string) option" where
  "scan_integer s =
     (let sign = (case s of c # _ \<Rightarrow> if c = CHR ''-'' then [c] else [] | [] \<Rightarrow> []); s = drop (length sign) s in
      case s of
        [] \<Rightarrow> None
      | c # cs \<Rightarrow>
          if c = CHR ''0'' then Some (sign @ [c], cs)
          else if is_digit c then Some (sign @ takeWhile is_digit s, dropWhile is_digit s)
          else None)"

definition scan_fraction :: "string \<Rightarrow> string \<times> string" where
  "scan_fraction s =
     (case s of
        c # d # _ \<Rightarrow>
          if c = CHR ''.'' \<and> is_digit d then (c # takeWhile is_digit (tl s), dropWhile is_digit (tl s)) else ([], s)
      | _ \<Rightarrow> ([], s))"

definition scan_exponent :: "string \<Rightarrow> string \<times> string" where
  "scan_exponent s =
     (case s of
        c # cs \<Rightarrow>
          if c = CHR ''e'' \<or> c = CHR ''E''
          then
            (let sign = (case cs of d # _ \<Rightarrow> if d = CHR ''-'' \<or> d = CHR ''+'' then [d] else [] | [] \<Rightarrow> []);
                 ds = drop (length sign) cs in
             if ds \<noteq> [] \<and> is_digit (hd ds) then (c # sign @ takeWhile is_digit ds, dropWhile is_digit ds) else ([], s))
          else ([], s)
      | [] \<Rightarrow> ([], s))"

definition integer_value :: "string \<Rightarrow> int" where
  "integer_value s =
     (case s of [] \<Rightarrow> 0 | c # cs \<Rightarrow> if c = CHR ''-'' then - digits_value cs else digits_value s)"

definition scan_number :: "(string \<Rightarrow> rat) \<Rightarrow> string \<Rightarrow> (pyobj \<times> string) option" where
  "scan_number pf s =
     (case scan_integer s of
        None \<Rightarrow> None
      | Some (whole, s) \<Rightarrow>
          (case scan_fraction s of
             (part, s) \<Rightarrow>
               (case scan_exponent s of
                  (ex, s) \<Rightarrow>
                    Some (if part = [] \<and> ex = [] then PyInt (integer_value whole) else PyFloat (pf (whole @ part @ ex)), s))))"

definition starts :: "string \<Rightarrow> string \<Rightarrow> bool" where
  "starts word s \<longleftrightarrow> take (length word) s = word"

text \<open>
  The recursive descent of the scanner.  Every call takes one unit of fuel; \<open>enough_text_fuel\<close> of \<open>Json_Text_Facts\<close> shows
  that twice the length of the text is enough.
\<close>

fun json_value :: "(string \<Rightarrow> rat) \<Rightarrow> nat \<Rightarrow> string \<Rightarrow> (pyobj \<times> string) option"
and json_elements :: "(string \<Rightarrow> rat) \<Rightarrow> nat \<Rightarrow> string \<Rightarrow> (pyobj list \<times> string) option"
and json_members :: "(string \<Rightarrow> rat) \<Rightarrow> nat \<Rightarrow> string \<Rightarrow> ((mkey \<times> pyobj) list \<times> string) option" where
  "json_value pf 0 s = None"
| "json_value pf (Suc f) s =
     (case s of
        [] \<Rightarrow> None
      | c # cs \<Rightarrow>
          if c = CHR 0x22 then map_option (\<lambda>(t, rest). (PyStr t, rest)) (scan_string cs)
          else if c = CHR ''{''
          then
            (if starts ''}'' (skip_space cs) then Some (PyDict [], tl (skip_space cs))
             else map_option (\<lambda>(kvs, rest). (PyDict (dict_of kvs), rest)) (json_members pf f (skip_space cs)))
          else if c = CHR ''[''
          then
            (if starts '']'' (skip_space cs) then Some (PyList [], tl (skip_space cs))
             else map_option (\<lambda>(xs, rest). (PyList xs, rest)) (json_elements pf f (skip_space cs)))
          else if starts ''null'' s then Some (PyNone, drop 4 s)
          else if starts ''true'' s then Some (PyBool True, drop 4 s)
          else if starts ''false'' s then Some (PyBool False, drop 5 s)
          else scan_number pf s)"
| "json_elements pf 0 s = None"
| "json_elements pf (Suc f) s =
     (case json_value pf f s of
        None \<Rightarrow> None
      | Some (x, rest) \<Rightarrow>
          (case skip_space rest of
             [] \<Rightarrow> None
           | c # cs \<Rightarrow>
               if c = CHR '']'' then Some ([x], cs)
               else if c = CHR '','' then map_option (\<lambda>(xs, rest). (x # xs, rest)) (json_elements pf f (skip_space cs))
               else None))"
| "json_members pf 0 s = None"
| "json_members pf (Suc f) s =
     (case s of
        [] \<Rightarrow> None
      | q # cs \<Rightarrow>
          if q \<noteq> CHR 0x22 then None
          else
            (case scan_string cs of
               None \<Rightarrow> None
             | Some (k, rest) \<Rightarrow>
                 if \<not> starts '':'' (skip_space rest) then None
                 else
                   (case json_value pf f (skip_space (tl (skip_space rest))) of
                      None \<Rightarrow> None
                    | Some (x, rest) \<Rightarrow>
                        (case skip_space rest of
                           [] \<Rightarrow> None
                         | c # cs \<Rightarrow>
                             if c = CHR ''}'' then Some ([(MkStr k, x)], cs)
                             else if c = CHR '',''
                             then map_option (\<lambda>(kvs, rest). ((MkStr k, x) # kvs, rest)) (json_members pf f (skip_space cs))
                             else None))))"

text \<open>\<^verbatim>\<open>json.loads\<close>; \<open>None\<close> is \<^verbatim>\<open>JSONDecodeError\<close>.\<close>

definition json_loads :: "(string \<Rightarrow> rat) \<Rightarrow> string \<Rightarrow> pyobj option" where
  "json_loads pf s =
     (case json_value pf (2 * length s + 1) (skip_space s) of
        None \<Rightarrow> None
      | Some (x, rest) \<Rightarrow> if skip_space rest = [] then Some x else None)"

end
