(* ===== verification/Json_Text_Facts.thy ===== *)
theory Json_Text_Facts imports Json_Text begin

text \<open>
  What the JSON text functions guarantee: the fuel of \<open>json_loads\<close> is enough for every text, and reading
  what \<open>json_dumps\<close> wrote for a frozen value gives the thawed value back.
\<close>

section \<open>Enough fuel\<close>

lemma cons_char_Some: "cons_char c r = Some (t, rest) \<Longrightarrow> \<exists>t'. r = Some (t', rest)"
  by (auto simp: cons_char_def split: option.splits)

lemma scan_string_shorter: "scan_string s = Some (t, rest) \<Longrightarrow> length rest < length s"
proof (induction s arbitrary: t rest rule: length_induct)
  case (1 s)
  have IH: "cons_char c (scan_string u) = Some (t, rest) \<Longrightarrow> length u < length s \<Longrightarrow> length rest < length u" for c u
    using "1.IH" by (metis cons_char_Some)
  show ?case
    using "1.prems" IH by (cases s) (fastforce split: if_splits list.splits)+
qed

text \<open>Each scanner leaves a suffix of its text.\<close>

lemma dropWhile_le [simp]: "length (dropWhile p s) \<le> length s" "length (dropWhile p s) \<le> Suc (length s)"
  "length (dropWhile p s) \<le> Suc (Suc (length s))" "length (dropWhile p s) < Suc (length s)"
  using length_dropWhile_le [of p s] by simp_all

lemma scan_integer_shorter: "scan_integer s = Some (t, rest) \<Longrightarrow> length rest < length s"
  by (cases s) (auto simp: scan_integer_def Let_def less_Suc_eq_le split: if_splits list.splits)

lemma scan_fraction_le: "scan_fraction s = (t, rest) \<Longrightarrow> length rest \<le> length s"
  by (auto simp: scan_fraction_def split: list.splits if_splits)

lemma scan_exponent_le: "scan_exponent s = (t, rest) \<Longrightarrow> length rest \<le> length s"
  by (auto simp: scan_exponent_def Let_def split: list.splits if_splits)

lemma scan_number_shorter: "scan_number pf s = Some (x, rest) \<Longrightarrow> length rest < length s"
  by (fastforce simp: scan_number_def split: option.splits prod.splits
      dest: scan_integer_shorter scan_fraction_le scan_exponent_le)

lemma skip_space_le: "length (skip_space s) \<le> length s"
  by (simp add: skip_space_def)

lemma skip_space_Cons: "skip_space s = c # cs \<Longrightarrow> length cs < length s"
  using skip_space_le [of s] by simp

lemma starts_length: "starts w s \<Longrightarrow> length w \<le> length s"
  by (auto simp: starts_def dest: arg_cong [where f = length])

lemma json_shorter:
  "json_value pf f s = Some (x, rest) \<Longrightarrow> length rest < length s"
  "json_elements pf f s = Some (xs, rest) \<Longrightarrow> length rest < length s"
  "json_members pf f s = Some (kvs, rest) \<Longrightarrow> length rest < length s"
proof (induction pf f s and pf f s and pf f s arbitrary: x rest and xs rest and kvs rest
    rule: json_value_json_elements_json_members.induct)
  case (2 pf f s)
  show ?case
  proof (cases s)
    case (Cons c cs)
    note IH = "2.IH" [OF Cons]
    have le: "length (skip_space cs) \<le> length cs" by (rule skip_space_le)
    show ?thesis
      using "2.prems" le scan_string_shorter [of cs] scan_number_shorter [of pf s] IH
      by (fastforce simp: Cons split: if_splits dest: starts_length)
  qed (use "2.prems" in simp)
next
  case (4 pf f s)
  then obtain y u where y: "json_value pf f s = Some (y, u)" by (cases "json_value pf f s") auto
  with 4 obtain c cs where c: "skip_space u = c # cs" by (cases "skip_space u") auto
  have "length u < length s" "length cs < length u" "length (skip_space cs) \<le> length cs"
    using "4.IH"(1) [OF y] skip_space_Cons [OF c] by (simp_all add: skip_space_le)
  then show ?case
    using "4.prems" "4.IH"(2) [OF y _ c] y c by (fastforce split: if_splits)
next
  case (6 pf f s)
  then obtain cs where q: "s = CHR 0x22 # cs" by (cases s) (auto split: if_splits)
  with 6 obtain k u where k: "scan_string cs = Some (k, u)" "starts '':'' (skip_space u)"
    by (auto split: option.splits if_splits)
  let ?v = "skip_space (tl (skip_space u))"
  obtain y w where y: "json_value pf f ?v = Some (y, w)" using "6.prems" q k by (auto split: option.splits)
  with 6 q k obtain d ds where d: "skip_space w = d # ds" by (cases "skip_space w") auto
  have "length ?v \<le> length u"
    by (rule order_trans [OF skip_space_le]) (use skip_space_le [of u] in simp)
  moreover have "length u < length cs" "length w < length ?v" "length ds < length w" "length (skip_space ds) \<le> length ds"
    using scan_string_shorter [OF k(1)] "6.IH"(1) [OF q _ k(1) refl _ y] k skip_space_Cons [OF d]
    by (simp_all add: skip_space_le)
  ultimately show ?case
    using "6.prems" "6.IH"(2) [OF q _ k(1) refl _ y refl d] q k y d by (fastforce split: if_splits)
qed simp_all

text \<open>Fuel beyond twice the length of the text changes nothing.\<close>

lemma enough_text_fuel:
  "2 * length s \<le> f \<Longrightarrow> 2 * length s \<le> g \<Longrightarrow> json_value pf g s = json_value pf f s"
  "2 * length s < f \<Longrightarrow> 2 * length s < g \<Longrightarrow> json_elements pf g s = json_elements pf f s"
  "2 * length s < f \<Longrightarrow> 2 * length s < g \<Longrightarrow> json_members pf g s = json_members pf f s"
proof (induction pf f s and pf f s and pf f s arbitrary: g and g and g
    rule: json_value_json_elements_json_members.induct)
  case (1 pf s)
  then show ?case by (cases g) simp_all
next
  case (2 pf f s)
  show ?case
  proof (cases s)
    case Nil
    then show ?thesis by (cases g) simp_all
  next
    case (Cons c cs)
    obtain g' where g: "g = Suc g'" using "2.prems" Cons by (cases g) auto
    have "length (skip_space cs) \<le> length cs" by (rule skip_space_le)
    then have fuel: "2 * length (skip_space cs) < f" "2 * length (skip_space cs) < g'"
      using "2.prems" Cons g by simp_all
    show ?thesis
      using "2.IH"(1) [OF Cons _ _ _ fuel] "2.IH"(2) [OF Cons _ _ _ _ fuel] by (simp add: g Cons)
  qed
next
  case (4 pf f s)
  obtain g' where g: "g = Suc g'" using "4.prems" by (cases g) auto
  have head: "json_value pf g' s = json_value pf f s" by (rule "4.IH"(1)) (use "4.prems" g in auto)
  have tail: "json_elements pf g' (skip_space cs) = json_elements pf f (skip_space cs)"
    if "json_value pf f s = Some (x, rest)" "skip_space rest = CHR '','' # cs" for x rest cs
  proof -
    have "length (skip_space cs) < length s"
      using json_shorter(1) [OF that(1)] skip_space_Cons [OF that(2)] skip_space_le [of cs] by linarith
    with "4.prems" g show ?thesis by (intro "4.IH"(2) [OF that(1) refl that(2)]) auto
  qed
  show ?case by (auto simp: g head tail split: option.split list.split)
next
  case (6 pf f s)
  obtain g' where g: "g = Suc g'" using "6.prems" by (cases g) auto
  show ?case
  proof (cases s)
    case (Cons q cs)
    show ?thesis
    proof (cases "q = CHR 0x22 \<and> (\<exists>k u. scan_string cs = Some (k, u) \<and> starts '':'' (skip_space u))")
      case True
      then obtain k u where k: "\<not> q \<noteq> CHR 0x22" "scan_string cs = Some (k, u)" "\<not> \<not> starts '':'' (skip_space u)" by blast
      let ?v = "skip_space (tl (skip_space u))"
      have "length ?v \<le> length u"
        by (rule order_trans [OF skip_space_le]) (use skip_space_le [of u] in simp)
      then have v: "length ?v < length cs" using scan_string_shorter [OF k(2)] by linarith
      have head: "json_value pf g' ?v = json_value pf f ?v"
        by (rule "6.IH"(1) [OF Cons k(1,2) refl k(3)]) (use "6.prems" g Cons v in auto)
      have tail: "json_members pf g' (skip_space ds) = json_members pf f (skip_space ds)"
        if "json_value pf f ?v = Some (x, rest)" "skip_space rest = CHR '','' # ds" for x rest ds
      proof -
        have "length (skip_space ds) < length s"
          using json_shorter(1) [OF that(1)] skip_space_Cons [OF that(2)] skip_space_le [of ds] v Cons by simp
        with "6.prems" g show ?thesis by (intro "6.IH"(2) [OF Cons k(1,2) refl k(3) that(1) refl that(2)]) auto
      qed
      show ?thesis using k by (auto simp: g Cons head tail split: option.split list.split)
    qed (auto simp: g Cons split: option.split)
  qed (simp add: g)
qed simp_all
section \<open>Reading what was written\<close>

subsection \<open>Strings\<close>

lemma hex_value_digit: "k < 16 \<Longrightarrow> hex_value (hex_digit k) = Some k"
proof -
  have "\<forall>k \<in> set [0..<16]. hex_value (hex_digit k) = Some k" by code_simp
  then show "k < 16 \<Longrightarrow> ?thesis" by simp
qed

lemma of_char_less: "(of_char c :: nat) < 256"
  by simp

lemma eq_char: "(of_char c :: nat) = n \<Longrightarrow> c = char_of n"
  by (metis char_of_char)

lemma code_char_digits:
  "(of_char c :: nat) = n \<Longrightarrow> code_char (CHR ''0'') (CHR ''0'') (hex_digit (n div 16)) (hex_digit (n mod 16)) = Some c"
proof -
  assume n: "(of_char c :: nat) = n"
  then have "n div 16 < 16" using of_char_less [of c] by linarith
  moreover have "hex_value (CHR ''0'') = Some 0" by code_simp
  ultimately show ?thesis
    using eq_char [OF n] by (simp add: code_char_def hex_value_digit)
qed

lemma scan_json_char: "scan_string (json_char c @ rest) = cons_char (Some c) (scan_string rest)"
proof -
  let ?n = "of_char c :: nat"
  consider "?n = 34 \<or> ?n = 92" | "?n \<in> {10, 13, 9, 12, 8}" | "32 \<le> ?n" "?n \<le> 126" "?n \<noteq> 34" "?n \<noteq> 92"
    | "\<not> (32 \<le> ?n \<and> ?n \<le> 126)" "?n \<notin> {34, 92, 10, 13, 9, 12, 8}"
    by fastforce
  then show ?thesis
  proof cases
    case 1
    then show ?thesis by (auto simp: json_char_def unescape_def dest: eq_char)
  next
    case 2
    then show ?thesis by (auto simp: json_char_def unescape_def Let_def dest: eq_char)
  next
    case 3
    then show ?thesis by (auto simp: json_char_def Let_def)
  next
    case 4
    then have "json_char c = [CHR 0x5C, CHR ''u'', CHR ''0'', CHR ''0'', hex_digit (?n div 16), hex_digit (?n mod 16)]"
      by (auto simp: json_char_def Let_def)
    then show ?thesis by (simp add: code_char_digits)
  qed
qed

lemma scan_json_string: "scan_string (concat (map json_char s) @ CHR 0x22 # rest) = Some (s, rest)"
  by (induction s) (simp_all add: scan_json_char cons_char_def)
subsection \<open>Numbers\<close>

text \<open>A text after which a number token cannot go on.\<close>

definition number_end :: "string \<Rightarrow> bool" where
  "number_end s \<longleftrightarrow> (case s of [] \<Rightarrow> True | c # _ \<Rightarrow> \<not> is_digit c \<and> c \<notin> {CHR ''.'', CHR ''e'', CHR ''E''})"

lemma number_end_simps [simp]: "number_end []" "number_end (CHR '','' # s)" "number_end (CHR '']'' # s)" "number_end (CHR ''}'' # s)"
  by (simp_all add: number_end_def is_digit_def)

lemma nat_str_is_digit: "c \<in> set (nat_str n) \<Longrightarrow> is_digit c"
  using nat_str_digits [of n] by (auto simp: is_digit_def simp del: list.set)

lemma span_digits:
  assumes "number_end rest"
  shows "takeWhile is_digit (nat_str n @ rest) = nat_str n" "dropWhile is_digit (nat_str n @ rest) = rest"
proof -
  have "takeWhile is_digit rest = []" "dropWhile is_digit rest = rest"
    using assms by (cases rest; simp add: number_end_def)+
  then show "takeWhile is_digit (nat_str n @ rest) = nat_str n" "dropWhile is_digit (nat_str n @ rest) = rest"
    using nat_str_is_digit by (simp_all add: takeWhile_append2 dropWhile_append2)
qed

lemma nat_str_head: "\<exists>c cs. nat_str n = c # cs \<and> is_digit c \<and> (c = CHR ''0'' \<longrightarrow> n = 0)"
proof (induction n rule: nat_str.induct)
  case (1 n)
  show ?case
  proof (cases "n < 10")
    case True
    then have "n \<in> {0,1,2,3,4,5,6,7,8,9}" by auto
    then show ?thesis by (elim insertE emptyE) (subst nat_str.simps, simp add: is_digit_def)+
  next
    case False
    then show ?thesis using 1 by (subst (1) nat_str.simps) (auto simp: div_eq_0_iff)
  qed
qed

lemma nat_str_zero: "nat_str 0 = ''0''"
  by (subst nat_str.simps) simp

lemma scan_nat:
  assumes "number_end rest"
  shows "scan_integer (nat_str n @ rest) = Some (nat_str n, rest)" "scan_integer (CHR ''-'' # nat_str n @ rest) = Some (CHR ''-'' # nat_str n, rest)"
proof -
  obtain c cs where c: "nat_str n = c # cs" "is_digit c" "c = CHR ''0'' \<longrightarrow> n = 0" using nat_str_head by blast
  have "c \<noteq> CHR ''-''" using c(2) by (auto simp: is_digit_def)
  note span = span_digits [OF assms, of n]
  have zero: "c = CHR ''0'' \<Longrightarrow> cs = []" using c nat_str_zero by simp
  from \<open>c \<noteq> CHR ''-''\<close> c(1,2) zero span
  show "scan_integer (nat_str n @ rest) = Some (nat_str n, rest)" "scan_integer (CHR ''-'' # nat_str n @ rest) = Some (CHR ''-'' # nat_str n, rest)"
    by (auto simp: scan_integer_def Let_def)
qed

lemma scan_int: "number_end rest \<Longrightarrow> scan_integer (int_str i @ rest) = Some (int_str i, rest)"
  by (simp add: int_str_def scan_nat)

lemma digits_value_nat_str: "digits_value (nat_str n) = int n"
  by (simp add: digits_value_def parse_nat_str)

lemma integer_value_int_str: "integer_value (int_str i) = i"
proof -
  obtain c cs where c: "nat_str (nat i) = c # cs" "c \<noteq> CHR ''-''"
    using nat_str_head [of "nat i"] by (auto simp: is_digit_def)
  have "digits_value (c # cs) = int (nat i)" "digits_value (nat_str (nat (- i))) = int (nat (- i))"
    unfolding c(1) [symmetric] by (rule digits_value_nat_str)+
  with c show ?thesis by (simp add: integer_value_def int_str_def)
qed

lemma scan_number_int:
  assumes "number_end rest"
  shows "scan_number pf (int_str i @ rest) = Some (PyInt i, rest)"
proof -
  have "scan_fraction rest = ([], rest)" "scan_exponent rest = ([], rest)"
    using assms by (auto simp: number_end_def scan_fraction_def scan_exponent_def split: list.splits)
  then show ?thesis by (simp add: scan_number_def scan_int [OF assms] integer_value_int_str)
qed
subsection \<open>Values\<close>

text \<open>The text of a frozen value.\<close>

fun json_text :: "(rat \<Rightarrow> string) \<Rightarrow> jvalue \<Rightarrow> string" where
  "json_text fl JNone = ''null''"
| "json_text fl (JStr s) = json_string s"
| "json_text fl (JInt i) = int_str i"
| "json_text fl (JFloat r) = fl r"
| "json_text fl (JBool b) = (if b then ''true'' else ''false'')"
| "json_text fl (JArr xs) = ''['' @ join '', '' (map (json_text fl) xs) @ '']''"
| "json_text fl (JObj kvs) =
     ''{'' @ join '', '' (map (\<lambda>kv. json_string (fst kv) @ '': '' @ json_text fl (snd kv)) kvs) @ ''}''"

lemma json_dumps_thaw: "json_dumps fl (thaw_json v) = Inr (json_text fl v)"
proof (induction v rule: thaw_json.induct)
  case (6 kvs)
  let ?kvs = "map (\<lambda>kv. (MkStr (fst kv), thaw_json (snd kv))) kvs"
  have "map_result (\<lambda>kv. json_dumps fl (snd kv)) ?kvs = Inr (map (\<lambda>kv. json_text fl (snd kv)) kvs)"
    using 6 by (induction kvs) auto
  moreover have "map2 (\<lambda>kv t. json_string (json_key_text (fst kv)) @ '': '' @ t) ?kvs (map (\<lambda>kv. json_text fl (snd kv)) kvs)
      = map (\<lambda>kv. json_string (fst kv) @ '': '' @ json_text fl (snd kv)) kvs"
    by (induction kvs) auto
  ultimately show ?case by simp
next
  case (7 xs)
  have "map_result (json_dumps fl) (map thaw_json xs) = Inr (map (json_text fl) xs)"
    using 7 by (induction xs) auto
  then show ?case by simp
qed auto

text \<open>The floats of a value, and what the text of a float must satisfy: it is one token that reads back.\<close>

fun jfloats :: "jvalue \<Rightarrow> rat set" where
  "jfloats (JFloat r) = {r}"
| "jfloats (JArr xs) = (\<Union>x \<in> set xs. jfloats x)"
| "jfloats (JObj kvs) = (\<Union>kv \<in> set kvs. jfloats (snd kv))"
| "jfloats _ = {}"

definition float_reads :: "(string \<Rightarrow> rat) \<Rightarrow> (rat \<Rightarrow> string) \<Rightarrow> rat \<Rightarrow> bool" where
  "float_reads pf fl r \<longleftrightarrow> (\<forall>rest. number_end rest \<longrightarrow> scan_number pf (fl r @ rest) = Some (PyFloat r, rest))"

lemma float_reads_end: "float_reads pf fl r \<Longrightarrow> scan_number pf (fl r) = Some (PyFloat r, [])"
  by (metis float_reads_def append_Nil2 number_end_simps(1))

lemma scan_number_head: "scan_number pf s = Some p \<Longrightarrow> \<exists>c cs. s = c # cs \<and> (c = CHR ''-'' \<or> is_digit c)"
  by (cases s) (auto simp: scan_number_def scan_integer_def is_digit_def Let_def split: if_splits)

lemma number_value:
  assumes "scan_number pf s = Some p"
  shows "json_value pf (Suc f) s = Some p"
proof -
  obtain c cs where c: "s = c # cs" "c = CHR ''-'' \<or> is_digit c" using scan_number_head [OF assms] by blast
  then have "c \<notin> {CHR 0x22, CHR ''{'', CHR ''['', CHR ''n'', CHR ''t'', CHR ''f''}" by (auto simp: is_digit_def)
  with assms c(1) show ?thesis by (simp add: starts_def)
qed

text \<open>A text is not empty and starts with no space and no closing bracket.\<close>

definition text_starts :: "string \<Rightarrow> bool" where
  "text_starts s \<longleftrightarrow> (case s of [] \<Rightarrow> False | c # _ \<Rightarrow> \<not> is_json_space c \<and> c \<noteq> CHR '']'')"

lemma text_starts_simps [simp]:
  "text_starts (CHR 0x22 # s)" "text_starts (CHR ''{'' # s)" "text_starts (CHR ''['' # s)" "text_starts (CHR ''n'' # s)"
  "text_starts (CHR ''t'' # s)" "text_starts (CHR ''f'' # s)"
  by (simp_all add: text_starts_def is_json_space_def)

lemma number_starts: "scan_number pf s = Some p \<Longrightarrow> text_starts s"
  using scan_number_head [of pf s p] by (auto simp: text_starts_def is_json_space_def is_digit_def)

lemma json_text_starts: "\<forall>r \<in> jfloats v. float_reads pf fl r \<Longrightarrow> text_starts (json_text fl v)"
proof (cases v)
  case (JInt i)
  show ?thesis using number_starts [OF scan_number_int [of "[]" pf i]] by (simp add: JInt)
next
  case (JFloat r)
  moreover assume "\<forall>r \<in> jfloats v. float_reads pf fl r"
  ultimately have "float_reads pf fl r" by simp
  from number_starts [OF float_reads_end [OF this]] show ?thesis by (simp add: JFloat)
qed (simp_all add: json_string_def)

lemma skip_space_starts: "text_starts s \<Longrightarrow> skip_space (s @ rest) = s @ rest \<and> skip_space (CHR '' '' # s @ rest) = s @ rest"
  by (cases s) (auto simp: text_starts_def skip_space_def is_json_space_def)

lemma skip_space_simps [simp]:
  "skip_space [] = []" "skip_space (CHR '','' # s) = CHR '','' # s" "skip_space (CHR '']'' # s) = CHR '']'' # s"
  "skip_space (CHR ''}'' # s) = CHR ''}'' # s" "skip_space (CHR '':'' # s) = CHR '':'' # s" "skip_space (CHR 0x22 # s) = CHR 0x22 # s"
  "skip_space (CHR '' '' # s) = skip_space s"
  by (simp_all add: skip_space_def is_json_space_def)

lemma join_Cons: "xs \<noteq> [] \<Longrightarrow> join sep (x # xs) = x @ sep @ join sep xs"
  by (cases xs) simp_all
lemma json_elements_text:
  assumes "xs \<noteq> []" and starts: "\<And>x. x \<in> set xs \<Longrightarrow> text_starts (json_text fl x)"
    and reads: "\<And>x f rest. x \<in> set xs \<Longrightarrow> number_end rest \<Longrightarrow> 2 * length (json_text fl x) \<le> f \<Longrightarrow>
      json_value pf f (json_text fl x @ rest) = Some (thaw_json x, rest)"
    and fuel: "2 * length (join '', '' (map (json_text fl) xs)) < f"
  shows "json_elements pf f (join '', '' (map (json_text fl) xs) @ CHR '']'' # rest) = Some (map thaw_json xs, rest)"
  using assms
proof (induction xs arbitrary: f)
  case (Cons x xs)
  obtain f' where f: "f = Suc f'" using Cons.prems(4) by (cases f) auto
  show ?case
  proof (cases "xs = []")
    case True
    then show ?thesis using Cons.prems(3) [of x "CHR '']'' # rest" f'] Cons.prems(4) f by simp
  next
    case False
    let ?js = "join '', '' (map (json_text fl) xs)"
    have fuel: "2 * length (json_text fl x) \<le> f'" "2 * length ?js < f'"
      using Cons.prems(4) f False by (simp_all add: join_Cons)
    have "json_elements pf f' (?js @ CHR '']'' # rest) = Some (map thaw_json xs, rest)"
      by (rule Cons.IH [OF False]) (use Cons.prems(2,3) fuel(2) in auto)
    moreover have "skip_space (?js @ CHR '']'' # rest) = ?js @ CHR '']'' # rest"
    proof -
      obtain y ys where "xs = y # ys" using False by (cases xs) auto
      then have "?js = json_text fl y @ (if ys = [] then [] else '', '' @ join '', '' (map (json_text fl) ys))"
        by (simp add: join_Cons)
      then show ?thesis using Cons.prems(2) [of y] \<open>xs = y # ys\<close> by (simp add: skip_space_starts)
    qed
    ultimately show ?thesis
      using Cons.prems(3) [of x "CHR '','' # CHR '' '' # ?js @ CHR '']'' # rest" f'] fuel(1) False by (simp add: f join_Cons)
  qed
qed simp

definition member_text :: "(rat \<Rightarrow> string) \<Rightarrow> string \<times> jvalue \<Rightarrow> string" where
  "member_text fl kv = json_string (fst kv) @ '': '' @ json_text fl (snd kv)"

lemma join_members_quote: "kvs \<noteq> [] \<Longrightarrow> \<exists>s. join '', '' (map (member_text fl) kvs) = CHR 0x22 # s"
  by (cases kvs; cases "tl kvs") (auto simp: member_text_def json_string_def join_Cons)

lemma json_members_text:
  assumes "kvs \<noteq> []" and starts: "\<And>kv. kv \<in> set kvs \<Longrightarrow> text_starts (json_text fl (snd kv))"
    and reads: "\<And>kv f rest. kv \<in> set kvs \<Longrightarrow> number_end rest \<Longrightarrow> 2 * length (json_text fl (snd kv)) \<le> f \<Longrightarrow>
      json_value pf f (json_text fl (snd kv) @ rest) = Some (thaw_json (snd kv), rest)"
    and fuel: "2 * length (join '', '' (map (member_text fl) kvs)) < f"
  shows "json_members pf f (join '', '' (map (member_text fl) kvs) @ CHR ''}'' # rest) =
    Some (map (\<lambda>kv. (MkStr (fst kv), thaw_json (snd kv))) kvs, rest)"
  using assms
proof (induction kvs arbitrary: f)
  case (Cons kv kvs)
  obtain f' where f: "f = Suc f'" using Cons.prems(4) by (cases f) auto
  obtain k v where kv: "kv = (k, v)" by (cases kv)
  show ?case
  proof (cases "kvs = []")
    case True
    then show ?thesis
      using Cons.prems(2) [of kv] Cons.prems(3) [of kv "CHR ''}'' # rest" f'] Cons.prems(4)
      by (simp add: f kv member_text_def json_string_def scan_json_string starts_def skip_space_starts)
  next
    case False
    let ?js = "join '', '' (map (member_text fl) kvs)"
    have fuel: "2 * length (json_text fl v) \<le> f'" "2 * length ?js < f'"
      using Cons.prems(4) f False kv by (simp_all add: join_Cons member_text_def [of fl "(k, v)"])
    have "json_members pf f' (?js @ CHR ''}'' # rest) = Some (map (\<lambda>kv. (MkStr (fst kv), thaw_json (snd kv))) kvs, rest)"
      by (rule Cons.IH [OF False]) (use Cons.prems(2,3) fuel(2) in auto)
    moreover have "skip_space (?js @ CHR ''}'' # rest) = ?js @ CHR ''}'' # rest"
      using join_members_quote [OF False, of fl] by auto
    ultimately show ?thesis
      using Cons.prems(2) [of kv] Cons.prems(3) [of kv "CHR '','' # CHR '' '' # ?js @ CHR ''}'' # rest" f'] fuel(1) False
      by (simp add: f kv join_Cons, simp add: member_text_def json_string_def scan_json_string starts_def skip_space_starts)
  qed
qed simp
lemma json_value_text:
  assumes "jwf v" and "\<forall>r \<in> jfloats v. float_reads pf fl r" and "number_end rest" and "2 * length (json_text fl v) \<le> f"
  shows "json_value pf f (json_text fl v @ rest) = Some (thaw_json v, rest)"
  using assms
proof (induction v arbitrary: f rest rule: thaw_json.induct)
  case (2 s)
  then obtain f' where "f = Suc f'" by (cases f) (auto simp: json_string_def)
  then show ?case by (simp add: json_string_def scan_json_string)
next
  case (3 i)
  then obtain f' where "f = Suc f'" by (cases f) auto
  then show ?case using number_value [OF scan_number_int [OF "3.prems"(3)]] by simp
next
  case (4 r)
  then have "scan_number pf (fl r @ rest) = Some (PyFloat r, rest)" by (simp add: float_reads_def)
  moreover have "fl r \<noteq> []" using float_reads_end [of pf fl r] scan_number_head [of pf "fl r"] 4 by auto
  then obtain f' where "f = Suc f'" using 4 by (cases f) auto
  ultimately show ?case using number_value by simp
next
  case (6 kvs)
  then obtain f' where f: "f = Suc f'" by (cases f) auto
  let ?js = "join '', '' (map (member_text fl) kvs)" and ?kvs = "map (\<lambda>kv. (MkStr (fst kv), thaw_json (snd kv))) kvs"
  have text_eq: "json_text fl (JObj kvs) = CHR ''{'' # ?js @ ''}''" by (simp add: member_text_def [abs_def])
  have keep: "dict_of ?kvs = ?kvs"
    using "6.prems"(1) by (intro dict_of_distinct) (auto simp: distinct_map inj_on_def)
  show ?case
  proof (cases "kvs = []")
    case False
    then obtain s where s: "?js = CHR 0x22 # s" using join_members_quote by blast
    have "json_members pf f' (?js @ CHR ''}'' # rest) = Some (?kvs, rest)"
    proof (rule json_members_text [OF False])
      show "2 * length ?js < f'" using "6.prems"(4) f unfolding text_eq by simp
    qed (use 6 in \<open>auto intro!: json_text_starts\<close>)
    then show ?thesis unfolding f text_eq using s keep by (simp add: starts_def)
  qed (simp add: f starts_def dict_of_def)
next
  case (7 xs)
  then obtain f' where f: "f = Suc f'" by (cases f) auto
  let ?js = "join '', '' (map (json_text fl) xs)"
  show ?case
  proof (cases xs)
    case (Cons x ys)
    have "json_elements pf f' (?js @ CHR '']'' # rest) = Some (map thaw_json xs, rest)"
    proof (rule json_elements_text)
      show "json_value pf g (json_text fl y @ r) = Some (thaw_json y, r)"
        if "y \<in> set xs" "number_end r" "2 * length (json_text fl y) \<le> g" for y g r
        using "7.IH" [OF that(1) _ _ that(2,3)] "7.prems"(1,2) that(1) by simp
    qed (use 7 f Cons in \<open>auto intro!: json_text_starts\<close>)
    moreover have "text_starts (json_text fl x)" using 7 Cons by (intro json_text_starts) auto
    then have "\<exists>c s. ?js = c # s \<and> \<not> is_json_space c \<and> c \<noteq> CHR '']''"
      by (cases "json_text fl x"; cases ys) (auto simp: Cons text_starts_def)
    ultimately show ?thesis by (auto simp: f starts_def skip_space_def)
  qed (simp add: f starts_def)
next
  case 1
  then show ?case by (cases f) (auto simp: starts_def)
next
  case (5 b)
  then show ?case by (cases f; cases b) (auto simp: starts_def)
qed

text \<open>Reading back what was written.\<close>

theorem json_roundtrip:
  assumes "jwf v" and "\<forall>r \<in> jfloats v. float_reads pf fl r"
  shows "json_dumps fl (thaw_json v) = Inr (json_text fl v) \<and> json_loads pf (json_text fl v) = Some (thaw_json v)"
proof -
  have "skip_space (json_text fl v) = json_text fl v"
    using skip_space_starts [OF json_text_starts [OF assms(2)], of "[]"] by simp
  then show ?thesis
    using json_value_text [OF assms, of "[]" "2 * length (json_text fl v) + 1"]
    by (simp add: json_dumps_thaw json_loads_def del: json_value.simps)
qed

end
