(* ===== verification/Openai.thy ===== *)
theory Openai imports Lifecycle Json_Text_Facts begin

text \<open>
  \<^verbatim>\<open>adapters/openai.py\<close>: from a model request to the payload of the vendor's call, and from the chunks of its
  answer to the events of a model step, under the deadlines of the adapter.  The vendor's SDK is a
  parameter: an object that the adapter reads with \<^verbatim>\<open>getattr\<close> is a record of the attributes it reads
  (a missing attribute is \<open>None\<close>), and a call tells when it returns, which chunks arrive when, how the
  stream ends and how it closes.  Moments are seconds after the start of the call; what happens at the
  very moment of a deadline comes too late.
\<close>

section \<open>What the vendor sends\<close>

record vendor_function =
  vf_name :: "string option"
  vf_arguments :: "string option"

record tool_delta =
  td_index :: "int option"
  td_id :: "string option"
  td_function :: "vendor_function option"

record vendor_delta =
  vd_content :: "string option"
  vd_tool_calls :: "tool_delta list"

record vendor_choice =
  vc_delta :: "vendor_delta option"
  vc_finish_reason :: "string option"

record vendor_usage =
  vu_prompt_tokens :: "int option"
  vu_completion_tokens :: "int option"
  vu_total_tokens :: "int option"

record vendor_chunk =
  ck_choices :: "vendor_choice list"
  ck_usage :: "vendor_usage option"

text \<open>What is left open of Python's \<^verbatim>\<open>json\<close>: the text of floats, and the error for a text that is no JSON.\<close>

record json_module =
  js_parse_float :: "string \<Rightarrow> rat"
  js_float_text :: "rat \<Rightarrow> string"
  js_error :: "string \<Rightarrow> exn"

section \<open>Assembling tool calls\<close>

record tool_fragment =
  tf_call_id :: string
  tf_name :: string
  tf_arguments :: string

definition new_fragment :: tool_fragment where
  "new_fragment = \<lparr>tf_call_id = [], tf_name = [], tf_arguments = []\<rparr>"

text \<open>An empty string counts as missing.\<close>

definition given :: "string option \<Rightarrow> string \<Rightarrow> string" where
  "given new old = (case new of None \<Rightarrow> old | Some s \<Rightarrow> if s = [] then old else s)"

definition first_choice :: "vendor_chunk \<Rightarrow> vendor_choice option" where
  "first_choice chunk = (case ck_choices chunk of [] \<Rightarrow> None | choice # _ \<Rightarrow> Some choice)"

definition usage_from_chunk :: "vendor_chunk \<Rightarrow> token_usage \<Rightarrow> token_usage" where
  "usage_from_chunk chunk current =
     (case ck_usage chunk of
        None \<Rightarrow> current
      | Some raw \<Rightarrow> \<lparr>tu_input_tokens = vu_prompt_tokens raw, tu_output_tokens = vu_completion_tokens raw,
          tu_total_tokens = vu_total_tokens raw, tu_source = PROVIDER\<rparr>)"

definition assemble_call :: "json_module \<Rightarrow> int \<times> tool_fragment \<Rightarrow> exn + tool_call" where
  "assemble_call js entry =
     (case entry of (index, item) \<Rightarrow>
        (let raw = (if tf_arguments item = [] then ''{}'' else tf_arguments item) in
         case json_loads (js_parse_float js) raw of
           None \<Rightarrow> Inl (raised_from AdapterError (''invalid tool call arguments at index '' @ int_str index) (js_error js raw))
         | Some (PyDict kvs) \<Rightarrow>
             (case freeze_mapping (Some kvs) of
                Inl e \<Rightarrow> Inl e
              | Inr arguments \<Rightarrow>
                  Inr \<lparr>tc_call_id = (if tf_call_id item = [] then ''call-'' @ int_str index else tf_call_id item),
                       tc_name = tf_name item, tc_arguments = arguments\<rparr>)
         | Some _ \<Rightarrow> Inl (raised AdapterError ''tool call arguments must be a JSON object'')))"

definition assemble_tool_calls :: "json_module \<Rightarrow> (int \<times> tool_fragment) list \<Rightarrow> exn + tool_call list" where
  "assemble_tool_calls js fragments = map_result (assemble_call js) (sort_key fst fragments)"

section \<open>Normalizing a stream of chunks\<close>

text \<open>The accumulator of one tool delta.\<close>

definition extend_fragment :: "tool_delta \<Rightarrow> tool_fragment \<Rightarrow> tool_fragment" where
  "extend_fragment d acc =
     (let acc = acc\<lparr>tf_call_id := given (td_id d) (tf_call_id acc)\<rparr> in
      case td_function d of
        None \<Rightarrow> acc
      | Some f \<Rightarrow> acc\<lparr>tf_name := given (vf_name f) (tf_name acc),
          tf_arguments := tf_arguments acc @ given (vf_arguments f) []\<rparr>)"

definition delta_index :: "tool_delta \<Rightarrow> int" where
  "delta_index d = (case td_index d of None \<Rightarrow> 0 | Some i \<Rightarrow> i)"

definition add_tool_delta :: "tool_delta \<Rightarrow> (int \<times> tool_fragment) list \<Rightarrow> (int \<times> tool_fragment) list" where
  "add_tool_delta d tools =
     dict_set (delta_index d)
       (extend_fragment d (case map_of tools (delta_index d) of None \<Rightarrow> new_fragment | Some acc \<Rightarrow> acc)) tools"

text \<open>The local variables of \<^verbatim>\<open>normalize_chat_completion_stream\<close>.\<close>

record chat =
  ch_text_parts :: "string list"
  ch_tools :: "(int \<times> tool_fragment) list"
  ch_finish_reason :: "string option"
  ch_usage :: token_usage

definition new_chat :: chat where
  "new_chat = \<lparr>ch_text_parts = [], ch_tools = [], ch_finish_reason = None,
     ch_usage = \<lparr>tu_input_tokens = None, tu_output_tokens = None, tu_total_tokens = None, tu_source = MISSING\<rparr>\<rparr>"

text \<open>The body of its loop.\<close>

definition chat_chunk :: "step_identity \<Rightarrow> vendor_chunk \<Rightarrow> chat \<Rightarrow> runtime_event list \<times> chat" where
  "chat_chunk i chunk s =
     (let s = s\<lparr>ch_usage := usage_from_chunk chunk (ch_usage s)\<rparr> in
      case first_choice chunk of
        None \<Rightarrow> ([], s)
      | Some choice \<Rightarrow>
          (let content = (case vc_delta choice of None \<Rightarrow> [] | Some delta \<Rightarrow> given (vd_content delta) []);
               tool_deltas = (case vc_delta choice of None \<Rightarrow> [] | Some delta \<Rightarrow> vd_tool_calls delta);
               events = (if content = [] then [] else [TextDeltaEvent i content 1 None]);
               s = (if content = [] then s else s\<lparr>ch_text_parts := ch_text_parts s @ [content]\<rparr>);
               s = s\<lparr>ch_tools := fold add_tool_delta tool_deltas (ch_tools s)\<rparr>
           in (events,
               case vc_finish_reason choice of
                 None \<Rightarrow> s
               | Some reason \<Rightarrow> if reason = [] then s else s\<lparr>ch_finish_reason := Some reason\<rparr>)))"

definition chat_end :: "json_module \<Rightarrow> step_identity \<Rightarrow> chat \<Rightarrow> runtime_event list \<times> exn option" where
  "chat_end js i s =
     (case assemble_tool_calls js (ch_tools s) of
        Inl e \<Rightarrow> ([], Some e)
      | Inr calls \<Rightarrow>
          (let body = concat (ch_text_parts s);
               result = \<lparr>mres_text = (if body = [] then None else Some body), mres_reasoning = None, mres_tool_calls = calls,
                 mres_usage = ch_usage s, mres_finish_reason = ch_finish_reason s, mres_attempt = 1\<rparr>
           in (if is_effective result then [ModelCompleted i result None] else [], None)))"

text \<open>The events with the moments they are produced, and how and when the stream ends.\<close>

fun normalize_from :: "json_module \<Rightarrow> step_identity \<Rightarrow> (rat \<times> vendor_chunk) list \<Rightarrow> rat \<times> exn option \<Rightarrow> chat \<Rightarrow>
    (rat \<times> runtime_event) list \<times> (rat \<times> exn option)" where
  "normalize_from js i [] (t, Some e) s = ([], (t, Some e))"
| "normalize_from js i [] (t, None) s =
     (case chat_end js i s of (events, r) \<Rightarrow> (map (\<lambda>ev. (t, ev)) events, (t, r)))"
| "normalize_from js i ((t, chunk) # chunks) fin s =
     (case chat_chunk i chunk s of (events, s) \<Rightarrow>
        (case normalize_from js i chunks fin s of (later, fin) \<Rightarrow> (map (\<lambda>ev. (t, ev)) events @ later, fin)))"

definition normalize_chat_completion_stream :: "json_module \<Rightarrow> step_identity \<Rightarrow> (rat \<times> vendor_chunk) list \<Rightarrow>
    rat \<times> exn option \<Rightarrow> (rat \<times> runtime_event) list \<times> (rat \<times> exn option)" where
  "normalize_chat_completion_stream js i chunks fin = normalize_from js i chunks fin new_chat"
section \<open>The payload of a request\<close>

definition json_object :: "jobj \<Rightarrow> exn + pyobj" where
  "json_object value =
     (case thaw_json (JObj value) of
        PyDict kvs \<Rightarrow> Inr (PyDict kvs)
      | _ \<Rightarrow> Inl (raised AdapterError ''expected a JSON object''))"

text \<open>An entry of a dictionary that is only there for a value that counts.\<close>

definition entry :: "string \<Rightarrow> pyobj \<Rightarrow> mkey \<times> pyobj" where
  "entry k v = (MkStr k, v)"

definition named_entry :: "string \<Rightarrow> string option \<Rightarrow> (mkey \<times> pyobj) list" where
  "named_entry k v = (if given v [] = [] then [] else [entry k (PyStr (given v []))])"

definition call_payload :: "json_module \<Rightarrow> tool_call \<Rightarrow> exn + pyobj" where
  "call_payload js call =
     (case json_object (tc_arguments call) of
        Inl e \<Rightarrow> Inl e
      | Inr arguments \<Rightarrow>
          (case json_dumps (js_float_text js) arguments of
             Inl e \<Rightarrow> Inl e
           | Inr body \<Rightarrow>
               Inr (PyDict [entry ''id'' (PyStr (tc_call_id call)), entry ''type'' (PyStr ''function''),
                 entry ''function'' (PyDict [entry ''name'' (PyStr (tc_name call)), entry ''arguments'' (PyStr body)])])))"

definition message_payload :: "json_module \<Rightarrow> message \<Rightarrow> exn + pyobj" where
  "message_payload js m =
     (case map_result (call_payload js) (m_tool_calls m) of
        Inl e \<Rightarrow> Inl e
      | Inr calls \<Rightarrow>
          Inr (PyDict
            ([entry ''role'' (PyStr (role_value (m_role m)))] @
             (case m_content m of None \<Rightarrow> [] | Some c \<Rightarrow> [entry ''content'' (PyStr c)]) @
             (if calls = [] then [] else [entry ''tool_calls'' (PyList calls)]) @
             named_entry ''tool_call_id'' (m_tool_call_id m) @ named_entry ''name'' (m_name m))))"

definition spec_payload :: "tool_spec \<Rightarrow> exn + pyobj" where
  "spec_payload spec =
     (case json_object (ts_parameters spec) of
        Inl e \<Rightarrow> Inl e
      | Inr parameters \<Rightarrow>
          Inr (PyDict [entry ''type'' (PyStr ''function''),
            entry ''function'' (PyDict [entry ''name'' (PyStr (ts_name spec)),
              entry ''description'' (PyStr (ts_description spec)), entry ''parameters'' parameters])]))"

definition choice_payload :: "tool_choice \<Rightarrow> (mkey \<times> pyobj) list" where
  "choice_payload choice =
     (case tch_mode choice of
        NONE \<Rightarrow> [entry ''tool_choice'' (PyStr ''none'')]
      | REQUIRED \<Rightarrow> [entry ''tool_choice'' (PyStr ''required'')]
      | NAMED \<Rightarrow>
          if given (tch_name choice) [] = [] then []
          else [entry ''tool_choice'' (PyDict [entry ''type'' (PyStr ''function''),
                  entry ''function'' (PyDict [entry ''name'' (PyStr (given (tch_name choice) []))])])]
      | AUTO \<Rightarrow> [])"

definition request_payload :: "json_module \<Rightarrow> string option \<Rightarrow> model_request \<Rightarrow> exn + pyobj" where
  "request_payload js default_model request =
     (let model = mc_model (mr_model request);
          model = (if model = ''synthetic'' then given default_model model else model)
      in case map_result (message_payload js) (mr_messages request) of
           Inl e \<Rightarrow> Inl e
         | Inr messages \<Rightarrow>
             (case map_result spec_payload (mr_tools request) of
                Inl e \<Rightarrow> Inl e
              | Inr specs \<Rightarrow>
                  Inr (PyDict
                    ([entry ''model'' (PyStr model), entry ''messages'' (PyList messages), entry ''stream'' (PyBool True)] @
                     (if specs = [] then [] else [entry ''tools'' (PyList specs)]) @
                     choice_payload (mr_tool_choice request) @
                     (case mc_temperature (mr_model request) of
                        None \<Rightarrow> [] | Some t \<Rightarrow> [entry ''temperature'' (PyFloat t)])))))"

section \<open>Releasing\<close>

text \<open>\<^verbatim>\<open>_MIN_CLOSE_SECONDS\<close> and the adapter's own state.  The open streams are numbered.\<close>

definition MIN_CLOSE_SECONDS :: rat where
  "MIN_CLOSE_SECONDS = 1 / 1000"

record openai_model =
  om_timeout :: rat
  om_owns_client :: bool
  om_default_model :: "string option"
  om_active_streams :: "nat list"

text \<open>How a resource ends its release, given the seconds that it may take.\<close>

definition release_within :: "(rat \<Rightarrow> close_result) \<Rightarrow> rat \<Rightarrow> exn + bool" where
  "release_within resource budget_seconds =
     (case resource (max budget_seconds MIN_CLOSE_SECONDS) of
        NoCloser \<Rightarrow> Inr True
      | Closes \<Rightarrow> Inr True
      | ClosesLate \<Rightarrow> Inr False
      | CloseFails e \<Rightarrow>
          if isinstance_exn e TimeoutError then Inr False else if isinstance_exn e Exception then Inr True else Inl e)"

definition close_timeout :: "openai_model \<Rightarrow> rat" where
  "close_timeout m = max (om_timeout m) MIN_CLOSE_SECONDS"

fun release_streams :: "(nat \<Rightarrow> rat \<Rightarrow> close_result) \<Rightarrow> nat list \<Rightarrow> bool \<Rightarrow> openai_model \<Rightarrow> (exn, bool, openai_model) outcome" where
  "release_streams close [] released m = (Inr released, m)"
| "release_streams close (stream # streams) released m =
     (let m' = m\<lparr>om_active_streams := remove1 stream (om_active_streams m)\<rparr> in
      case release_within (close stream) (close_timeout m) of
        Inl e \<Rightarrow> (Inl e, m')
      | Inr ok \<Rightarrow> release_streams close streams (released \<and> ok) m')"

text \<open>\<open>ends\<close>: whether the producer ends within the given seconds after it was asked to cancel.\<close>

definition release_producer :: "(rat \<Rightarrow> bool) \<Rightarrow> (nat \<Rightarrow> rat \<Rightarrow> close_result) \<Rightarrow> nat list \<Rightarrow> openai_model \<Rightarrow>
    (exn, bool, openai_model) outcome" where
  "release_producer ends close opened m = release_streams close opened (ends (close_timeout m)) m"

fun close_all :: "(nat \<Rightarrow> rat \<Rightarrow> close_result) \<Rightarrow> nat list \<Rightarrow> rat \<Rightarrow> exn option" where
  "close_all close [] budget = None"
| "close_all close (stream # streams) budget =
     (case release_within (close stream) budget of Inl e \<Rightarrow> Some e | Inr _ \<Rightarrow> close_all close streams budget)"

definition openai_aclose :: "(nat \<Rightarrow> rat \<Rightarrow> close_result) \<Rightarrow> (rat \<Rightarrow> close_result) \<Rightarrow> openai_model \<Rightarrow>
    (exn, unit, openai_model) outcome" where
  "openai_aclose close client m =
     (case close_all close (om_active_streams m) (close_timeout m) of
        Some e \<Rightarrow> (Inl e, m)
      | None \<Rightarrow>
          (let m = m\<lparr>om_active_streams := []\<rparr> in
           if om_owns_client m
           then (case release_within client (close_timeout m) of Inl e \<Rightarrow> (Inl e, m) | Inr _ \<Rightarrow> (Inr (), m))
           else (Inr (), m)))"

text \<open>\<^verbatim>\<open>create_openai_client\<close>: \<open>sdk\<close> is the vendor's client class or the failure of its import.  The SDK's own
retries are switched off: attempts are the runtime's business.\<close>

definition create_openai_client :: "(exn + (string \<Rightarrow> int \<Rightarrow> rat \<Rightarrow> 'x \<Rightarrow> 'client)) \<Rightarrow> string \<Rightarrow> rat \<Rightarrow> 'x \<Rightarrow> exn + 'client" where
  "create_openai_client sdk api_key timeout extra =
     (case sdk of
        Inl e \<Rightarrow> Inl (raised_from AdapterError ''install agent-runtime[openai] to use the reference adapter'' e)
      | Inr client \<Rightarrow> Inr (client api_key 0 timeout extra))"

section \<open>The stream of one request\<close>

text \<open>What the vendor's call does: when it returns or raises, what the stream sends, how it is released.\<close>

record vendor_call =
  va_create :: "rat \<times> exn option"
  va_chunks :: "(rat \<times> vendor_chunk) list"
  va_end :: "rat \<times> exn option"
  va_close :: "rat \<Rightarrow> close_result"
  va_producer_ends :: "rat \<Rightarrow> bool"

datatype queue_item = Item runtime_event | StreamEnd | Failed exn

definition attempt_timeout :: "openai_model \<Rightarrow> rat \<Rightarrow> model_request \<Rightarrow> rat" where
  "attempt_timeout m now request =
     (case mr_deadline_monotonic request of
        None \<Rightarrow> om_timeout m
      | Some deadline \<Rightarrow> max MIN_CLOSE_SECONDS (min (om_timeout m) (deadline - now)))"

text \<open>
  What the producer task puts on the queue, and when.  Its own timeout cuts the reading off; an exception
  outside of \<^verbatim>\<open>Exception\<close> ends the task without a word.
\<close>

definition last_item :: "rat \<times> exn option \<Rightarrow> (rat \<times> queue_item) list" where
  "last_item fin =
     (case fin of
        (t, None) \<Rightarrow> [(t, StreamEnd)]
      | (t, Some e) \<Rightarrow> if isinstance_exn e Exception then [(t, Failed e)] else [])"

definition put_events :: "(rat \<times> runtime_event) list \<Rightarrow> (rat \<times> queue_item) list" where
  "put_events events = map (\<lambda>(t, ev). (t, Item ev)) events"

definition produce :: "json_module \<Rightarrow> step_identity \<Rightarrow> rat \<Rightarrow> vendor_call \<Rightarrow> (rat \<times> queue_item) list" where
  "produce js i budget call =
     (let timed_out = last_item (budget, Some (raised TimeoutError [])) in
      if budget \<le> fst (va_create call) then timed_out
      else
        (case snd (va_create call) of
           Some e \<Rightarrow> last_item (fst (va_create call), Some e)
         | None \<Rightarrow>
             (case normalize_chat_completion_stream js i (va_chunks call) (va_end call) of
                (events, fin) \<Rightarrow>
                  if budget \<le> fst fin then put_events (takeWhile (\<lambda>(t, ev). t < budget) events) @ timed_out
                  else put_events events @ last_item fin)))"

text \<open>
  A consumer moves an event after some time, and may give the pull up after some more (its task is
  cancelled).  When it does not pull any more it closes the generator.
\<close>

type_synonym pull = "rat \<times> rat option"

datatype reading = Drained | Failing exn

fun read_queue :: "rat \<Rightarrow> pull list \<Rightarrow> rat \<Rightarrow> (rat \<times> queue_item) list \<Rightarrow> (rat \<times> runtime_event) list \<times> rat \<times> reading" where
  "read_queue deadline [] now items = ([], now, Failing (raised GeneratorExit []))"
| "read_queue deadline ((delay, patience) # moves) now items =
     (let now = now + delay;
          gives_up = (\<lambda>t. case patience of None \<Rightarrow> False | Some p \<Rightarrow> now + p < t);
          late = (case patience of
                    Some p \<Rightarrow> if now + p < deadline then ([], now + p, Failing (raised AsyncioCancelledError []))
                              else ([], deadline, Failing (raised TimeoutError []))
                  | None \<Rightarrow> ([], deadline, Failing (raised TimeoutError [])))
      in
      if deadline - now \<le> 0 then ([], now, Failing (raised TimeoutError ''adapter timeout''))
      else
        (case items of
           [] \<Rightarrow> late
         | (put, item) # items \<Rightarrow>
             (let t = max now put in
              if deadline \<le> t \<or> gives_up t then late
              else
                (case item of
                   Item ev \<Rightarrow> (case read_queue deadline moves t items of (evs, rest) \<Rightarrow> ((t, ev) # evs, rest))
                 | StreamEnd \<Rightarrow> ([], t, Drained)
                 | Failed e \<Rightarrow> ([], t, Failing e)))))"

text \<open>The \<^verbatim>\<open>except\<close> clauses of the generator.\<close>

definition adapter_error :: "exn \<Rightarrow> exn" where
  "adapter_error e =
     (if isinstance_exn e AdapterError \<or> \<not> isinstance_exn e Exception then e
      else raised_from AdapterError (exn_message e) e)"

text \<open>The \<^verbatim>\<open>finally\<close> block at the moment \<open>t\<close>, when the stream is open if the vendor's call has returned.\<close>

definition opened_by :: "vendor_call \<Rightarrow> rat \<Rightarrow> rat \<Rightarrow> bool" where
  "opened_by call budget t \<longleftrightarrow>
     snd (va_create call) = None \<and> fst (va_create call) < budget \<and> fst (va_create call) \<le> t"

definition finish_stream :: "vendor_call \<Rightarrow> nat list \<Rightarrow> reading \<Rightarrow> openai_model \<Rightarrow> (exn, unit, openai_model) outcome" where
  "finish_stream call opened r m =
     (case release_producer (va_producer_ends call) (\<lambda>_. va_close call) opened m of
        (Inl e, m) \<Rightarrow> (Inl e, m)
      | (Inr released, m) \<Rightarrow>
          (case r of
             Drained \<Rightarrow>
               if released then (Inr (), m)
               else (Inl (raised AdapterError ''stream close exceeded the adapter timeout''), m)
           | Failing e \<Rightarrow> (Inl (adapter_error e), m)))"

text \<open>\<^verbatim>\<open>_stream\<close> for the stream number \<open>sid\<close>; the task's cancellation requests survive the release.\<close>

definition openai_identity :: step_identity where
  "openai_identity = \<lparr>si_run_id = ''openai'', si_step_no = 0, si_model_round = 0\<rparr>"

definition openai_stream :: "json_module \<Rightarrow> (pyobj \<Rightarrow> vendor_call) \<Rightarrow> nat \<Rightarrow> rat \<Rightarrow> model_request \<Rightarrow> pull list \<Rightarrow>
    nat option \<Rightarrow> openai_model \<Rightarrow> (rat \<times> runtime_event) list \<times> (exn, unit, openai_model) outcome \<times> nat option" where
  "openai_stream js create sid now request moves task m =
     (if moves = [] then ([], (Inl (raised GeneratorExit []), m), task)
      else
        (case request_payload js (om_default_model m) request of
           Inl e \<Rightarrow> ([], (Inl e, m), task)
         | Inr payload \<Rightarrow>
             (let budget = attempt_timeout m now request; call = create payload in
              case read_queue budget moves 0 (produce js openai_identity budget call) of
                (events, t, r) \<Rightarrow>
                  (let opened = (if opened_by call budget t then [sid] else []);
                       m = m\<lparr>om_active_streams := om_active_streams m @ opened\<rparr>
                   in (events, await_despite_cancellation (\<lambda>task. (finish_stream call opened r m, task)) task)))))"

end
