(* ===== verification/Openai_Facts.thy ===== *)
theory Openai_Facts imports Openai begin

text \<open>
  What the vendor adapter guarantees: the events of a normalized stream, the tool calls it assembles, the
  round trip of tool calls through the payload and the vendor's deltas, and how a stream ends.
\<close>

section \<open>Parsed arguments\<close>

lemma json_like_dict_of: "(\<And>kv. kv \<in> set kvs \<Longrightarrow> json_like (snd kv)) \<Longrightarrow> json_like (PyDict (dict_of kvs))"
  using set_dict_of [of kvs] by auto

lemma json_value_like:
  "json_value pf f s = Some (x, rest) \<Longrightarrow> json_like x"
  "json_elements pf f s = Some (xs, rest) \<Longrightarrow> \<forall>x \<in> set xs. json_like x"
  "json_members pf f s = Some (kvs, rest) \<Longrightarrow> \<forall>kv \<in> set kvs. json_like (snd kv)"
proof (induction pf f s and pf f s and pf f s arbitrary: x rest and xs rest and kvs rest
    rule: json_value_json_elements_json_members.induct)
  case (2 pf f s)
  then show ?case
    by (auto simp: scan_number_def simp del: json_like.simps(1) split: list.splits if_splits option.splits prod.splits
        intro!: json_like_dict_of json_like_dict_of [of "[]", unfolded dict_of_def, simplified])
next
  case (4 pf f s)
  then show ?case by (fastforce split: option.splits list.splits if_splits)
next
  case (6 pf f s)
  then show ?case by (fastforce split: option.splits list.splits if_splits)
qed simp_all

lemma json_loads_like: "json_loads pf s = Some x \<Longrightarrow> json_like x"
  by (auto simp: json_loads_def simp del: json_value.simps split: option.splits if_splits dest: json_value_like(1))

lemma freeze_mapping_total: "json_like (PyDict kvs) \<Longrightarrow> \<exists>args. freeze_mapping (Some kvs) = Inr args"
  using freeze_json_accepts [of "PyDict kvs"] by (auto simp: freeze_mapping_def split: sum.splits)

section \<open>Assembling tool calls\<close>

lemma assemble_call_cases:
  "(\<exists>e. assemble_call js ent = Inl e \<and> isinstance_exn e AdapterError) \<or>
   (\<exists>c. assemble_call js ent = Inr c \<and> tc_name c = tf_name (snd ent) \<and> jwf (JObj (tc_arguments c)) \<and> tc_call_id c \<noteq> [] \<and>
      tc_call_id c = given (Some (tf_call_id (snd ent))) (''call-'' @ int_str (fst ent)))"
proof -
  obtain i item where ent: "ent = (i, item)" by (cases ent)
  define raw where "raw = (if tf_arguments item = [] then ''{}'' else tf_arguments item)"
  show ?thesis
  proof (cases "\<exists>kvs. json_loads (js_parse_float js) raw = Some (PyDict kvs)")
    case True
    then obtain kvs where kvs: "json_loads (js_parse_float js) raw = Some (PyDict kvs)" by blast
    then obtain args where args: "freeze_mapping (Some kvs) = Inr args"
      using freeze_mapping_total json_loads_like by blast
    have "assemble_call js ent = Inr \<lparr>tc_call_id = given (Some (tf_call_id item)) (''call-'' @ int_str i),
        tc_name = tf_name item, tc_arguments = args\<rparr>"
      using kvs args by (simp add: assemble_call_def ent raw_def Let_def given_def)
    then show ?thesis using freeze_mapping_Inr [OF args] by (simp add: ent given_def)
  next
    case False
    then have "\<exists>e. assemble_call js ent = Inl e \<and> isinstance_exn e AdapterError"
      unfolding assemble_call_def ent prod.case Let_def raw_def [symmetric] by (auto split: option.split pyobj.split)
    then show ?thesis by blast
  qed
qed
text \<open>Results and errors of a traversal, element by element.\<close>

lemma map_result_nth: "map_result f xs = Inr ys \<Longrightarrow> n < length xs \<Longrightarrow> f (xs ! n) = Inr (ys ! n)"
  by (induction xs arbitrary: ys n) (auto simp: nth_Cons' split: sum.splits)

lemma map_result_map: "(\<And>x. x \<in> set xs \<Longrightarrow> f (g x) = Inr (h x)) \<Longrightarrow> map_result f (map g xs) = Inr (map h xs)"
  by (induction xs) simp_all

lemma map_result_Inl: "map_result f xs = Inl e \<Longrightarrow> \<exists>x \<in> set xs. f x = Inl e"
  by (induction xs) (auto split: sum.splits)

lemma assemble_call_Inl: "assemble_call js ent = Inl e \<Longrightarrow> isinstance_exn e AdapterError"
  using assemble_call_cases [of js ent] by auto

lemma assemble_tool_calls_Inl: "assemble_tool_calls js frs = Inl e \<Longrightarrow> isinstance_exn e AdapterError"
  unfolding assemble_tool_calls_def by (auto dest!: map_result_Inl assemble_call_Inl)

text \<open>C40: Assembled tool calls are well-formed values: one call per accumulated fragment in the order of
the indices, with the accumulated name, an id that is never empty (the vendor's, or one made from the
index), and arguments that are a frozen JSON object with one entry per key at every level; when a
fragment's text is no JSON object, the whole assembly is an adapter error.\<close>

theorem assembled_calls_well_formed:
  "case assemble_tool_calls js frs of
     Inl e \<Rightarrow> isinstance_exn e AdapterError
   | Inr calls \<Rightarrow>
       map tc_name calls = map (tf_name \<circ> snd) (sort_key fst frs) \<and>
       map tc_call_id calls = map (\<lambda>(i, f). given (Some (tf_call_id f)) (''call-'' @ int_str i)) (sort_key fst frs) \<and>
       list_all (\<lambda>c. tc_call_id c \<noteq> [] \<and> jwf (JObj (tc_arguments c))) calls"
proof (cases "assemble_tool_calls js frs")
  case (Inr calls)
  then have calls: "map_result (assemble_call js) (sort_key fst frs) = Inr calls" by (simp add: assemble_tool_calls_def)
  note len = map_result_length [OF calls]
  have each: "tc_name (calls ! n) = tf_name (snd (sort_key fst frs ! n)) \<and> jwf (JObj (tc_arguments (calls ! n))) \<and>
      tc_call_id (calls ! n) \<noteq> [] \<and> tc_call_id (calls ! n) =
        given (Some (tf_call_id (snd (sort_key fst frs ! n)))) (''call-'' @ int_str (fst (sort_key fst frs ! n)))"
    if "n < length calls" for n
    using assemble_call_cases [of js "sort_key fst frs ! n"] map_result_nth [OF calls, of n] that len by auto
  show ?thesis unfolding Inr sum.case
  proof (intro conjI)
    show "map tc_name calls = map (tf_name \<circ> snd) (sort_key fst frs)"
      by (rule nth_equalityI) (use each len in auto)
    show "map tc_call_id calls = map (\<lambda>(i, f). given (Some (tf_call_id f)) (''call-'' @ int_str i)) (sort_key fst frs)"
      by (rule nth_equalityI) (use each len in \<open>auto simp: case_prod_beta\<close>)
    show "list_all (\<lambda>c. tc_call_id c \<noteq> [] \<and> jwf (JObj (tc_arguments c))) calls"
      using each by (simp only: list_all_length) blast
  qed
qed (simp add: assemble_tool_calls_Inl)

section \<open>Deltas of several calls\<close>

lemma map_of_add_delta:
  "map_of (add_tool_delta d tools) k =
     (if k = delta_index d then Some (extend_fragment d (case map_of tools k of None \<Rightarrow> new_fragment | Some acc \<Rightarrow> acc))
      else map_of tools k)"
  by (simp add: add_tool_delta_def)

text \<open>Each index accumulates its own deltas, however the deltas of other indices are interleaved.\<close>

lemma map_of_add_deltas:
  "map_of (fold add_tool_delta ds tools) k =
     (let own = filter (\<lambda>d. delta_index d = k) ds in
      if own = [] then map_of tools k
      else Some (fold extend_fragment own (case map_of tools k of None \<Rightarrow> new_fragment | Some acc \<Rightarrow> acc)))"
  by (induction ds arbitrary: tools) (auto simp: Let_def map_of_add_delta)

lemma add_deltas_distinct: "distinct (map fst tools) \<Longrightarrow> distinct (map fst (fold add_tool_delta ds tools))"
  by (induction ds arbitrary: tools) (simp_all add: add_tool_delta_def)

lemma add_deltas_keys: "fst ` set (fold add_tool_delta ds tools) = fst ` set tools \<union> delta_index ` set ds"
  by (induction ds arbitrary: tools) (auto simp: add_tool_delta_def keys_dict_set)

lemma sorted_entries:
  assumes "distinct (map fst frs)" and "fst ` set frs = int ` {0..<n}"
  shows "sort_key fst frs = map (\<lambda>i. (int i, the (map_of frs (int i)))) [0..<n]"
proof -
  let ?s = "sort_key fst frs"
  have "map fst ?s = map int [0..<n]"
  proof (rule sorted_distinct_set_unique)
    show "sorted (map fst ?s)" by simp
    show "distinct (map fst ?s)" using assms(1) by (metis distinct_map distinct_sort inj_on_def set_sort)
    show "sorted (map int [0..<n])" by (simp add: sorted_iff_nth_mono)
    show "distinct (map int [0..<n])" by (simp add: distinct_map inj_on_def)
    show "set (map fst ?s) = set (map int [0..<n])" using assms(2) by simp
  qed
  then have keys: "map fst ?s = map int [0..<n]" .
  then have len: "length ?s = n" by (metis length_map length_upt minus_nat.diff_0)
  show ?thesis
  proof (rule nth_equalityI)
    fix i assume "i < length ?s"
    then have i: "i < n" "?s ! i \<in> set frs" using len nth_mem [of i ?s] by simp_all
    have "fst (?s ! i) = int i" using arg_cong [OF keys, of "\<lambda>xs. xs ! i"] i(1) len by simp
    moreover from this have "map_of frs (int i) = Some (snd (?s ! i))"
      using i(2) assms(1) by (metis map_of_is_SomeI prod.collapse)
    ultimately show "?s ! i = map (\<lambda>i. (int i, the (map_of frs (int i)))) [0..<n] ! i"
      using i(1) by (simp add: prod_eq_iff)
  qed (use len in simp)
qed
section \<open>The round trip of tool calls\<close>

text \<open>A vendor that streams a call: the id and the name with the first piece of the arguments, then the other pieces.\<close>

definition first_delta :: "int \<Rightarrow> tool_call \<Rightarrow> string \<Rightarrow> tool_delta" where
  "first_delta i c piece =
     \<lparr>td_index = Some i, td_id = Some (tc_call_id c),
      td_function = Some \<lparr>vf_name = Some (tc_name c), vf_arguments = Some piece\<rparr>\<rparr>"

definition next_delta :: "int \<Rightarrow> string \<Rightarrow> tool_delta" where
  "next_delta i piece =
     \<lparr>td_index = Some i, td_id = None, td_function = Some \<lparr>vf_name = None, vf_arguments = Some piece\<rparr>\<rparr>"

fun call_deltas :: "int \<Rightarrow> tool_call \<Rightarrow> string list \<Rightarrow> tool_delta list" where
  "call_deltas i c [] = [first_delta i c []]"
| "call_deltas i c (piece # pieces) = first_delta i c piece # map (next_delta i) pieces"

lemma call_deltas_nonempty: "call_deltas i c pieces \<noteq> []"
  by (cases pieces) simp_all

lemma given_arguments: "given (Some s) [] = s"
  by (simp add: given_def)

lemma extend_next:
  "fold extend_fragment (map (next_delta i) pieces) f = f\<lparr>tf_arguments := tf_arguments f @ concat pieces\<rparr>"
  by (induction pieces arbitrary: f) (simp_all add: extend_fragment_def next_delta_def Let_def given_def)

lemma extend_call:
  "fold extend_fragment (call_deltas i c pieces) new_fragment =
     \<lparr>tf_call_id = tc_call_id c, tf_name = tc_name c, tf_arguments = concat pieces\<rparr>"
  by (cases pieces)
    (auto simp: extend_next extend_fragment_def first_delta_def new_fragment_def Let_def given_def)

text \<open>The arguments of a call, as the payload writes them.\<close>

definition arguments_text :: "json_module \<Rightarrow> tool_call \<Rightarrow> string" where
  "arguments_text js c = json_text (js_float_text js) (JObj (tc_arguments c))"

lemma json_object_thaw: "json_object kvs = Inr (thaw_json (JObj kvs))"
  by (simp add: json_object_def)

lemma call_payload_text:
  "call_payload js c =
     Inr (PyDict [entry ''id'' (PyStr (tc_call_id c)), entry ''type'' (PyStr ''function''),
       entry ''function'' (PyDict [entry ''name'' (PyStr (tc_name c)), entry ''arguments'' (PyStr (arguments_text js c))])])"
  by (simp add: call_payload_def json_object_thaw json_dumps_thaw arguments_text_def del: thaw_json.simps json_text.simps)

text \<open>A call whose arguments survive the JSON text.\<close>

definition transportable :: "json_module \<Rightarrow> tool_call \<Rightarrow> bool" where
  "transportable js c \<longleftrightarrow> tc_call_id c \<noteq> [] \<and> jwf (JObj (tc_arguments c)) \<and>
     (\<forall>r \<in> jfloats (JObj (tc_arguments c)). float_reads (js_parse_float js) (js_float_text js) r)"

lemma assemble_streamed:
  assumes "transportable js c"
  shows "assemble_call js (i, \<lparr>tf_call_id = tc_call_id c, tf_name = tc_name c, tf_arguments = arguments_text js c\<rparr>) = Inr c"
proof -
  have args: "jwf (JObj (tc_arguments c))" and id: "tc_call_id c \<noteq> []"
    and floats: "\<forall>r \<in> jfloats (JObj (tc_arguments c)). float_reads (js_parse_float js) (js_float_text js) r"
    using assms by (simp_all add: transportable_def)
  have "json_loads (js_parse_float js) (arguments_text js c) = Some (thaw_json (JObj (tc_arguments c)))"
    using json_roundtrip [OF args floats] by (simp add: arguments_text_def)
  moreover have "arguments_text js c \<noteq> []" by (simp add: arguments_text_def)
  ultimately show ?thesis
    using freeze_mapping_thaw [OF args] id by (simp add: assemble_call_def)
qed

text \<open>C22: Tool calls survive the trip to the vendor and back: when the vendor streams the calls of an
assistant message of the payload again, each under its own index with the text of its arguments cut
into any pieces and the deltas of different calls interleaved in any way, the adapter assembles
exactly the calls the message had.\<close>

theorem tool_calls_roundtrip:
  assumes "list_all (transportable js) calls" and "list_all (\<lambda>d. \<exists>i < length calls. delta_index d = int i) deltas"
    and "\<forall>i < length calls. \<exists>pieces. concat pieces = arguments_text js (calls ! i) \<and>
      filter (\<lambda>d. delta_index d = int i) deltas = call_deltas (int i) (calls ! i) pieces"
  shows "assemble_tool_calls js (fold add_tool_delta deltas []) = Inr calls \<and>
    map_result (call_payload js) calls =
      Inr (map (\<lambda>c. PyDict [entry ''id'' (PyStr (tc_call_id c)), entry ''type'' (PyStr ''function''),
        entry ''function'' (PyDict [entry ''name'' (PyStr (tc_name c)), entry ''arguments'' (PyStr (arguments_text js c))])]) calls)"
proof -
  let ?frs = "fold add_tool_delta deltas []"
  let ?f = "\<lambda>c. \<lparr>tf_call_id = tc_call_id c, tf_name = tc_name c, tf_arguments = arguments_text js c\<rparr>"
  have frags: "map_of ?frs (int i) = Some (?f (calls ! i))" if "i < length calls" for i
    using assms(3) that by (auto simp: map_of_add_deltas Let_def extend_call call_deltas_nonempty)
  have "delta_index ` set deltas = int ` {0..<length calls}"
  proof (intro equalityI subsetI)
    fix k assume "k \<in> int ` {0..<length calls}"
    then obtain i where i: "i < length calls" "k = int i" by auto
    then have "filter (\<lambda>d. delta_index d = int i) deltas \<noteq> []" using assms(3) call_deltas_nonempty by metis
    then show "k \<in> delta_index ` set deltas" using i by (force simp: filter_empty_conv image_iff)
  qed (use assms(2) in \<open>auto simp: list_all_iff\<close>)
  then have "sort_key fst ?frs = map (\<lambda>i. (int i, the (map_of ?frs (int i)))) [0..<length calls]"
    using add_deltas_distinct [of "[]" deltas] add_deltas_keys [of deltas "[]"] by (intro sorted_entries) simp_all
  also have "\<dots> = map (\<lambda>i. (int i, ?f (calls ! i))) [0..<length calls]"
    by (rule map_cong) (simp_all add: frags)
  finally have "sort_key fst ?frs = \<dots>" .
  moreover have "map_result (assemble_call js) (map (\<lambda>i. (int i, ?f (calls ! i))) [0..<length calls]) =
      Inr (map (\<lambda>i. calls ! i) [0..<length calls])"
    using assms(1) by (intro map_result_map assemble_streamed) (simp add: list_all_length)
  ultimately show ?thesis
    by (simp add: assemble_tool_calls_def map_nth call_payload_text map_result_total)
qed
definition demo_js :: json_module where
  "demo_js = \<lparr>js_parse_float = (\<lambda>_. 1 / 2), js_float_text = (\<lambda>_. ''0.5''), js_error = (\<lambda>_. raised ValueError ''no JSON'')\<rparr>"

definition demo_calls :: "tool_call list" where
  "demo_calls =
     [\<lparr>tc_call_id = ''a'', tc_name = ''add'', tc_arguments = [(''x'', JInt (- 12)), (''r'', JFloat (1 / 2)), (''y'', JArr [JBool True, JStr [CHR 0x22, CHR 0x0A]])]\<rparr>,
      \<lparr>tc_call_id = ''b'', tc_name = ''now'', tc_arguments = []\<rparr>]"

definition demo_deltas :: "tool_delta list" where
  "demo_deltas =
     (let body = arguments_text demo_js (demo_calls ! 0) in
      [first_delta 0 (demo_calls ! 0) (take 3 body), first_delta 1 (demo_calls ! 1) ''{'', next_delta 0 (drop 3 body), next_delta 1 ''}''])"

lemma demo_float: "float_reads (\<lambda>_. 1 / 2) (\<lambda>_. ''0.5'') (1 / 2)"
  by (auto simp: float_reads_def number_end_def scan_number_def scan_integer_def scan_fraction_def scan_exponent_def
      is_digit_def split: list.splits)

theorem tool_calls_roundtrip_witness:
  "assemble_tool_calls demo_js (fold add_tool_delta demo_deltas []) = Inr demo_calls"
proof -
  have t: "list_all (transportable demo_js) demo_calls" by (simp add: demo_calls_def transportable_def demo_js_def demo_float)
  have two: "arguments_text demo_js (demo_calls ! 1) = ''{}''" by code_simp
  have i: "list_all (\<lambda>d. \<exists>i < length demo_calls. delta_index d = int i) demo_deltas"
    by (simp add: demo_calls_def demo_deltas_def Let_def first_delta_def next_delta_def delta_index_def Ex_less_Suc2)
  have p: "\<forall>i < length demo_calls. \<exists>pieces. concat pieces = arguments_text demo_js (demo_calls ! i) \<and>
      filter (\<lambda>d. delta_index d = int i) demo_deltas = call_deltas (int i) (demo_calls ! i) pieces"
  proof (intro allI impI)
    fix i assume "i < length demo_calls"
    then consider "i = 0" | "i = 1" by (auto simp: demo_calls_def less_Suc_eq)
    then show "\<exists>pieces. concat pieces = arguments_text demo_js (demo_calls ! i) \<and>
      filter (\<lambda>d. delta_index d = int i) demo_deltas = call_deltas (int i) (demo_calls ! i) pieces"
    proof cases
      case 1
      let ?b = "arguments_text demo_js (demo_calls ! 0)"
      show ?thesis
        by (rule exI [of _ "[take 3 ?b, drop 3 ?b]"])
          (simp add: 1 demo_deltas_def Let_def first_delta_def next_delta_def delta_index_def)
    next
      case 2
      show ?thesis
        by (rule exI [of _ "[''{'', ''}'']"])
          (simp add: 2 two [simplified] demo_deltas_def Let_def first_delta_def next_delta_def delta_index_def)
    qed
  qed
  show ?thesis using tool_calls_roundtrip [OF t i p] by blast
qed

text \<open>The extra settings of a model configuration do not reach the vendor.\<close>

lemma payload_ignores_extra:
  "request_payload js d (r\<lparr>mr_model := (mr_model r)\<lparr>mc_extra := xs\<rparr>\<rparr>) = request_payload js d r"
  by (simp add: request_payload_def Let_def cong: sum.case_cong)

section \<open>Normalized streams\<close>

text \<open>The text and the tool deltas of a chunk, where it has a choice with a delta.\<close>

definition chunk_delta :: "vendor_chunk \<Rightarrow> vendor_delta option" where
  "chunk_delta chunk = (case ck_choices chunk of [] \<Rightarrow> None | choice # _ \<Rightarrow> vc_delta choice)"

definition chunk_text :: "vendor_chunk \<Rightarrow> string" where
  "chunk_text chunk = (case chunk_delta chunk of None \<Rightarrow> [] | Some d \<Rightarrow> (case vd_content d of None \<Rightarrow> [] | Some s \<Rightarrow> s))"

definition chunk_tool_deltas :: "vendor_chunk \<Rightarrow> tool_delta list" where
  "chunk_tool_deltas chunk = (case chunk_delta chunk of None \<Rightarrow> [] | Some d \<Rightarrow> vd_tool_calls d)"

definition text_events :: "step_identity \<Rightarrow> vendor_chunk list \<Rightarrow> runtime_event list" where
  "text_events i chunks = map (\<lambda>c. TextDeltaEvent i c 1 None) (filter (\<lambda>c. c \<noteq> []) (map chunk_text chunks))"

lemma given_or: "given x [] = (case x of None \<Rightarrow> [] | Some s \<Rightarrow> s)"
  by (auto simp: given_def split: option.split)

lemma chat_chunk_events: "fst (chat_chunk i c s) = text_events i [c]"
  by (auto simp: chat_chunk_def text_events_def chunk_text_def chunk_delta_def first_choice_def given_or Let_def
      split: option.split list.split)

lemma chat_chunk_state:
  "concat (ch_text_parts (snd (chat_chunk i c s))) = concat (ch_text_parts s) @ chunk_text c"
  "ch_tools (snd (chat_chunk i c s)) = fold add_tool_delta (chunk_tool_deltas c) (ch_tools s)"
  "ch_usage (snd (chat_chunk i c s)) = usage_from_chunk c (ch_usage s)"
  by (auto simp: chat_chunk_def chunk_text_def chunk_tool_deltas_def chunk_delta_def first_choice_def given_or Let_def
      split: option.split list.split)

lemma text_events_Cons: "text_events i (c # cs) = text_events i [c] @ text_events i cs"
  by (simp add: text_events_def)

lemma normalize_from_shape:
  assumes "normalize_from js i chunks (t, failure) s = (events, (t', r))"
  shows "\<exists>s'. concat (ch_text_parts s') = concat (ch_text_parts s) @ concat (map (chunk_text \<circ> snd) chunks) \<and>
    ch_tools s' = fold add_tool_delta (concat (map (chunk_tool_deltas \<circ> snd) chunks)) (ch_tools s) \<and>
    ch_usage s' = fold usage_from_chunk (map snd chunks) (ch_usage s) \<and> t' = t \<and>
    map snd events = text_events i (map snd chunks) @ (if failure = None then fst (chat_end js i s') else []) \<and>
    r = (if failure = None then snd (chat_end js i s') else failure)"
  using assms
proof (induction chunks arbitrary: s events)
  case Nil
  then show ?case
    by (intro exI [of _ s]) (cases failure; auto simp: text_events_def o_def split: prod.splits)
next
  case (Cons c chunks)
  obtain t0 chunk where c: "c = (t0, chunk)" by (cases c)
  let ?s = "snd (chat_chunk i chunk s)"
  obtain later where rest: "normalize_from js i chunks (t, failure) ?s = (later, (t', r))"
    and events: "events = map (\<lambda>ev. (t0, ev)) (text_events i [chunk]) @ later"
    using Cons.prems by (auto simp: c chat_chunk_events [symmetric, of i chunk s] split: prod.splits)
  from Cons.IH [OF rest] show ?case
    by (auto simp: c events chat_chunk_state text_events_Cons [of i chunk "map snd chunks"] o_def)
qed

text \<open>C24: A normalized stream keeps the protocol of a model step: it consists of the vendor's non-empty text
deltas in order, followed by at most one completion, which is the last event, only comes when the
vendor's stream ended without an error and counts as effective.  The completion's text is the
concatenation of the deltas, its tool calls are those assembled from all tool deltas, its usage the
last one reported; blank streams without a call end without a completion, and broken tool calls
end the stream with an adapter error.\<close>

theorem normalized_stream_protocol:
  "case normalize_chat_completion_stream js i chunks (t, failure) of (events, t', r) \<Rightarrow>
     (let body = concat (map (chunk_text \<circ> snd) chunks);
          deltas = concat (map (chunk_tool_deltas \<circ> snd) chunks);
          ends = (\<lambda>last r'. map snd events = text_events i (map snd chunks) @ last \<and> r = r')
      in t' = t \<and>
         (case (failure, assemble_tool_calls js (fold add_tool_delta deltas [])) of
            (Some e, _) \<Rightarrow> ends [] (Some e)
          | (None, Inl e) \<Rightarrow> ends [] (Some e) \<and> isinstance_exn e AdapterError
          | (None, Inr calls) \<Rightarrow>
              if list_all py_isspace body \<and> calls = [] then ends [] None
              else \<exists>result. ends [ModelCompleted i result None] None \<and> is_effective result \<and>
                mres_text result = (if body = [] then None else Some body) \<and> mres_tool_calls result = calls \<and>
                mres_usage result = fold usage_from_chunk (map snd chunks) (ch_usage new_chat)))"
proof (cases "normalize_chat_completion_stream js i chunks (t, failure)")
  case (fields events t' r)
  note shape = normalize_from_shape [OF fields [unfolded normalize_chat_completion_stream_def]]
  then obtain s where s: "concat (ch_text_parts s) = concat (map (chunk_text \<circ> snd) chunks)"
      "ch_tools s = fold add_tool_delta (concat (map (chunk_tool_deltas \<circ> snd) chunks)) []"
      "ch_usage s = fold usage_from_chunk (map snd chunks) (ch_usage new_chat)" "t' = t"
      "map snd events = text_events i (map snd chunks) @ (if failure = None then fst (chat_end js i s) else [])"
      "r = (if failure = None then snd (chat_end js i s) else failure)"
    by (auto simp: new_chat_def)
  show ?thesis
    unfolding fields prod.case Let_def s(2) [symmetric] s(1) [symmetric] s(3) [symmetric]
    using s(4-6) assemble_tool_calls_Inl [of js "ch_tools s"]
    by (cases failure; cases "assemble_tool_calls js (ch_tools s)")
      (auto simp: chat_end_def Let_def is_effective_iff list_all_iff)
qed

end
