(* ===== verification/Openai_Stream.thy ===== *)
theory Openai_Stream imports Openai_Facts "HOL-Library.Sublist" begin

text \<open>
  What a stream of the vendor adapter guarantees its consumer: the deadline, the class of its errors,
  completeness when it ends normally, and that the vendor's stream is given back in every case.
\<close>

section \<open>Reading the queue\<close>

text \<open>The events of a list of queue items.\<close>

fun item_events :: "(rat \<times> queue_item) list \<Rightarrow> runtime_event list" where
  "item_events [] = []"
| "item_events ((t, Item ev) # items) = ev # item_events items"
| "item_events ((t, StreamEnd) # items) = []"
| "item_events ((t, Failed e) # items) = []"

fun item_end :: "(rat \<times> queue_item) list \<Rightarrow> reading option" where
  "item_end [] = None"
| "item_end ((t, Item ev) # items) = item_end items"
| "item_end ((t, StreamEnd) # items) = Some Drained"
| "item_end ((t, Failed e) # items) = Some (Failing e)"

text \<open>The ways in which a consumer or a deadline ends the reading.\<close>

definition cut_off :: "reading \<Rightarrow> bool" where
  "cut_off r \<longleftrightarrow> (\<exists>k \<in> {GeneratorExit, AsyncioCancelledError, TimeoutError}. \<exists>m. r = Failing (raised k m))"

lemma cut_off_simps [simp]:
  "cut_off (Failing (raised GeneratorExit m))" "cut_off (Failing (raised AsyncioCancelledError m))"
  "cut_off (Failing (raised TimeoutError m))" "\<not> cut_off Drained"
  by (simp_all add: cut_off_def)

lemma read_queue_facts:
  assumes "read_queue deadline moves now items = (events, t, r)"
  shows "list_all (\<lambda>(t, ev). t < deadline) events \<and> prefix (map snd events) (item_events items) \<and>
    (cut_off r \<or> map snd events = item_events items \<and> item_end items = Some r) \<and>
    (r = Drained \<longrightarrow> (\<exists>put \<le> t. (put, StreamEnd) \<in> set items))"
  using assms
proof (induction deadline moves now items arbitrary: events rule: read_queue.induct)
  case (2 deadline delay patience moves now items)
  show ?case
  proof (cases "events = [] \<and> cut_off r")
    case False
    with "2.prems" obtain put item rest where items: "items = (put, item) # rest"
      and time: "\<not> deadline - (now + delay) \<le> 0" "\<not> (deadline \<le> max (now + delay) put \<or>
        (case patience of None \<Rightarrow> False | Some p \<Rightarrow> now + delay + p < max (now + delay) put))"
      by (auto simp: Let_def split: if_splits list.splits option.splits prod.splits)
    show ?thesis
    proof (cases item)
      case (Item ev)
      obtain evs u q where rest: "read_queue deadline moves (max (now + delay) put) rest = (evs, u, q)"
        by (metis prod_cases3)
      have eq: "events = (max (now + delay) put, ev) # evs" "q = r" "u = t"
        using "2.prems" items time Item rest by (simp_all add: Let_def)
      have "list_all (\<lambda>(t, ev). t < deadline) evs \<and> prefix (map snd evs) (item_events rest) \<and>
          (cut_off q \<or> map snd evs = item_events rest \<and> item_end rest = Some q) \<and>
          (q = Drained \<longrightarrow> (\<exists>put \<le> u. (put, StreamEnd) \<in> set rest))"
        by (rule "2.IH" [OF refl refl refl time(1) items refl refl time(2) Item, unfolded eq(2,3) [symmetric]])
          (use "2.prems" rest items time Item eq in \<open>simp add: Let_def\<close>)
      then show ?thesis using items Item time eq by auto
    qed (use "2.prems" items time in \<open>auto simp: Let_def intro: exI [of _ put]\<close>)
  qed auto
qed auto

section \<open>What the producer puts\<close>

lemma item_events_put:
  "item_events (put_events evs @ items) = map snd evs @ item_events items"
  "item_end (put_events evs @ items) = item_end items"
  by (induction evs) (auto simp: put_events_def)

lemma last_item_facts:
  "item_events (last_item fin) = []"
  "item_end (last_item fin) = Some Drained \<longleftrightarrow> snd fin = None"
  "item_end (last_item fin) = Some (Failing e) \<Longrightarrow> isinstance_exn e Exception"
  "(put, StreamEnd) \<in> set (last_item fin) \<Longrightarrow> put = fst fin"
  by (cases fin; cases "snd fin"; auto simp: last_item_def split: if_splits)+

lemma put_events_no_end [simp]: "(put, StreamEnd) \<notin> set (put_events evs)"
  by (auto simp: put_events_def)

lemma prefix_takeWhile_map: "prefix (map f (takeWhile p xs)) (map f xs)"
  by (metis takeWhile_is_prefix map_mono_prefix)

lemma produce_facts:
  fixes js i budget call
  defines "answer \<equiv> normalize_chat_completion_stream js i (va_chunks call) (va_end call)"
  shows "prefix (item_events (produce js i budget call)) (map snd (fst answer))"
    and "item_end (produce js i budget call) = Some Drained \<Longrightarrow>
      item_events (produce js i budget call) = map snd (fst answer) \<and> snd (snd answer) = None \<and>
      snd (va_create call) = None \<and> fst (va_create call) < budget"
    and "item_end (produce js i budget call) = Some (Failing e) \<Longrightarrow> isinstance_exn e Exception"
    and "(put, StreamEnd) \<in> set (produce js i budget call) \<Longrightarrow> put = fst (snd answer)"
proof -
  obtain evs fin where a: "normalize_chat_completion_stream js i (va_chunks call) (va_end call) = (evs, fin)" by (rule prod.exhaust)
  note unfolds = produce_def Let_def a item_events_put last_item_facts(1,2) answer_def
  show "prefix (item_events (produce js i budget call)) (map snd (fst answer))"
    by (auto simp: unfolds prefix_takeWhile_map split: option.split)
  show "item_events (produce js i budget call) = map snd (fst answer) \<and> snd (snd answer) = None \<and>
      snd (va_create call) = None \<and> fst (va_create call) < budget"
    if "item_end (produce js i budget call) = Some Drained"
    using that by (auto simp: unfolds split: option.splits if_splits)
  show "isinstance_exn e Exception" if "item_end (produce js i budget call) = Some (Failing e)"
    using that by (auto simp: unfolds dest: last_item_facts(3) split: option.splits if_splits)
  show "put = fst (snd answer)" if "(put, StreamEnd) \<in> set (produce js i budget call)"
    using that by (auto simp: unfolds last_item_def split: option.splits if_splits prod.splits)
qed
section \<open>The end of a stream\<close>

lemma adapter_error_kind:
  "isinstance_exn (adapter_error e) AdapterError \<or> \<not> isinstance_exn e Exception \<and> adapter_error e = e"
  by (simp add: adapter_error_def)

text \<open>Releasing the producer and the stream: the state is what it was before the stream was opened.\<close>

definition released_in_time :: "vendor_call \<Rightarrow> openai_model \<Rightarrow> bool \<Rightarrow> bool" where
  "released_in_time call m opened \<longleftrightarrow>
     va_producer_ends call (close_timeout m) \<and> (opened \<longrightarrow> release_within (va_close call) (close_timeout m) = Inr True)"

lemma close_timeout_streams [simp]: "close_timeout (m\<lparr>om_active_streams := xs\<rparr>) = close_timeout m"
  by (simp add: close_timeout_def)

lemma release_within_Inl: "release_within close s = Inl e \<Longrightarrow> \<exists>s. close s = CloseFails e \<and> \<not> isinstance_exn e Exception"
  by (auto simp: release_within_def split: close_result.splits if_splits)

lemma finish_stream_facts:
  assumes "sid \<notin> set (om_active_streams m)"
    and "finish_stream call (if opened then [sid] else []) q
      (m\<lparr>om_active_streams := om_active_streams m @ (if opened then [sid] else [])\<rparr>) = (r, m')"
  shows "m' = m" and "r = Inr () \<Longrightarrow> q = Drained \<and> released_in_time call m opened"
    and "r = Inl e \<Longrightarrow> (\<exists>e'. q = Failing e' \<and> e = adapter_error e') \<or> isinstance_exn e AdapterError \<or>
      (\<exists>s. va_close call s = CloseFails e \<and> \<not> isinstance_exn e Exception)"
proof -
  have m: "m\<lparr>om_active_streams := remove1 sid (om_active_streams m @ [sid])\<rparr> = m"
    using assms(1) by (simp add: remove1_append)
  show "m' = m" using assms m
    by (cases q; cases opened)
      (auto simp: finish_stream_def release_producer_def Let_def split: sum.splits prod.splits if_splits)
  show "q = Drained \<and> released_in_time call m opened" if "r = Inr ()"
    using assms m that by (cases q; cases opened)
      (auto simp: finish_stream_def release_producer_def Let_def released_in_time_def split: sum.splits prod.splits if_splits)
  show "(\<exists>e'. q = Failing e' \<and> e = adapter_error e') \<or> isinstance_exn e AdapterError \<or>
      (\<exists>s. va_close call s = CloseFails e \<and> \<not> isinstance_exn e Exception)" if "r = Inl e"
    using assms m that by (cases q; cases opened)
      (auto simp: finish_stream_def release_producer_def Let_def dest: release_within_Inl split: sum.splits prod.splits if_splits)
qed

lemma request_payload_total: "\<exists>p. request_payload js d request = Inr p"
proof -
  have "\<exists>p. message_payload js m = Inr p" for m
    by (simp add: message_payload_def call_payload_text map_result_total)
  then obtain f where f: "\<And>m. message_payload js m = Inr (f m)" by metis
  have g: "\<exists>p. spec_payload spec = Inr p" for spec by (simp add: spec_payload_def json_object_thaw)
  then obtain g where g: "\<And>spec. spec_payload spec = Inr (g spec)" by metis
  show ?thesis by (simp add: request_payload_def f g map_result_total Let_def)
qed

lemma await_keeps: "await_despite_cancellation (\<lambda>task. (r, task)) task = (r, task)"
  by (cases task) (simp_all add: await_despite_cancellation_def uncancel_all)

text \<open>How a stream may end without having delivered everything.\<close>

definition stream_error :: "vendor_call \<Rightarrow> exn \<Rightarrow> bool" where
  "stream_error call e \<longleftrightarrow> isinstance_exn e AdapterError \<or> (\<exists>k \<in> {GeneratorExit, AsyncioCancelledError}. \<exists>m. e = raised k m) \<or>
     (\<exists>s. va_close call s = CloseFails e \<and> \<not> isinstance_exn e Exception)"

lemma read_then_finish:
  assumes "sid \<notin> set (om_active_streams m)"
    and answer: "normalize_chat_completion_stream js i (va_chunks call) (va_end call) = (answer, fin)"
    and read: "read_queue budget moves 0 (produce js i budget call) = (events, t, q)"
    and ends: "finish_stream call (if opened_by call budget t then [sid] else []) q
      (m\<lparr>om_active_streams := om_active_streams m @ (if opened_by call budget t then [sid] else [])\<rparr>) = (r, m')"
  shows "m' = m" and "list_all (\<lambda>(t, ev). t < budget) events" and "prefix (map snd events) (map snd answer)"
    and "r = Inr () \<Longrightarrow> map snd events = map snd answer \<and> snd fin = None \<and>
      released_in_time call m (fst (va_create call) \<le> fst fin)"
    and "r = Inl e \<Longrightarrow> stream_error call e"
proof -
  note finished = finish_stream_facts [OF assms(1) ends]
  note produced = produce_facts [where js = js and i = i and budget = budget and call = call, unfolded answer fst_conv snd_conv]
  note reading = read_queue_facts [OF read]
  show "m' = m" by (rule finished(1))
  show "list_all (\<lambda>(t, ev). t < budget) events" using reading by blast
  show "prefix (map snd events) (map snd answer)" using reading produced(1) by (metis prefix_order.order_trans)
  show "map snd events = map snd answer \<and> snd fin = None \<and> released_in_time call m (fst (va_create call) \<le> fst fin)"
    if "r = Inr ()"
  proof -
    from finished(2) [OF that] have q: "q = Drained" and rel: "released_in_time call m (opened_by call budget t)" by simp_all
    with reading have e: "map snd events = item_events (produce js i budget call)"
      "item_end (produce js i budget call) = Some Drained" by auto
    obtain put where "put \<le> t" "(put, StreamEnd) \<in> set (produce js i budget call)" using reading q by blast
    then have "fst (va_create call) \<le> fst fin \<Longrightarrow> opened_by call budget t"
      using produced(2) [OF e(2)] produced(4) by (auto simp: opened_by_def)
    with rel produced(2) [OF e(2)] e(1) show ?thesis by (auto simp: released_in_time_def)
  qed
  show "stream_error call e" if "r = Inl e"
    using finished(3) [OF that] reading produced(3) adapter_error_kind
    by (auto simp: cut_off_def stream_error_def adapter_error_def)
qed

lemma openai_stream_run:
  assumes "sid \<notin> set (om_active_streams m)"
    and "openai_stream js create sid now request moves task m = (events, (r, m'), task')"
  obtains payload answer fin where "request_payload js (om_default_model m) request = Inr payload"
    and "normalize_chat_completion_stream js openai_identity (va_chunks (create payload)) (va_end (create payload)) = (answer, fin)"
    and "m' = m" and "task' = task" and "list_all (\<lambda>(t, ev). t < attempt_timeout m now request) events"
    and "prefix (map snd events) (map snd answer)"
    and "r = Inr () \<Longrightarrow> map snd events = map snd answer \<and> snd fin = None \<and>
      released_in_time (create payload) m (fst (va_create (create payload)) \<le> fst fin)"
    and "\<And>e. r = Inl e \<Longrightarrow> stream_error (create payload) e"
proof -
  obtain payload where p: "request_payload js (om_default_model m) request = Inr payload" using request_payload_total by blast
  let ?call = "create payload" and ?b = "attempt_timeout m now request"
  obtain answer fin where a: "normalize_chat_completion_stream js openai_identity (va_chunks ?call) (va_end ?call) = (answer, fin)"
    by (rule prod.exhaust)
  show thesis
  proof (cases "moves = []")
    case True
    then have "events = []" "r = Inl (raised GeneratorExit [])" "m' = m" "task' = task"
      using assms(2) by (simp_all add: openai_stream_def)
    then show thesis by (intro that [OF p a]) (simp_all add: stream_error_def)
  next
    case False
    obtain evs t q where read: "read_queue ?b moves 0 (produce js openai_identity ?b ?call) = (evs, t, q)" by (metis prod_cases3)
    let ?o = "if opened_by ?call ?b t then [sid] else []"
    have "finish_stream ?call ?o q (m\<lparr>om_active_streams := om_active_streams m @ ?o\<rparr>) = (r, m')" and eq: "evs = events" "task' = task"
      using assms(2) False p read by (simp_all add: openai_stream_def Let_def await_keeps)
    note facts = read_then_finish [OF assms(1) a read this(1), unfolded eq(1)]
    show thesis by (rule that [OF p a facts(1) eq(2) facts(2,3)]) (fact facts(4), fact facts(5))
  qed
qed


section \<open>A concrete stream\<close>

definition demo_chunk :: "string option \<Rightarrow> tool_delta list \<Rightarrow> string option \<Rightarrow> vendor_chunk" where
  "demo_chunk content deltas reason =
     \<lparr>ck_choices = [\<lparr>vc_delta = Some \<lparr>vd_content = content, vd_tool_calls = deltas\<rparr>, vc_finish_reason = reason\<rparr>], ck_usage = None\<rparr>"

definition demo_vendor :: "pyobj \<Rightarrow> vendor_call" where
  "demo_vendor payload =
     \<lparr>va_create = (1, None),
      va_chunks = [(2, demo_chunk (Some ''Hi'') [] None), (3, demo_chunk None [first_delta 0 (demo_calls ! 1) ''{}''] (Some ''tool_calls''))],
      va_end = (4, None), va_close = (\<lambda>_. Closes), va_producer_ends = (\<lambda>_. True)\<rparr>"

definition demo_adapter :: openai_model where
  "demo_adapter = \<lparr>om_timeout = 60, om_owns_client = False, om_default_model = None, om_active_streams = [7]\<rparr>"

definition demo_model_request :: model_request where
  "demo_model_request =
     \<lparr>mr_messages = [plain_message USER (Some ''hello'')], mr_tools = [],
      mr_model = \<lparr>mc_model = ''m'', mc_temperature = None, mc_extra = []\<rparr>, mr_tool_choice = \<lparr>tch_mode = AUTO, tch_name = None\<rparr>,
      mr_recovery = default_recovery_budget, mr_deadline_monotonic = Some 130\<rparr>"

definition demo_answer :: "(rat \<times> runtime_event) list" where
  "demo_answer =
     [(2, TextDeltaEvent openai_identity ''Hi'' 1 None),
      (4, ModelCompleted openai_identity
        \<lparr>mres_text = Some ''Hi'', mres_reasoning = None, mres_tool_calls = [demo_calls ! 1], mres_usage = ch_usage new_chat,
         mres_finish_reason = Some ''tool_calls'', mres_attempt = 1\<rparr> None)]"

lemma demo_stream_run:
  "openai_stream demo_js demo_vendor 8 100 demo_model_request (replicate 3 (0, None)) (Some 1) demo_adapter =
     (demo_answer, (Inr (), demo_adapter), Some 1)"
  by code_simp


end
