(* ===== verification/Openai_Patience.thy ===== *)
theory Openai_Patience imports Openai_Stream begin

text \<open>
  The vendor adapter with a patient consumer, one that always waits for the next event: what it gets and
  when the stream ends well, as equations.
\<close>

section \<open>Chronological streams\<close>

text \<open>The vendor's stream is chronological: its call returns, then its chunks arrive, then it ends.\<close>

definition chronological :: "vendor_call \<Rightarrow> bool" where
  "chronological call \<longleftrightarrow> sorted (0 # fst (va_create call) # map fst (va_chunks call) @ [fst (va_end call)])"

lemma sorted_same: "sorted (map (\<lambda>x. t) xs)" for t :: "'a :: linorder"
  by (induction xs) auto

lemma normalize_from_sorted:
  assumes "sorted (lo # map fst chunks @ [t])" and "normalize_from js i chunks (t, failure) s = (events, fin)"
  shows "sorted (lo # map fst events @ [t]) \<and> fst fin = t"
  using assms
proof (induction chunks arbitrary: lo s events)
  case Nil
  then show ?case
    by (cases failure) (auto simp: sorted_append sorted_same comp_def split: prod.splits)
next
  case (Cons c chunks)
  obtain t0 chunk where c: "c = (t0, chunk)" by (cases c)
  obtain later where rest: "normalize_from js i chunks (t, failure) (snd (chat_chunk i chunk s)) = (later, fin)"
    and events: "events = map (\<lambda>ev. (t0, ev)) (fst (chat_chunk i chunk s)) @ later"
    using Cons.prems(2) by (auto simp: c split: prod.splits)
  have "sorted (t0 # map fst chunks @ [t])" "lo \<le> t0" using Cons.prems(1) by (auto simp: c)
  then show ?case
    using Cons.IH [OF _ rest, of t0] by (auto simp: events sorted_append sorted_same comp_def)
qed

lemma answer_sorted:
  assumes "chronological call"
    and "normalize_chat_completion_stream js i (va_chunks call) (va_end call) = (answer, fin)"
  shows "sorted (0 # fst (va_create call) # map fst answer @ [fst fin])"
  using assms normalize_from_sorted [of "fst (va_create call)" "va_chunks call" "fst (va_end call)" js i "snd (va_end call)" new_chat answer fin]
  by (auto simp: chronological_def normalize_chat_completion_stream_def)

section \<open>Reading without a break\<close>

abbreviation patient :: "nat \<Rightarrow> pull list" where
  "patient k \<equiv> replicate k (0, None)"

lemma read_events:
  assumes "sorted (now # map fst evs)" and "list_all (\<lambda>(t, ev). t < deadline) evs" and "length evs \<le> k"
  shows "read_queue deadline (patient k) now (put_events evs @ items) =
    (case read_queue deadline (patient (k - length evs)) (last (now # map fst evs)) items of
       (others, rest) \<Rightarrow> (evs @ others, rest))"
  using assms
proof (induction evs arbitrary: now k)
  case Nil
  then show ?case by (simp add: put_events_def)
next
  case (Cons x evs)
  obtain t ev where x: "x = (t, ev)" by (cases x)
  obtain k' where k: "k = Suc k'" using Cons.prems(3) by (cases k) auto
  have t: "now \<le> t" "t < deadline" "max now t = t" using Cons.prems by (auto simp: x)
  then have "read_queue deadline (patient k) now (put_events (x # evs) @ items) =
      (case read_queue deadline (patient k') t (put_events evs @ items) of (evs', rest) \<Rightarrow> ((t, ev) # evs', rest))"
    by (simp add: k x put_events_def Let_def)
  then show ?case
    using Cons.IH [of t k'] Cons.prems by (simp add: x k split: prod.split)
qed

lemma read_end:
  assumes "now \<le> t" and "0 < k" and "t < deadline"
  shows "read_queue deadline (patient k) now (last_item (t, failure)) =
    (case failure of
       None \<Rightarrow> ([], t, Drained)
     | Some e \<Rightarrow> if isinstance_exn e Exception then ([], t, Failing e) else ([], deadline, Failing (raised TimeoutError [])))"
  using assms by (cases k) (auto simp: last_item_def Let_def max_def split: option.split)

lemma read_timeout:
  assumes "0 < k"
  shows "\<exists>t m. read_queue deadline (patient k) now [(deadline, item)] = ([], t, Failing (raised TimeoutError m))"
  using assms by (cases k) (auto simp: Let_def)

text \<open>What is read from the queue of the producer.\<close>

lemma read_produced:
  fixes answer :: "(rat \<times> runtime_event) list"
  assumes "snd (va_create call) = None" and "chronological call" and "length answer < k"
    and norm: "normalize_chat_completion_stream js i (va_chunks call) (va_end call) = (answer, fin)"
    and read: "read_queue budget (patient k) 0 (produce js i budget call) = (events, t, r)"
  shows "events = takeWhile (\<lambda>(t, ev). t < budget) answer \<and> (r = Drained \<longleftrightarrow> fst fin < budget \<and> snd fin = None) \<and>
    (r = Drained \<longrightarrow> opened_by call budget t)"
proof -
  note sorted = answer_sorted [OF assms(2) norm]
  let ?evs = "takeWhile (\<lambda>(t, ev). t < budget) answer"
  have len: "length ?evs < k" using assms(3) length_takeWhile_le le_less_trans by blast
  have early: "list_all (\<lambda>(t, ev). t < budget) ?evs" by (auto simp: list_all_iff dest: set_takeWhileD)
  have "sorted (map fst answer)" using sorted by (simp add: sorted_append)
  moreover obtain later where "answer = ?evs @ later" using takeWhile_dropWhile_id by metis
  ultimately have "sorted (map fst ?evs)" by (metis map_append sorted_append)
  then have run: "sorted (0 # map fst ?evs)" using sorted by (auto dest!: set_takeWhileD)
  have timeout: ?thesis if "budget \<le> fst fin" "produce js i budget call = put_events ?evs @ [(budget, Failed (raised TimeoutError []))]"
  proof -
    obtain u m where "read_queue budget (patient (k - length ?evs)) (last (0 # map fst ?evs)) [(budget, Failed (raised TimeoutError []))] =
        ([], u, Failing (raised TimeoutError m))"
      using read_timeout [of "k - length ?evs"] len by (metis zero_less_diff)
    then show ?thesis using read that read_events [OF run early less_imp_le [OF len], of "[(budget, Failed (raised TimeoutError []))]"] by auto
  qed
  show ?thesis
  proof (cases "budget \<le> fst fin")
    case True
    show ?thesis
    proof (cases "budget \<le> fst (va_create call)")
      case False
      then show ?thesis by (intro timeout) (use True assms(1) norm in \<open>simp_all add: produce_def last_item_def Let_def\<close>)
    next
      case late: True
      have "?evs = []" using sorted late by (cases answer) auto
      then show ?thesis by (intro timeout) (use True late in \<open>simp_all add: produce_def last_item_def put_events_def Let_def\<close>)
    qed
  next
    case False
    have all: "?evs = answer" using sorted False by (auto simp: takeWhile_eq_all_conv sorted_append)
    have created: "fst (va_create call) \<le> fst fin" "last (0 # map fst answer) \<le> fst fin"
      using sorted by (auto simp: sorted_append last_map)
    then have "produce js i budget call = put_events answer @ last_item (fst fin, snd fin)"
      using False assms(1) norm by (simp add: produce_def Let_def)
    moreover have "0 < k - length answer" "fst fin < budget" using assms(3) False by simp_all
    note read_end [OF created(2) this, of "snd fin"]
    ultimately show ?thesis
      using read read_events [OF run early less_imp_le [OF len], unfolded all, of "last_item (fst fin, snd fin)"] False created assms(1)
      by (auto simp: all opened_by_def split: option.splits if_splits)
  qed
qed

section \<open>What the patient consumer gets\<close>

lemma finish_stream_drained:
  assumes "sid \<notin> set (om_active_streams m)"
  shows "fst (finish_stream call [sid] q (m\<lparr>om_active_streams := om_active_streams m @ [sid]\<rparr>)) = Inr () \<longleftrightarrow>
    q = Drained \<and> released_in_time call m True"
  by (cases q)
    (auto simp: finish_stream_def release_producer_def Let_def released_in_time_def split: sum.splits prod.splits if_splits)

text \<open>C21: A consumer that always waits for the next event gets exactly the events that the vendor's answer has before
the deadline of the attempt, each at the moment the vendor sends it; and its stream ends normally
exactly when the answer ended before the deadline without an error and producer and stream were
released in time.  So nothing is withheld, reordered or delayed, and no complete answer is turned into
a failure.\<close>

theorem patient_consumer_gets_the_answer:
  assumes "sid \<notin> set (om_active_streams m)" and "request_payload js (om_default_model m) request = Inr payload"
    and "snd (va_create (create payload)) = None" and "chronological (create payload)"
    and "normalize_chat_completion_stream js openai_identity (va_chunks (create payload)) (va_end (create payload)) = (answer, fin)"
    and "length answer < k"
  shows "case openai_stream js create sid now request (patient k) task m of (events, (r, m'), task') \<Rightarrow>
    events = takeWhile (\<lambda>(t, ev). t < attempt_timeout m now request) answer \<and> m' = m \<and> task' = task \<and>
    (r = Inr () \<longleftrightarrow> fst fin < attempt_timeout m now request \<and> snd fin = None \<and> released_in_time (create payload) m True)"
proof -
  let ?b = "attempt_timeout m now request" and ?call = "create payload"
  obtain events t q where read: "read_queue ?b (patient k) 0 (produce js openai_identity ?b ?call) = (events, t, q)"
    by (metis prod_cases3)
  let ?o = "if opened_by ?call ?b t then [sid] else []"
  obtain r m' where fin: "finish_stream ?call ?o q (m\<lparr>om_active_streams := om_active_streams m @ ?o\<rparr>) = (r, m')"
    by (rule prod.exhaust)
  have "openai_stream js create sid now request (patient k) task m = (events, (r, m'), task)"
    using assms(2,6) read fin by (simp add: openai_stream_def Let_def await_keeps)
  moreover note produced = read_produced [OF assms(3,4,6,5) read]
  moreover note ends = finish_stream_facts [OF assms(1) fin] finish_stream_drained [OF assms(1), of ?call q]
  ultimately show ?thesis using fin by (cases "q = Drained") auto
qed

theorem patient_consumer_gets_the_answer_witness:
  "case openai_stream demo_js demo_vendor 8 100 demo_model_request (patient 3) (Some 1) demo_adapter of (events, (r, m'), task') \<Rightarrow>
     events = demo_answer \<and> r = Inr ()"
proof -
  obtain payload where p: "request_payload demo_js (om_default_model demo_adapter) demo_model_request = Inr payload"
    using request_payload_total by blast
  have n: "normalize_chat_completion_stream demo_js openai_identity (va_chunks (demo_vendor payload)) (va_end (demo_vendor payload)) =
      (demo_answer, (4, None))"
    unfolding demo_vendor_def vendor_call.simps by code_simp
  have "attempt_timeout demo_adapter 100 demo_model_request = 30" by code_simp
  moreover have "8 \<notin> set (om_active_streams demo_adapter)" by (simp add: demo_adapter_def)
  moreover have "snd (va_create (demo_vendor payload)) = None" "chronological (demo_vendor payload)"
    "released_in_time (demo_vendor payload) demo_adapter True"
    by (simp_all add: demo_vendor_def chronological_def released_in_time_def release_within_def)
  moreover have "length demo_answer < 3" "takeWhile (\<lambda>(t, ev). t < 30) demo_answer = demo_answer" by (simp_all add: demo_answer_def)
  ultimately show ?thesis
    using patient_consumer_gets_the_answer [where create = demo_vendor, OF _ p _ _ n, of 8 3 100 "Some 1"] by (auto split: prod.splits)
qed

end
