(* ===== verification/Model_Port.thy ===== *)
theory Model_Port imports Model_Facts begin

text \<open>
  The contract of the vendor port, \<^verbatim>\<open>LowLevelModel\<close> of \<^verbatim>\<open>ports.py\<close>, as a locale, and what its clients get
  from it: the model pipeline raises no protocol error, and a summary is the text that was streamed.
\<close>

section \<open>The exceptions of a generator\<close>

text \<open>What a consumer that pulls to the end can see raised.\<close>

primrec errors :: "(exn \<Rightarrow> bool) \<Rightarrow> 'a gen \<Rightarrow> bool" where
  "errors E (Ret a) \<longleftrightarrow> True"
| "errors E (Raise e) \<longleftrightarrow> E e"
| "errors E (Yield ev g c) \<longleftrightarrow> errors E g"
| "errors E (Step u n) \<longleftrightarrow> (\<forall>s. errors E (n s))"

named_theorems errors_rules

lemma errors_drain: "errors E g \<Longrightarrow> drain g s = (es, Inl e, s') \<Longrightarrow> E e"
proof (induction g arbitrary: s es)
  case (Step u n)
  then show ?case using Step.IH [of "n s" "u s" es] by simp
qed (auto split: prod.splits)

lemma errors_any: "(\<And>e. E e) \<Longrightarrow> errors E g"
  by (induction g) auto

lemma errors_mono: "errors E g \<Longrightarrow> (\<And>e. E e \<Longrightarrow> F e) \<Longrightarrow> errors F g"
  by (induction g) auto

lemma errors_gbind [errors_rules]: "errors E g \<Longrightarrow> (\<And>a. errors E (k a)) \<Longrightarrow> errors E (gbind g k)"
  by (induction g) auto

lemma errors_gcatch: "errors E g \<Longrightarrow> (\<And>e. E e \<Longrightarrow> errors F (h e)) \<Longrightarrow> errors F (gcatch g h)"
  by (induction g) auto

lemma errors_gfinally [errors_rules]: "errors E g \<Longrightarrow> errors E f \<Longrightarrow> errors E (gfinally g f)"
  by (induction g) (auto intro: errors_gbind)

lemma errors_act [errors_rules]: "(\<And>s e. fst (f s) = Inl e \<Longrightarrow> E e) \<Longrightarrow> errors E (act f)"
  by (auto simp: act_def split: sum.split)

lemma errors_small [errors_rules]: "errors E (effect u)" "errors E (reading f)" "errors E (yield ev)"
  by (simp_all add: effect_def reading_def yield_def)

lemma errors_each_until:
  assumes "errors F g" and "\<And>ev c. errors E (b ev c)" and "\<And>c. errors E (fin c)" and "\<And>e c. F e \<Longrightarrow> errors E (err e c)"
  shows "errors E (each_until g b fin err c)"
  using assms(1)
proof (induction g arbitrary: c)
  case (Yield ev g q)
  then show ?case by (auto intro!: errors_gbind assms(2) split: turn.split)
qed (auto intro: assms)

section \<open>Errors that are no protocol errors\<close>

abbreviation orderly :: "exn \<Rightarrow> bool" where
  "orderly e \<equiv> \<not> isinstance_exn e ProtocolError"

lemma errors_wait [errors_rules]: "errors orderly (act (wait_for env idle))"
  by (rule errors_act) (auto simp: wait_for_def Let_def split: if_splits option.splits)

lemma errors_stopped [errors_rules]: "errors orderly (act raise_if_stopped)"
  by (rule errors_act) (auto simp: raise_if_stopped_def split: option.splits)

lemma errors_sleep [errors_rules]: "errors orderly (act (sleep_cancellable env d))"
  by (rule errors_act) (auto simp: sleep_cancellable_def raise_if_stopped_def split: if_splits option.splits)

lemma errors_reserve [errors_rules]: "errors orderly (act (reserve_tokens n))"
  by (rule errors_act) (auto simp: reserve_tokens_def reserve_def split: if_splits option.splits)

lemma errors_abandon: "E e \<Longrightarrow> errors E (abandon c e)"
  unfolding abandon_def by (rule errors_gcatch [OF errors_any [of "\<lambda>_. True"]]) simp_all

lemma fst_andthen_Inl: "fst (andthen r k) = Inl e \<Longrightarrow> fst r = Inl e \<or> (\<exists>a s. r = (Inr a, s) \<and> fst (k a s) = Inl e)"
  by (cases r; cases "fst r") auto

definition keeps_order :: "(transcript \<Rightarrow> (exn, 'a, transcript) outcome) \<Rightarrow> bool" where
  "keeps_order f \<longleftrightarrow> (\<forall>t e. fst (f t) = Inl e \<longrightarrow> orderly e)"

lemma errors_recording: "keeps_order f \<Longrightarrow> errors orderly (recording env f)"
  unfolding recording_def
  by (intro errors_gbind errors_wait errors_act) (auto simp: on_transcript_def keeps_order_def)

lemma orderly_parts:
  "fst (check_fail op t) = Inl e \<Longrightarrow> orderly e"
  "replay op k p r sn tg pr t = Inl e \<Longrightarrow> orderly e"
  "fst (append_message target m t) = Inl e \<Longrightarrow> orderly e"
  "fst (replace_message m t) = Inl e \<Longrightarrow> orderly e"
  by (auto simp: check_fail_def replay_def append_message_def replace_message_def Let_def split: if_splits option.splits)

lemma orderly_again: "replay op k p r sn tg pr t = q \<Longrightarrow> fst (again_message q t') = Inl e \<Longrightarrow> orderly e"
  by (auto simp: again_message_def split: sum.splits option.splits dest: orderly_parts(2))

lemma orderly_upsert: "fst (upsert_text key target fresh revise t) = Inl e \<Longrightarrow> orderly e"
  by (auto simp: upsert_text_def Let_def split: option.splits prod.splits dest!: fst_andthen_Inl orderly_parts)

lemma orderly_delta: "keeps_order (record_text_delta run_id step_no target body op attempt previous)"
  unfolding keeps_order_def record_text_delta_def Let_def
  by (auto split: if_splits option.splits prod.splits dest!: fst_andthen_Inl orderly_parts(1) orderly_again [OF refl] orderly_upsert)

lemma orderly_final: "keeps_order (record_text_final run_id step_no target body reasoning calls op attempt previous)"
  unfolding keeps_order_def record_text_final_def Let_def
  by (auto split: if_splits option.splits prod.splits dest!: fst_andthen_Inl orderly_parts(1) orderly_again [OF refl] orderly_upsert)

section \<open>The contract\<close>

fun is_text :: "runtime_event \<Rightarrow> bool" where
  "is_text (TextDeltaEvent _ _ _ _) = True"
| "is_text _ = False"

fun event_text :: "runtime_event \<Rightarrow> string" where
  "event_text (TextDeltaEvent _ body _ _) = body"
| "event_text _ = []"

definition streamed_text :: "runtime_event list \<Rightarrow> string" where
  "streamed_text events = concat (map event_text events)"

text \<open>The last events of a stream: nothing, or one completion that counts and has the text of the deltas.\<close>

definition model_end :: "string \<Rightarrow> runtime_event list \<Rightarrow> bool" where
  "model_end body ends \<longleftrightarrow>
     ends = [] \<or> (\<exists>i result m. ends = [ModelCompleted i result m] \<and> is_effective result \<and>
       mres_text result = (if body = [] then None else Some body))"

definition model_events :: "runtime_event list \<Rightarrow> bool" where
  "model_events events \<longleftrightarrow> (\<exists>deltas ends. events = deltas @ ends \<and> list_all is_text deltas \<and> model_end (streamed_text deltas) ends)"

lemma model_eventsI: "list_all is_text deltas \<Longrightarrow> model_end (streamed_text deltas) ends \<Longrightarrow> model_events (deltas @ ends)"
  by (auto simp: model_events_def)

definition vendor_error :: "exn \<Rightarrow> bool" where
  "vendor_error e \<longleftrightarrow> isinstance_exn e AdapterError \<or> \<not> isinstance_exn e Exception"

lemma vendor_error_orderly: "vendor_error e \<Longrightarrow> orderly e"
  by (cases "exn_kind e") (auto simp: vendor_error_def isinstance_exn_def)

locale low_level_port =
  fixes lm :: low_level_model
  assumes events: "model_events (fst (lm n request))"
    and failure: "snd (lm n request) = Some e \<Longrightarrow> vendor_error e"
begin

lemma summary_events_texts:
  "list_all is_text deltas \<Longrightarrow> summary_events (deltas @ ends) final parts =
     summary_events ends final (parts @ map event_text deltas)"
proof (induction deltas arbitrary: parts)
  case (Cons ev deltas)
  then show ?case by (cases ev) simp_all
qed simp

text \<open>A summary through the port is the stripped text of the stream.\<close>

lemma summary_is_streamed_text:
  "case model_summarize (lm n) fl config instruction ms budget of
     Inr body \<Rightarrow> body = py_strip (streamed_text (fst (lm n (summary_request fl config instruction ms)))) \<and> body \<noteq> []
   | Inl e \<Rightarrow> vendor_error e \<or> exn_kind e = ContextBudgetError"
proof -
  let ?r = "summary_request fl config instruction ms"
  obtain deltas ends where split: "fst (lm n ?r) = deltas @ ends" "list_all is_text deltas" "model_end (streamed_text deltas) ends"
    using events [of n ?r] by (auto simp: model_events_def)
  have found: "(case fst (summary_events (fst (lm n ?r)) None []) of
      Some f \<Rightarrow> if f \<noteq> [] then f else concat (snd (summary_events (fst (lm n ?r)) None []))
    | None \<Rightarrow> concat (snd (summary_events (fst (lm n ?r)) None []))) = streamed_text (fst (lm n ?r))"
    using split(3) unfolding split(1) summary_events_texts [OF split(2)]
    by (auto simp: model_end_def streamed_text_def)
  show ?thesis
  proof (cases "lm n ?r")
    case (Pair es r)
    then show ?thesis
      using found [unfolded Pair fst_conv] failure [of n ?r]
      by (cases r) (simp_all add: model_summarize_def Let_def case_prod_beta)
  qed
qed

end

section \<open>A model step over the contract\<close>

lemma errors_low_event: "at_pending c = None \<Longrightarrow> is_text ev \<or> is_model_completed ev \<Longrightarrow> errors orderly (low_event env step attempt ev c)"
  by (cases ev) (auto simp: low_event_def Let_def intro!: errors_rules errors_recording orderly_delta)

lemma low_event_text:
  "is_text ev \<Longrightarrow> at_pending c = None \<Longrightarrow>
     results (\<lambda>t. case t of Go c \<Rightarrow> at_pending c = None | Leave r \<Rightarrow> False) (low_event env step attempt ev c)"
  by (cases ev) (auto simp: low_event_def Let_def intro!: results_rules)

lemma errors_results_gbind:
  "errors E g \<Longrightarrow> results Q g \<Longrightarrow> (\<And>a. Q a \<Longrightarrow> errors E (k a)) \<Longrightarrow> errors E (gbind g k)"
  by (induction g) auto

lemma errors_failed_attempt: "orderly e \<Longrightarrow> errors orderly (failed_attempt step e c)"
  by (auto simp: failed_attempt_def)

text \<open>The loop of an attempt over the rest of a stream, waits included.\<close>

lemma errors_each_until_silent:
  "all_events (\<lambda>_. False) w \<Longrightarrow> errors F w \<Longrightarrow> (\<And>e. F e \<Longrightarrow> errors E (err e c)) \<Longrightarrow>
     (\<And>a. errors E (each_until (k a) b fin err c)) \<Longrightarrow> errors E (each_until (gbind w k) b fin err c)"
  by (induction w) auto

lemma errors_pulled:
  assumes "\<And>c. errors orderly (fin c)" and "errors orderly (each_until g b fin (failed_attempt step) c)"
  shows "errors orderly (each_until (gbind (act (wait_for env idle)) (\<lambda>_. g)) b fin (failed_attempt step) c)"
  by (rule errors_each_until_silent [OF _ errors_wait]) (use assms in \<open>auto intro: errors_failed_attempt simp: all_events_small\<close>)

lemma gcatch_Raise: "gcatch g Raise = g"
  by (induction g) simp_all

lemma pulled_event:
  "pulls env idle (of_events (ev # evs) failure) =
     Yield ev (gbind (act (wait_for env idle)) (\<lambda>_. pulls env idle (of_events evs failure))) (Raise (raised GeneratorExit []))"
  by (simp add: abandon_def gcatch_Raise)

lemma low_event_completed:
  "at_pending c = None \<Longrightarrow> \<exists>c'. low_event env step attempt (ModelCompleted i result m) c = Ret (Go c')"
  by (simp add: low_event_def Let_def)

lemma errors_attempt_rest:
  assumes "list_all is_text deltas" and "model_end body ends" and "\<And>e. failure = Some e \<Longrightarrow> vendor_error e"
    and fin: "\<And>c. errors orderly (fin c)" and "at_pending c = None"
  shows "errors orderly (each_until (pulls env idle (of_events (deltas @ ends) failure)) (low_event env step attempt)
    fin (failed_attempt step) c)"
  using assms(1,5)
proof (induction deltas arbitrary: c)
  case Nil
  have stop: "errors orderly (each_until (pulls env idle (of_events [] failure)) (low_event env step attempt) fin (failed_attempt step) c)" for c
    using assms(3) fin by (cases failure) (auto intro: errors_failed_attempt [OF vendor_error_orderly])
  show ?case
  proof (cases ends)
    case (Cons ev evs)
    then obtain i result m where ev: "ends = [ModelCompleted i result m]" using assms(2) by (auto simp: model_end_def)
    obtain c' where "low_event env step attempt (ModelCompleted i result m) c = Ret (Go c')"
      using low_event_completed Nil.prems by blast
    then show ?thesis
      unfolding ev append_Nil pulled_event by (simp add: errors_pulled [OF fin] stop del: pulls.simps of_events.simps)
  qed (simp add: stop del: pulls.simps of_events.simps)
next
  case (Cons ev deltas)
  have rest: "errors orderly (each_until (gbind (act (wait_for env idle)) (\<lambda>_. pulls env idle (of_events (deltas @ ends) failure)))
      (low_event env step attempt) fin (failed_attempt step) c)" if "at_pending c = None" for c
    by (rule errors_pulled [OF fin]) (use Cons that in auto)
  show ?case
    unfolding append_Cons pulled_event each_until.simps
    by (rule errors_results_gbind [OF errors_low_event low_event_text])
      (use Cons.prems in \<open>auto intro: rest split: turn.splits\<close>)
qed

lemma errors_reading: "(\<And>s. errors E (k (f s))) \<Longrightarrow> errors E (gbind (reading f) k)"
  by (simp add: reading_def)

lemma errors_attempt_events:
  assumes "low_level_port lm"
  shows "errors orderly (attempt_events env idle lm step attempt)"
  unfolding attempt_events_def iterate_cancellable_def
proof (rule errors_reading)
  fix s
  obtain events failure where call: "lm (rs_clock s) (ps_request step) = (events, failure)" by (rule prod.exhaust)
  obtain deltas ends where split: "events = deltas @ ends" "list_all is_text deltas" "model_end (streamed_text deltas) ends"
    using low_level_port.events [OF assms, of "rs_clock s" "ps_request step"] call by (auto simp: model_events_def)
  have "failure = Some e \<Longrightarrow> vendor_error e" for e
    using low_level_port.failure [OF assms, of "rs_clock s" "ps_request step"] call by simp
  then show "errors orderly (case lm (rs_clock s) (ps_request step) of (events, failure) \<Rightarrow>
      each_until (gbind (act (wait_for env idle)) (\<lambda>_. pulls env idle (of_events events failure))) (low_event env step attempt)
        (\<lambda>c. Ret (map_option (Pair (at_previous c)) (at_pending c))) (failed_attempt step) attempt_start)"
    unfolding call prod.case split(1)
    by (intro errors_pulled errors_attempt_rest [OF split(2,3)]) (simp_all add: attempt_start_def)
qed

lemma errors_run_attempt:
  assumes "low_level_port lm"
  shows "errors orderly (run_attempt env idle lm step attempt)"
  unfolding run_attempt_def
  by (rule errors_gbind [OF errors_attempt_events [OF assms]])
    (auto simp: record_final_def Let_def intro!: errors_rules errors_recording orderly_final split: option.split)

lemma errors_one_attempt:
  assumes "low_level_port lm"
  shows "errors orderly (one_attempt env idle lm step attempt)"
  unfolding one_attempt_def
  by (intro errors_gbind errors_gfinally errors_small errors_each_until [OF errors_run_attempt [OF assms]])
    (auto simp: retry_error_def)

lemma errors_attempt_loop:
  "low_level_port lm \<Longrightarrow> errors orderly (attempt_loop env idle lm step left attempt last_error)"
  by (induction left arbitrary: attempt last_error)
    (auto intro!: errors_rules errors_one_attempt)

text \<open>Over the contract a model step raises no protocol error.\<close>

lemma errors_model_stream: "low_level_port lm \<Longrightarrow> errors orderly (model_stream env idle lm step)"
  by (auto simp: model_stream_def Let_def intro: errors_attempt_loop)

end
