(* ===== verification/Openai_Port.thy ===== *)
theory Openai_Port imports Model_Port Openai_Stream begin

text \<open>
  The vendor adapter as the \<open>LowLevelModel\<close> of the runtime: it keeps the contract of the port, so a model
  step and a summary that run over it get what the port's clients are promised.
\<close>

section \<open>The adapter as a port\<close>

text \<open>A number that no open stream has.\<close>

definition fresh_stream :: "openai_model \<Rightarrow> nat" where
  "fresh_stream m = Suc (foldr max (om_active_streams m) 0)"

text \<open>The \<open>n\<close>-th call: the vendor, the time and the consumer may differ from call to call.\<close>

definition openai_low_level :: "json_module \<Rightarrow> (nat \<Rightarrow> pyobj \<Rightarrow> vendor_call) \<Rightarrow> (nat \<Rightarrow> rat) \<Rightarrow> (nat \<Rightarrow> pull list) \<Rightarrow>
    openai_model \<Rightarrow> low_level_model" where
  "openai_low_level js create now moves m n request =
     (case openai_stream js (create n) (fresh_stream m) (now n) request (moves n) None m of
        (events, (r, _), _) \<Rightarrow> (map snd events, case r of Inl e \<Rightarrow> Some e | Inr _ \<Rightarrow> None))"

lemma fresh_stream: "fresh_stream m \<notin> set (om_active_streams m)"
proof -
  have "x \<in> set xs \<Longrightarrow> x \<le> foldr max xs 0" for x and xs :: "nat list" by (induction xs) auto
  then show ?thesis by (fastforce simp: fresh_stream_def)
qed

lemma text_events_texts: "list_all is_text (text_events i chunks)" "streamed_text (text_events i chunks) = concat (map chunk_text chunks)"
proof -
  show "list_all is_text (text_events i chunks)" by (simp add: text_events_def list_all_iff)
  show "streamed_text (text_events i chunks) = concat (map chunk_text chunks)"
    by (induction chunks) (simp_all add: text_events_def streamed_text_def)
qed

lemma model_events_prefix:
  assumes "model_events answer" and "prefix events answer"
  shows "model_events events"
proof -
  obtain deltas ends where a: "answer = deltas @ ends" "list_all is_text deltas" "model_end (streamed_text deltas) ends"
    using assms(1) by (auto simp: model_events_def)
  from assms(2) [unfolded a(1) prefix_append] show ?thesis
  proof
    assume "prefix events deltas"
    then have "list_all is_text events" using a(2) by (auto simp: prefix_def)
    then show ?thesis using model_eventsI [of events "[]"] by (simp add: model_end_def)
  next
    assume "\<exists>us. events = deltas @ us \<and> prefix us ends"
    then obtain us where us: "events = deltas @ us" "prefix us ends" by blast
    then have "us = [] \<or> us = ends" using a(3) by (auto simp: model_end_def prefix_Cons)
    then have "model_end (streamed_text deltas) us" using a(3) by (auto simp: model_end_def)
    then show ?thesis unfolding us(1) by (rule model_eventsI [OF a(2)])
  qed
qed

lemma normalized_model_events: "model_events (map snd (fst (normalize_chat_completion_stream js i chunks fin)))"
proof -
  obtain t failure where fin: "fin = (t, failure)" by (cases fin)
  obtain events t' r where n: "normalize_from js i chunks (t, failure) new_chat = (events, (t', r))" by (metis prod_cases3)
  from normalize_from_shape [OF n] obtain s where s: "concat (ch_text_parts s) = concat (map (chunk_text \<circ> snd) chunks)"
      "map snd events = text_events i (map snd chunks) @ (if failure = None then fst (chat_end js i s) else [])"
    by (auto simp: new_chat_def)
  have "model_end (streamed_text (text_events i (map snd chunks))) (if failure = None then fst (chat_end js i s) else [])"
    using s(1) by (auto simp: chat_end_def model_end_def text_events_texts Let_def split: sum.split)
  then show ?thesis
    using model_eventsI [OF text_events_texts(1)] by (simp add: normalize_chat_completion_stream_def fin n s(2))
qed

interpretation oa: low_level_port "openai_low_level js create now moves m" for js create now moves m
proof
  fix n request
  obtain events r m' task where run: "openai_stream js (create n) (fresh_stream m) (now n) request (moves n) None m = (events, (r, m'), task)"
    by (metis prod_cases4 prod.collapse)
  then have low: "openai_low_level js create now moves m n request = (map snd events, case r of Inl e \<Rightarrow> Some e | Inr _ \<Rightarrow> None)"
    by (simp add: openai_low_level_def)
  obtain payload answer fin where p:
    "normalize_chat_completion_stream js openai_identity (va_chunks (create n payload)) (va_end (create n payload)) = (answer, fin)"
    "prefix (map snd events) (map snd answer)" and e: "\<And>e. r = Inl e \<Longrightarrow> stream_error (create n payload) e"
    by (rule openai_stream_run [OF fresh_stream run]) (rule that)
  show "model_events (fst (openai_low_level js create now moves m n request))"
    using model_events_prefix [OF _ p(2)] normalized_model_events p(1) low by (metis fst_conv)
  show "vendor_error e" if "snd (openai_low_level js create now moves m n request) = Some e" for e
    using that e by (cases r) (auto simp: low stream_error_def vendor_error_def)
qed

text \<open>C23: A model step over the vendor adapter never fails with a protocol error: whatever the vendor sends and
whenever, and however the host interferes, a step that does not end normally was stopped, ran out of
its budget, could not be recorded, or failed with the adapter's own error; the errors for
unsupported, trailing and duplicate events cannot occur.\<close>

theorem adapter_step_keeps_protocol:
  "case fst (snd (drain (model_stream env idle (openai_low_level js create now moves m) step) s)) of
     Inl e \<Rightarrow> \<not> isinstance_exn e ProtocolError
   | Inr _ \<Rightarrow> True"
proof -
  obtain es r s' where run: "drain (model_stream env idle (openai_low_level js create now moves m) step) s = (es, r, s')"
    by (metis prod_cases3)
  then show ?thesis
    using errors_drain [OF errors_model_stream [OF oa.low_level_port_axioms]] by (auto split: sum.split)
qed

text \<open>A summary that the vendor writes through the adapter is exactly the text it streamed, without the
blanks around it and never empty; otherwise the summary fails with the adapter's error, with the
budget error for a blank answer, or with an exception that is none of the program's errors.\<close>

theorem adapter_summary_is_streamed_text:
  "let stream = openai_low_level js create now moves m n in
   case model_summarize stream fl config instruction ms budget of
     Inr body \<Rightarrow> body = py_strip (streamed_text (fst (stream (summary_request fl config instruction ms)))) \<and> body \<noteq> []
   | Inl e \<Rightarrow> vendor_error e \<or> exn_kind e = ContextBudgetError"
  unfolding Let_def by (rule oa.summary_is_streamed_text)

end
