(* ===== verification/Streamed_Text.thy ===== *)
theory Streamed_Text imports Openai_Port begin

text \<open>
  What a consumer saw of a model's text and what the step ends with: over a model that keeps the contract of
  \<^verbatim>\<open>LowLevelModel\<close> the deltas of the attempt that succeeded spell the text of the one result.
\<close>

section \<open>The text of an attempt\<close>

fun text_of_attempt :: "int \<Rightarrow> runtime_event \<Rightarrow> string" where
  "text_of_attempt a (TextDeltaEvent _ body a' _) = (if a' = a then body else [])"
| "text_of_attempt a _ = []"

definition attempt_text :: "int \<Rightarrow> runtime_event list \<Rightarrow> string" where
  "attempt_text a es = concat (map (text_of_attempt a) es)"

lemma attempt_text_simps [simp]:
  "attempt_text a [] = []" "attempt_text a (ev # es) = text_of_attempt a ev @ attempt_text a es"
  "attempt_text a (es @ es') = attempt_text a es @ attempt_text a es'"
  by (simp_all add: attempt_text_def)

text \<open>Every delta carries the number of its attempt.\<close>

fun from_attempt :: "int \<Rightarrow> runtime_event \<Rightarrow> bool" where
  "from_attempt a (TextDeltaEvent _ _ a' _) \<longleftrightarrow> a' = a"
| "from_attempt a _ \<longleftrightarrow> True"

lemma attempt_events_tagged: "all_events (from_attempt attempt) (attempt_events env idle lm step attempt)"
  unfolding attempt_events_def
  by (rule all_events_gbind, simp, clarsimp, rule all_events_each_until [where Q = "\<lambda>_. True"])
    (auto simp: low_event_def failed_attempt_def Let_def split: runtime_event.split intro!: all_events_gbind)

lemma run_attempt_tagged: "all_events (from_attempt attempt) (run_attempt env idle lm step attempt)"
  unfolding run_attempt_def
  by (rule all_events_gbind [OF attempt_events_tagged]) (auto intro!: all_events_gbind split: option.split)

lemma other_attempt_text: "list_all (from_attempt attempt) es \<Longrightarrow> a \<noteq> attempt \<Longrightarrow> attempt_text a es = []"
proof (induction es)
  case (Cons ev es)
  then show ?case by (cases ev) auto
qed simp

section \<open>One attempt\<close>

definition result_text :: "model_result \<Rightarrow> string" where
  "result_text r = (case mres_text r of None \<Rightarrow> [] | Some body \<Rightarrow> body)"

lemma failed_finds_nothing: "drain (failed_attempt step e c) s = (es, Inr found, s') \<Longrightarrow> found = None"
  by (auto simp: failed_attempt_def split: if_splits)

lemma found_after_wait:
  assumes "drain (each_until (gbind (act (wait_for env idle)) (\<lambda>_. g)) b fin (failed_attempt step) c) s = (es, Inr (Some x), s')"
  obtains s1 where "drain (each_until g b fin (failed_attempt step) c) s1 = (es, Inr (Some x), s')"
  using assms
  by (cases "fst (wait_for env idle s)") (auto simp: act_def dest: failed_finds_nothing)

text \<open>The loop over a stream of text deltas with or without a completion at the end.\<close>

lemma found_completion:
  assumes "ends = [] \<or> (\<exists>i r m. ends = [ModelCompleted i r m])"
    and "drain (each_until (pulls env idle (of_events ends failure)) (low_event env step attempt)
      (\<lambda>c. Ret (map_option (Pair (at_previous c)) (at_pending c))) (failed_attempt step) c) s = (es, Inr (Some (previous, result)), s')"
    and "at_pending c = None"
  shows "es = [] \<and> (\<exists>i r m. ends = [ModelCompleted i r m] \<and> result = r\<lparr>mres_attempt := attempt\<rparr>)"
  using assms(1)
proof
  assume "ends = []"
  then show ?thesis using assms(2,3) by (cases failure) (auto dest: failed_finds_nothing)
next
  assume "\<exists>i r m. ends = [ModelCompleted i r m]"
  then obtain i r m where ends: "ends = [ModelCompleted i r m]" by blast
  let ?c = "c\<lparr>at_pending := if is_effective r then Some (r\<lparr>mres_attempt := attempt\<rparr>) else None\<rparr>"
  have "drain (each_until (gbind (act (wait_for env idle)) (\<lambda>_. pulls env idle (of_events [] failure))) (low_event env step attempt)
      (\<lambda>c. Ret (map_option (Pair (at_previous c)) (at_pending c))) (failed_attempt step) ?c) s = (es, Inr (Some (previous, result)), s')"
    using assms(2,3) by (simp add: ends pulled_event low_event_def del: of_events.simps)
  then obtain s1 where "drain (each_until (pulls env idle (of_events [] failure)) (low_event env step attempt)
      (\<lambda>c. Ret (map_option (Pair (at_previous c)) (at_pending c))) (failed_attempt step) ?c) s1 = (es, Inr (Some (previous, result)), s')"
    by (rule found_after_wait)
  then show ?thesis using ends by (cases failure) (auto dest: failed_finds_nothing split: if_splits)
qed

text \<open>How the processing of a text delta ends: in an error, or with the delta passed on.\<close>

definition passes_delta :: "int \<Rightarrow> string \<Rightarrow> runtime_event list \<times> (exn + (attempt_state, 'r) turn) \<times> run_state \<Rightarrow> bool" where
  "passes_delta attempt body d \<longleftrightarrow> (\<exists>e s'. d = ([], Inl e, s')) \<or>
     (\<exists>j receipt c s'. at_pending c = None \<and> d = ([TextDeltaEvent j body attempt receipt], Inr (Go c), s'))"

lemma drain_recording: "\<exists>x s1. drain (recording env f) s = ([], x, s1)"
  by (cases "wait_for env False s") (auto simp: recording_def drain_simps after_def split: sum.split prod.split)

lemma drain_text_delta:
  assumes "at_pending c = None"
  shows "passes_delta attempt body (drain (low_event env step attempt (TextDeltaEvent i body a m) c) s)"
proof -
  obtain x s1 where "drain (recording env (record_text_delta (si_run_id (ps_identity step)) (si_step_no (ps_identity step))
      (ps_record_target step) body (delta_op (ps_identity step) (ps_record_target step) attempt (at_delta_n c + 1)) attempt
      (at_previous c))) s = ([], x, s1)"
    using drain_recording by blast
  then show ?thesis using assms by (cases x) (auto simp: low_event_def passes_delta_def Let_def drain_simps)
qed

lemma after_delta:
  assumes "passes_delta attempt body d" and "after d k = (es, Inr x, s')"
  obtains j receipt c s1 es1 where "at_pending c = None" "es = TextDeltaEvent j body attempt receipt # es1" "k (Go c) s1 = (es1, Inr x, s')"
  using assms by (auto simp: passes_delta_def) (metis prod.collapse)

lemma found_text:
  assumes "list_all is_text deltas" and "ends = [] \<or> (\<exists>i r m. ends = [ModelCompleted i r m])"
    and "drain (each_until (pulls env idle (of_events (deltas @ ends) failure)) (low_event env step attempt)
      (\<lambda>c. Ret (map_option (Pair (at_previous c)) (at_pending c))) (failed_attempt step) c) s = (es, Inr (Some (previous, result)), s')"
    and "at_pending c = None"
  shows "attempt_text attempt es = streamed_text deltas \<and> (\<exists>i r m. ends = [ModelCompleted i r m] \<and> result = r\<lparr>mres_attempt := attempt\<rparr>)"
  using assms(1,3,4)
proof (induction deltas arbitrary: c s es)
  case Nil
  then show ?case using found_completion [OF assms(2), of env idle failure step attempt c s es] by (simp add: streamed_text_def)
next
  case (Cons ev deltas)
  then obtain i body a m where ev: "ev = TextDeltaEvent i body a m" by (cases ev) auto
  let ?rest = "gbind (act (wait_for env idle)) (\<lambda>_. pulls env idle (of_events (deltas @ ends) failure))"
  let ?loop = "\<lambda>g c. each_until g (low_event env step attempt)
      (\<lambda>c. Ret (map_option (Pair (at_previous c)) (at_pending c))) (failed_attempt step) c"
  have "after (drain (low_event env step attempt ev c) s) (\<lambda>t. drain (case t of Go c \<Rightarrow> ?loop ?rest c | Leave r \<Rightarrow> Ret r)) =
      (es, Inr (Some (previous, result)), s')"
    using Cons.prems(2) by (simp add: pulled_event drain_gbind del: of_events.simps)
  from after_delta [OF drain_text_delta [OF Cons.prems(3)] this [unfolded ev]]
  obtain j receipt c' s1 es1 where found: "at_pending c' = None" "es = TextDeltaEvent j body attempt receipt # es1"
    "drain (case Go c' of Go c \<Rightarrow> ?loop ?rest c | Leave r \<Rightarrow> Ret r) s1 = (es1, Inr (Some (previous, result)), s')" .
  from found_after_wait [OF found(3) [unfolded turn.case]] obtain s2 where
    rest: "drain (?loop (pulls env idle (of_events (deltas @ ends) failure)) c') s2 = (es1, Inr (Some (previous, result)), s')" .
  have "list_all is_text deltas" using Cons.prems(1) by simp
  from Cons.IH [OF this rest found(1)] show ?case by (simp add: ev found(2) streamed_text_def)
qed

section \<open>The step\<close>

text \<open>The events of a successful attempt \<open>a\<close>: its deltas spell the text of the result that follows them.\<close>

definition spelled :: "prepared_step \<Rightarrow> int \<Rightarrow> runtime_event list \<Rightarrow> bool" where
  "spelled step a es \<longleftrightarrow> (\<exists>front result rc. es = front @ [ModelCompleted (ps_identity step) result (Some rc)] \<and>
     mres_attempt result = a \<and> attempt_text a front = result_text result)"

lemma spelled_append: "attempt_text a es = [] \<Longrightarrow> spelled step a es' \<Longrightarrow> spelled step a (es @ es')"
  unfolding spelled_def by (metis append.assoc append_self_conv2 attempt_text_simps(3))

context low_level_port begin

lemma attempt_finds_text:
  assumes "drain (attempt_events env idle lm step attempt) s = (es, Inr (Some (previous, result)), s')"
  shows "attempt_text attempt es = result_text result \<and> mres_attempt result = attempt"
proof -
  obtain evs failure where lm: "lm (rs_clock s) (ps_request step) = (evs, failure)" by (rule prod.exhaust)
  obtain deltas ends where evs: "evs = deltas @ ends" "list_all is_text deltas" "model_end (streamed_text deltas) ends"
    using events [of "rs_clock s" "ps_request step"] by (auto simp: lm model_events_def)
  have "drain (each_until (gbind (act (wait_for env idle)) (\<lambda>_. pulls env idle (of_events evs failure))) (low_event env step attempt)
      (\<lambda>c. Ret (map_option (Pair (at_previous c)) (at_pending c))) (failed_attempt step) attempt_start) s =
      (es, Inr (Some (previous, result)), s')"
    using assms by (simp add: attempt_events_def reading_def lm iterate_cancellable_def)
  then obtain s1 where pulled: "drain (each_until (pulls env idle (of_events (deltas @ ends) failure)) (low_event env step attempt)
      (\<lambda>c. Ret (map_option (Pair (at_previous c)) (at_pending c))) (failed_attempt step) attempt_start) s1 =
      (es, Inr (Some (previous, result)), s')"
    unfolding evs(1) by (rule found_after_wait)
  have "ends = [] \<or> (\<exists>i r m. ends = [ModelCompleted i r m])" using evs(3) by (auto simp: model_end_def)
  from found_text [OF evs(2) this pulled] obtain i r m where "attempt_text attempt es = streamed_text deltas"
    "ends = [ModelCompleted i r m]" "result = r\<lparr>mres_attempt := attempt\<rparr>" by (auto simp: attempt_start_def)
  then show ?thesis using evs(3) by (auto simp: model_end_def result_text_def)
qed

lemma run_attempt_spelled:
  assumes run: "drain (run_attempt env idle lm step attempt) s = (es, r, s')" and "list_ex is_model_completed es"
  shows "spelled step attempt es"
proof -
  obtain es1 r1 s1 where ev: "drain (attempt_events env idle lm step attempt) s = (es1, r1, s1)" by (metis prod_cases3)
  have deltas: "\<not> list_ex is_model_completed es1"
    using delta_not_completed [OF all_events_drain [OF attempt_events_deltas ev]] .
  show ?thesis
  proof (cases "\<exists>previous result. r1 = Inr (Some (previous, result))")
    case True
    then obtain previous result where found: "r1 = Inr (Some (previous, result))" by blast
    obtain x s2 where rec: "drain (recording env (record_final step attempt previous result)) s1 = ([], x, s2)"
      using drain_recording by blast
    have "\<exists>rc. es = es1 @ [ModelCompleted (ps_identity step) result (Some rc)]"
      using run ev found rec deltas assms(2) by (cases x) (auto simp: run_attempt_def drain_simps)
    then show ?thesis using attempt_finds_text [OF ev [unfolded found]] unfolding spelled_def by blast
  next
    case False
    then have "es = es1" using run ev by (cases r1) (auto simp: run_attempt_def drain_gbind split: option.splits)
    then show ?thesis using deltas assms(2) by simp
  qed
qed

lemma one_attempt_spelled:
  assumes run: "drain (one_attempt env idle lm step attempt) s = (es, r, s')"
  shows "list_all (from_attempt attempt) es" and "r = Inr (True, failure) \<Longrightarrow> spelled step attempt es"
proof -
  obtain es1 r1 s1 where a: "drain (run_attempt env idle lm step attempt) s = (es1, r1, s1)" by (metis prod_cases3)
  have tagged: "list_all (from_attempt attempt) es1" using all_events_drain [OF run_attempt_tagged a] .
  have "es = es1 \<and> (r = Inr (True, failure) \<longrightarrow> list_ex is_model_completed es1)"
    using run a
    by (cases r1) (auto simp: one_attempt_def drain_simps drain_each_until_pass retry_error_def fold_watch split: if_splits)
  then show "list_all (from_attempt attempt) es" "r = Inr (True, failure) \<Longrightarrow> spelled step attempt es"
    using tagged run_attempt_spelled [OF a] by auto
qed

lemma attempt_loop_spelled:
  assumes "drain (attempt_loop env idle lm step left attempt last_error) s = (es, Inr (), s')"
  shows "\<exists>a \<ge> attempt. spelled step a es"
  using assms
proof (induction left arbitrary: s es attempt last_error)
  case (Suc left)
  from Suc.prems show ?case
  proof (cases rule: attempt_loop_round)
    case (attempted s1 es1 r1 s2)
    note one = one_attempt_spelled [OF attempted(2)]
    show ?thesis
    proof (cases "\<exists>failure. r1 = Inr (True, failure)")
      case True
      then show ?thesis using attempted(3) one(2) by auto
    next
      case False
      then obtain s3 es3 last where es: "es = es1 @ es3" and rest: "drain (attempt_loop env idle lm step left (attempt + 1) last) s3 = (es3, Inr (), s')"
        using attempted(3) by (auto split: sum.splits prod.splits bool.splits)
      from Suc.IH [OF rest] obtain a where "attempt + 1 \<le> a" "spelled step a es3" by blast
      moreover from this have "attempt_text a es1 = []" by (intro other_attempt_text [OF one(1)]) simp
      ultimately show ?thesis using es spelled_append by (intro exI [of _ a]) simp
    qed
  qed simp
qed simp

lemma model_stream_spelled:
  "drain (model_stream env idle lm step) s = (es, Inr (), s') \<Longrightarrow> \<exists>a \<ge> 1. spelled step a es"
  using attempt_loop_spelled by (auto simp: model_stream_def Let_def split: if_splits)

end

text \<open>C8: What the consumer reads while a model step streams is what the step ends with: when a step over the
vendor adapter succeeds, after any number of failed attempts, its last event is the one result, and
the text deltas that carry the number of the result's attempt, and only they, spell the result's text.
Deltas of abandoned attempts have other numbers, so a consumer that goes by the number shows
exactly the final text.\<close>

theorem streamed_text_is_the_result:
  "case drain (model_stream env idle (openai_low_level js create now moves m) step) s of (es, r, s') \<Rightarrow>
     (case r of
        Inl _ \<Rightarrow> True
      | Inr _ \<Rightarrow> \<exists>front result rc. es = front @ [ModelCompleted (ps_identity step) result (Some rc)] \<and>
          1 \<le> mres_attempt result \<and> attempt_text (mres_attempt result) front = result_text result)"
proof -
  obtain es r s' where run: "drain (model_stream env idle (openai_low_level js create now moves m) step) s = (es, r, s')"
    by (metis prod_cases3)
  then show ?thesis
    using oa.model_stream_spelled [of env idle js create now moves m step s es s']
    by (cases r) (auto simp: spelled_def)
qed

end
