(* ===== verification/Spec2Isabelle.thy ===== *)
theory Spec2Isabelle imports Demo_Cancel Run_Liveness Run_Stream Op_Ids Assembly Openai_Patience Streamed_Text begin

text \<open>
  \<^bold>\<open>The program.\<close> The package \<^verbatim>\<open>src/src/agent_runtime\<close> runs one turn of an LLM agent.  A host assembles a
  \<^verbatim>\<open>DefaultRuntime\<close> and consumes the stream of events of \<^verbatim>\<open>run(request)\<close>: the runner records the
  input, loops over model rounds, tool batches and completions (\<^verbatim>\<open>core.py\<close>), and commits every
  fact to a transcript before it announces it.  Everything is asynchronous: a run may be stopped, its
  consumer may leave, and other tasks share its stores.

  \<^bold>\<open>Values and errors.\<close>  \<open>Exceptions\<close>, \<open>Jsonutil\<close> and \<open>Contracts\<close> model \<^verbatim>\<open>exceptions.py\<close>, \<^verbatim>\<open>jsonutil.py\<close>
  and the value objects and events of \<^verbatim>\<open>contracts.py\<close>.  Frozen dataclasses are records, unions and enums
  datatypes, Python's unbounded integers \<open>int\<close>, floats rationals (their rendering is a parameter), a
  raised exception the \<open>Inl\<close> of a sum.  \<open>Control\<close> is the \<^verbatim>\<open>RunControl\<close> of the same file, with the
  clock as an argument.

  \<^bold>\<open>Stores.\<close>  \<open>Recording\<close> models \<^verbatim>\<open>MemoryTranscript\<close> of \<^verbatim>\<open>recording.py\<close> method by method.
  \<open>Recording_Steps\<close> gives every call as one step of the relation \<open>transcript_step\<close>, \<open>Recording_Facts\<close>
  the invariant \<open>transcript_wf\<close> and what grows, \<open>Transcript\<close> the properties: append-only histories,
  idempotent repetition, rejected reuse of an operation id, isolation of targets, atomic failure, the
  streamed text as one message, tool results after their calls.  \<open>Versioned\<close> is the contract that
  the transcript, the application state (\<open>Application\<close>) and the capability session (\<open>Capabilities\<close>, with
  the schema checks, binding registries and providers) share, interpreted for each of them.

  \<^bold>\<open>Context.\<close>  \<open>Budget\<close>, \<open>Compress\<close> with \<open>Compress_Facts\<close>, and \<open>Manager\<close> with \<open>Manager_Facts\<close> model
  \<^verbatim>\<open>context/\<close>: what fits the token budget, the trimming and summarizing compressors over the
  contract \<open>compressor\<close>, the step provider that reads three stores until they agree, merges
  contributions and projects the history through a cache.  \<open>Policies\<close> models \<^verbatim>\<open>policies.py\<close>.

  \<^bold>\<open>Asynchrony.\<close>  \<open>Session\<close> holds the state of a run as one record and an \<open>environment\<close>: what the other tasks
  do to that state at each suspension, and whether the awaited work is ready.  \<open>Streams\<close> models the
  asynchronous generators as trees of events and state changes (\<open>gen\<close>), with the clean-up that runs when
  one is closed where it is suspended; \<open>drain\<close> is a consumer that stays to the end.  \<open>Trace_Logic\<close> is a
  weakest-precondition calculus over an automaton that reads the events, \<open>Guards\<close> its rely-guarantee
  counterpart that also covers what the consumer and other tasks do in between.

  \<^bold>\<open>The run.\<close>  \<open>Model_Pipeline\<close>, \<open>Tool_Pipeline\<close> and \<open>Completion_Pipeline\<close> model \<^verbatim>\<open>pipelines/\<close>, \<open>Agent_Loop\<close>
  models \<^verbatim>\<open>core.py\<close>, \<open>Observability\<close> models \<^verbatim>\<open>observability.py\<close> and \<open>Runner\<close> models \<^verbatim>\<open>runner.py\<close>.
  \<open>Model_Facts\<close> and \<open>Tool_Facts\<close> hold the properties of the pipelines, \<open>Loop_Protocol\<close> an abstract machine
  of phases which the loop refines and the contracts of its ports, \<open>Run_Protocol\<close> their
  interpretation on the default ports and the termination of the loop, \<open>Runner_Facts\<close> what a terminal
  event means.  \<open>Run_Invariants\<close> proves once that all pipelines keep an invariant that meets the locale
  \<open>run_guard\<close>; \<open>External_Work\<close> and \<open>Run_Liveness\<close> interpret it, and \<open>Demo_Cancel\<close> evaluates a whole run.
  \<open>Consumer\<close> shows what reaches a consumer that leaves, \<open>Closing\<close> what a run does that is closed at one of its
  events, \<open>Run_Stream\<close> what the public \<^verbatim>\<open>DefaultRuntime.run\<close> gives a consumer that takes some events and closes the
  stream.  \<open>Assembly\<close> models how a host makes a runtime, \<^verbatim>\<open>assemble_default\<close> and the constructor.  \<open>Op_Ids\<close> shows that the ids of logical operations are unambiguous.

  \<^bold>\<open>Lifecycle.\<close>  \<open>Lifecycle\<close> models the rest of \<^verbatim>\<open>lifecycle.py\<close>: the scope of a run with its tasks and streams and its
  one close, awaiting under cancellation, the decisions at the end of a wait, \<^verbatim>\<open>CallbackStream\<close>.

  \<^bold>\<open>The vendor.\<close>  \<open>Openai\<close> models \<^verbatim>\<open>adapters/openai.py\<close>: the payload of a request, the normalization of the
  vendor's chunks, the assembly of tool calls, the queue between producer and consumer with its
  deadlines, release and close.  \<open>Json_Text\<close> is the part of Python's \<^verbatim>\<open>json\<close> it needs and \<open>Json_Text_Facts\<close> proves
  that its fuel is enough and that reading undoes writing.  \<open>Openai_Facts\<close> has the shape of a
  normalized stream and the round trip of tool calls, \<open>Openai_Stream\<close> how a stream ends,
  \<open>Openai_Patience\<close> what a consumer gets that keeps waiting.  \<open>Model_Port\<close>
  states the contract of \<^verbatim>\<open>LowLevelModel\<close> (\<^verbatim>\<open>ports.py\<close>) as the locale \<open>low_level_port\<close>, with what the model pipeline and
  the summarizer get from it, \<open>Openai_Port\<close> interprets it on the adapter, and \<open>Streamed_Text\<close> shows under the
  contract that the deltas a consumer sees spell the text of the result.

  \<^bold>\<open>Bounds.\<close>  \<open>agent_rounds\<close> takes fuel because a run without limits may go on for ever; \<open>loop_terminates\<close>
  shows that one more than the steps or rounds left by the limits is enough and that more changes nothing.
  The version loop of the step provider makes the three attempts of the source.  The JSON parser has fuel of
  twice the length of its text, which \<open>enough_text_fuel\<close> shows to be enough.

  \<^bold>\<open>Parameters.\<close>  The vendor's model or SDK, tools, host policies, the observer, the jsonschema package, SHA-256,
  token estimators and the rendering and reading of floats are arguments of the definitions that use them.

  \<^bold>\<open>Not modelled.\<close>  Re-exports, the test doubles and acceptance scripts, logging, and those protocols of \<^verbatim>\<open>ports.py\<close>
  whose one implementation is modelled itself.  The runner's scope is the state of \<open>Lifecycle\<close> only there; in a run
  its tasks, and the generators below the runner's own when that one is closed, are the environment.  The
  invariants over a whole run speak of a consumer that stays (\<open>drain\<close>) or of any other through \<open>guard\<close>; \<open>Run_Stream\<close>
  reduces the consumers that leave to these.
\<close>

end
